(* ===== verification/Prelude.thy ===== *)
theory Prelude
  imports Main "HOL-Library.Word"
begin

text \<open>
  Shared vocabulary of the development: the machine types of the Rust sources, results as
  sums, saturating and checked \<open>u64\<close> arithmetic, byte classes of identifiers and
  hexadecimal digests, and the small facts on lists and maps that the components use.
\<close>

section \<open>Types\<close>

type_synonym u8 = "8 word"
type_synonym bytes = "u8 list"

text \<open>
  Rust's \<open>u64\<close>, \<open>u32\<close> and \<open>usize\<close> values are natural numbers here; every place
  where the source saturates, checks or may wrap writes the bound out with the operations
  of the next section. A Rust \<open>String\<close> is the list of its UTF-8 bytes, so \<open>length\<close>
  is \<open>len()\<close>.
\<close>

named_theorems res_simps \<open>unfolding of results\<close>
named_theorems arith_defs \<open>definitions of machine arithmetic\<close>

section \<open>Results\<close>

text \<open>A fallible Rust function returns \<open>Inl e\<close> for \<open>Err(e)\<close> and \<open>Inr v\<close> for \<open>Ok(v)\<close>.\<close>

definition try_then :: "'e + 'a \<Rightarrow> ('a \<Rightarrow> 'e + 'b) \<Rightarrow> 'e + 'b" where
  "try_then r f = (case r of Inl e \<Rightarrow> Inl e | Inr x \<Rightarrow> f x)"

definition map_err :: "('e \<Rightarrow> 'f) \<Rightarrow> 'e + 'a \<Rightarrow> 'f + 'a" where
  "map_err g r = (case r of Inl e \<Rightarrow> Inl (g e) | Inr x \<Rightarrow> Inr x)"

definition ok_or :: "'e \<Rightarrow> 'a option \<Rightarrow> 'e + 'a" where
  "ok_or e v = (case v of None \<Rightarrow> Inl e | Some x \<Rightarrow> Inr x)"

definition is_ok :: "'e + 'a \<Rightarrow> bool" where
  "is_ok r = (case r of Inl e \<Rightarrow> False | Inr x \<Rightarrow> True)"

definition is_err :: "'e + 'a \<Rightarrow> bool" where
  "is_err r = (\<not> is_ok r)"

definition ok_opt :: "'e + 'a \<Rightarrow> 'a option" where
  "ok_opt r = (case r of Inl e \<Rightarrow> None | Inr x \<Rightarrow> Some x)"

lemma try_then_simps [simp, res_simps]:
  "try_then (Inl e) f = Inl e"
  "try_then (Inr x) f = f x"
  by (simp_all add: try_then_def)

lemma try_then_Inr [res_simps]:
  "try_then r f = Inr y \<longleftrightarrow> (\<exists>x. r = Inr x \<and> f x = Inr y)"
  by (auto simp: try_then_def split: sum.splits)

lemma try_then_Inl [res_simps]:
  "try_then r f = Inl e \<longleftrightarrow> r = Inl e \<or> (\<exists>x. r = Inr x \<and> f x = Inl e)"
  by (auto simp: try_then_def split: sum.splits)

lemma map_err_simps [simp, res_simps]:
  "map_err g (Inl e) = Inl (g e)"
  "map_err g (Inr x) = Inr x"
  by (simp_all add: map_err_def)

lemma map_err_Inr [simp, res_simps]: "map_err g r = Inr y \<longleftrightarrow> r = Inr y"
  by (auto simp: map_err_def split: sum.splits)

lemma ok_or_simps [simp, res_simps]:
  "ok_or e None = Inl e"
  "ok_or e (Some x) = Inr x"
  by (simp_all add: ok_or_def)

lemma ok_or_Inr [simp, res_simps]: "ok_or e v = Inr x \<longleftrightarrow> v = Some x"
  by (auto simp: ok_or_def split: option.splits)

lemma is_ok_simps [simp, res_simps]:
  "is_ok (Inr x)" "\<not> is_ok (Inl e)" "is_err (Inl e)" "\<not> is_err (Inr x)"
  by (simp_all add: is_ok_def is_err_def)

lemma ok_opt_simps [simp, res_simps]:
  "ok_opt (Inl e) = None" "ok_opt (Inr x) = Some x"
  by (simp_all add: ok_opt_def)

lemma ok_opt_Some [simp]: "ok_opt r = Some x \<longleftrightarrow> r = Inr x"
  by (auto simp: ok_opt_def split: sum.splits)

section \<open>Unsigned 64-bit arithmetic\<close>

definition u64_max :: nat where
  "u64_max = 2 ^ 64 - 1"

definition i64_max :: nat where
  "i64_max = 2 ^ 63 - 1"

definition u32_max :: nat where
  "u32_max = 2 ^ 32 - 1"

definition sat_add :: "nat \<Rightarrow> nat \<Rightarrow> nat" where
  "sat_add a b = min (a + b) u64_max"

definition sat_sub :: "nat \<Rightarrow> nat \<Rightarrow> nat" where
  "sat_sub a b = a - b"

definition checked_add :: "nat \<Rightarrow> nat \<Rightarrow> nat option" where
  "checked_add a b = (if a + b \<le> u64_max then Some (a + b) else None)"

definition wrap_mul :: "nat \<Rightarrow> nat \<Rightarrow> nat" where
  "wrap_mul a b = (a * b) mod 2 ^ 64"

definition div_ceil :: "nat \<Rightarrow> nat \<Rightarrow> nat" where
  "div_ceil a b = (if a mod b = 0 then a div b else a div b + 1)"

lemmas [arith_defs] = u64_max_def i64_max_def u32_max_def sat_add_def sat_sub_def
  checked_add_def wrap_mul_def

lemma sat_add_le: "sat_add a b \<le> u64_max"
  by (simp add: sat_add_def)

lemma sat_add_ge: "a \<le> u64_max \<Longrightarrow> a \<le> sat_add a b"
  by (simp add: sat_add_def)

lemma checked_add_Some: "checked_add a b = Some c \<longleftrightarrow> c = a + b \<and> a + b \<le> u64_max"
  by (auto simp: checked_add_def)

lemma div_ceil_bounds:
  assumes "0 < b"
  shows "a \<le> div_ceil a b * b" "div_ceil a b * b < a + b"
proof -
  have a: "a div b * b + a mod b = a" and m: "a mod b < b"
    using assms by simp_all
  consider "a mod b = 0" "div_ceil a b * b = a div b * b"
    | "a mod b \<noteq> 0" "div_ceil a b * b = a div b * b + b"
    by (cases "a mod b = 0") (auto simp: div_ceil_def)
  then have "a \<le> div_ceil a b * b \<and> div_ceil a b * b < a + b"
    by cases (use a m in linarith)+
  then show "a \<le> div_ceil a b * b" "div_ceil a b * b < a + b" by auto
qed

lemmas div_ceil_ge = div_ceil_bounds(1)
lemmas div_ceil_less = div_ceil_bounds(2)

lemma div_ceil_pos: "0 < a \<Longrightarrow> 0 < b \<Longrightarrow> 0 < div_ceil a b"
  using div_ceil_ge [of b a] by (cases "div_ceil a b") auto

section \<open>Byte classes\<close>

definition byte_between :: "nat \<Rightarrow> nat \<Rightarrow> char \<Rightarrow> bool" where
  "byte_between lo hi c = (lo \<le> of_char c \<and> of_char c \<le> hi)"

definition ascii_digit :: "char \<Rightarrow> bool" where
  "ascii_digit c = byte_between 48 57 c"

definition ascii_lowercase :: "char \<Rightarrow> bool" where
  "ascii_lowercase c = byte_between 97 122 c"

definition ascii_uppercase :: "char \<Rightarrow> bool" where
  "ascii_uppercase c = byte_between 65 90 c"

definition ascii_alphanumeric :: "char \<Rightarrow> bool" where
  "ascii_alphanumeric c = (ascii_digit c \<or> ascii_lowercase c \<or> ascii_uppercase c)"

definition lower_hex :: "char \<Rightarrow> bool" where
  "lower_hex c = (ascii_digit c \<or> byte_between 97 102 c)"

lemmas byte_class_defs = byte_between_def ascii_digit_def ascii_lowercase_def
  ascii_uppercase_def ascii_alphanumeric_def lower_hex_def

lemma lower_hex_not_colon: "lower_hex c \<Longrightarrow> c \<noteq> CHR '':''"
  by (auto simp: byte_class_defs)

section \<open>Strings\<close>

text \<open>\<open>str::split_once\<close> at one separator character.\<close>

fun split_once :: "char \<Rightarrow> string \<Rightarrow> (string \<times> string) option" where
  "split_once c [] = None"
| "split_once c (x # xs) =
     (if x = c then Some ([], xs)
      else map_option (\<lambda>(l, r). (x # l, r)) (split_once c xs))"

lemma split_once_append:
  "c \<notin> set l \<Longrightarrow> split_once c (l @ c # r) = Some (l, r)"
  by (induction l) auto

lemma split_once_Some:
  "split_once c s = Some (l, r) \<Longrightarrow> s = l @ c # r \<and> c \<notin> set l"
  by (induction s arbitrary: l) (auto split: if_splits)

definition strip_prefix :: "'a list \<Rightarrow> 'a list \<Rightarrow> 'a list option" where
  "strip_prefix p s = (if take (length p) s = p then Some (drop (length p) s) else None)"

definition strip_suffix :: "'a list \<Rightarrow> 'a list \<Rightarrow> 'a list option" where
  "strip_suffix p s = map_option rev (strip_prefix (rev p) (rev s))"

lemma strip_prefix_Some: "strip_prefix p s = Some r \<longleftrightarrow> s = p @ r"
proof
  assume "strip_prefix p s = Some r"
  then have "take (length p) s = p" "r = drop (length p) s"
    by (auto simp: strip_prefix_def split: if_splits)
  then show "s = p @ r" by (metis append_take_drop_id)
qed (simp add: strip_prefix_def)

lemma strip_suffix_Some: "strip_suffix p s = Some r \<longleftrightarrow> s = r @ p"
proof
  assume "strip_suffix p s = Some r"
  then obtain q where "rev s = rev p @ q" "r = rev q"
    by (auto simp: strip_suffix_def strip_prefix_Some)
  then show "s = r @ p" by (metis rev_append rev_rev_ident)
next
  assume "s = r @ p"
  then show "strip_suffix p s = Some r"
    by (simp add: strip_suffix_def strip_prefix_def)
qed

text \<open>Decimal printing of an unsigned integer (\<open>to_string\<close>).\<close>

fun show_nat :: "nat \<Rightarrow> string" where
  "show_nat n =
     (if n < 10 then [char_of (48 + n)] else show_nat (n div 10) @ [char_of (48 + n mod 10)])"

declare show_nat.simps [simp del]

fun read_nat_acc :: "nat \<Rightarrow> string \<Rightarrow> nat" where
  "read_nat_acc acc [] = acc"
| "read_nat_acc acc (c # cs) = read_nat_acc (10 * acc + (of_char c - 48)) cs"

lemma read_nat_acc_append:
  "read_nat_acc acc (xs @ ys) = read_nat_acc (read_nat_acc acc xs) ys"
  by (induction xs arbitrary: acc) auto

lemma read_show_nat: "read_nat_acc 0 (show_nat n) = n"
proof (induction n rule: show_nat.induct)
  case (1 n)
  show ?case
  proof (cases "n < 10")
    case True
    then show ?thesis by (simp add: show_nat.simps [of n] of_char_of)
  next
    case False
    have "(48 + n mod 10) mod 256 = 48 + n mod 10"
      by (rule mod_less) (use mod_less_divisor [of 10 n] in linarith)
    then show ?thesis
      using "1.IH" False
      by (simp add: show_nat.simps [of n] read_nat_acc_append of_char_of)
  qed
qed

lemma show_nat_inj: "show_nat m = show_nat n \<longleftrightarrow> m = n"
  using read_show_nat by metis

lemma show_nat_digits: "c \<in> set (show_nat n) \<Longrightarrow> ascii_digit c"
proof (induction n rule: show_nat.induct)
  case (1 n)
  have "ascii_digit (char_of (48 + d))" if "d < 10" for d :: nat
    using that by (simp add: byte_class_defs of_char_of)
  then show ?case
    using 1 by (auto simp: show_nat.simps [of n] split: if_splits)
qed

lemma length_show_nat: "n < 10 ^ k \<Longrightarrow> 0 < k \<Longrightarrow> length (show_nat n) \<le> k"
proof (induction n arbitrary: k rule: show_nat.induct)
  case (1 n)
  show ?case
  proof (cases "n < 10")
    case True
    then show ?thesis using 1 by (simp add: show_nat.simps [of n])
  next
    case False
    then obtain j where j: "k = Suc j" "0 < j" using 1 by (cases k; cases "k - 1") auto
    then have "n div 10 < 10 ^ j" using 1 by (simp add: less_mult_imp_div_less mult.commute)
    then show ?thesis using 1 False j by (simp add: show_nat.simps [of n])
  qed
qed

section \<open>Results with a state that outlives an error\<close>

text \<open>
  An operation that changes the world and may fail returns the new state together with its
  result: what it wrote before the failing call stays written.
\<close>

definition st_then :: "'s \<times> ('e + 'a) \<Rightarrow> ('a \<Rightarrow> 's \<Rightarrow> 's \<times> ('e + 'b)) \<Rightarrow> 's \<times> ('e + 'b)" where
  "st_then r f = (case r of (s, Inl e) \<Rightarrow> (s, Inl e) | (s, Inr x) \<Rightarrow> f x s)"

lemma st_then_simps [simp, res_simps]:
  "st_then (s, Inl e) f = (s, Inl e)"
  "st_then (s, Inr x) f = f x s"
  by (simp_all add: st_then_def)

lemma st_then_Inr [res_simps]:
  "st_then r f = (s', Inr y) \<longleftrightarrow> (\<exists>s x. r = (s, Inr x) \<and> f x s = (s', Inr y))"
  by (cases r; cases "snd r") (auto simp: st_then_def)

definition st_map_err :: "('e \<Rightarrow> 'f) \<Rightarrow> 's \<times> ('e + 'a) \<Rightarrow> 's \<times> ('f + 'a)" where
  "st_map_err g r = (case r of (s, x) \<Rightarrow> (s, map_err g x))"

lemma st_map_err_simps [simp, res_simps]:
  "st_map_err g (s, Inl e) = (s, Inl (g e))"
  "st_map_err g (s, Inr x) = (s, Inr x)"
  by (simp_all add: st_map_err_def)

text \<open>
  The postcondition of such a run: \<open>Q\<close> of the value and state of a run that returns, \<open>E\<close> of
  the state of one that fails. Sequencing is transparent to it, so a property of a long operation
  reduces to the ones of the calls it makes.
\<close>

definition wp :: "('a \<Rightarrow> 's \<Rightarrow> bool) \<Rightarrow> ('e \<Rightarrow> 's \<Rightarrow> bool) \<Rightarrow> 's \<times> ('e + 'a) \<Rightarrow> bool" where
  "wp Q E r = (case r of (s, Inl e) \<Rightarrow> E e s | (s, Inr x) \<Rightarrow> Q x s)"

lemma wp_simps [simp]:
  "wp Q E (s, Inl e) = E e s"
  "wp Q E (s, Inr x) = Q x s"
  by (simp_all add: wp_def)

lemma wp_then [simp]: "wp Q E (st_then r f) = wp (\<lambda>x s. wp Q E (f x s)) E r"
  by (cases r; cases "snd r") (auto simp: wp_def)

lemma wp_map_err [simp]: "wp Q E (st_map_err g r) = wp Q (\<lambda>e. E (g e)) r"
  by (cases r; cases "snd r") (auto simp: wp_def)

lemma wp_mono:
  assumes "wp Q E r" "\<And>x s. Q x s \<Longrightarrow> Q' x s" "\<And>e s. E e s \<Longrightarrow> E' e s"
  shows "wp Q' E' r"
  using assms by (cases r; cases "snd r") (auto simp: wp_def)

lemma wp_conj: "wp Q E r \<Longrightarrow> wp Q' E' r \<Longrightarrow> wp (\<lambda>x s. Q x s \<and> Q' x s) (\<lambda>e s. E e s \<and> E' e s) r"
  by (cases r; cases "snd r") (auto simp: wp_def)

lemma wp_Inr: "r = (s, Inr x) \<Longrightarrow> wp Q E r \<Longrightarrow> Q x s"
  by simp

lemma wp_Inl: "r = (s, Inl e) \<Longrightarrow> wp Q E r \<Longrightarrow> E e s"
  by simp

lemma wp_result: "wp Q X (s, r) = (case r of Inl e \<Rightarrow> X e s | Inr x \<Rightarrow> Q x s)"
  by (simp split: sum.splits)

lemma wp_ok_or [simp]: "wp Q X (s, ok_or e v) = (case v of None \<Rightarrow> X e s | Some x \<Rightarrow> Q x s)"
  by (simp add: ok_or_def split: option.splits)

lemma wp_map_err_pair [simp]:
  "wp Q X (s, map_err g r) = (case r of Inl e \<Rightarrow> X (g e) s | Inr x \<Rightarrow> Q x s)"
  by (simp split: sum.splits)

lemma fst_st_then: "fst (st_then r f) = (case snd r of Inl e \<Rightarrow> fst r | Inr x \<Rightarrow> fst (f x (fst r)))"
  by (cases r; cases "snd r") auto

end
