(* ===== verification/Gf256.thy ===== *)
theory Gf256
  imports Prelude
begin

unbundle bit_operations_syntax

text \<open>
  The byte arithmetic of \<open>crates/wildbloomd/src/replicas/coding.rs\<close>: the shift-and-reduce
  multiplication \<open>mul\<close> and the repeated product \<open>power\<close> (here \<open>power_u8\<close>). The byte operations are
  shown to be those of the field with 256 elements, given as the type \<open>gf\<close> with an
  instance of the class \<open>field\<close>; the matrix theory works in that field.
\<close>

section \<open>The operations\<close>

definition xtime :: "u8 \<Rightarrow> u8" where
  "xtime a = push_bit 1 a XOR (if a AND 128 \<noteq> 0 then 0x1d else 0)"

lemma unat_half_less: "b \<noteq> 0 \<Longrightarrow> unat (drop_bit 1 b) < unat b" for b :: u8
proof -
  assume "b \<noteq> 0"
  then have "0 < unat b" by (simp add: unat_gt_0)
  moreover have "unat (drop_bit 1 b) = unat b div 2"
    by (simp add: drop_bit_eq_div unat_div)
  ultimately show ?thesis by simp
qed

function mul_loop :: "u8 \<Rightarrow> u8 \<Rightarrow> u8 \<Rightarrow> u8" where
  "mul_loop out a b =
     (if b \<noteq> 0
      then mul_loop (if b AND 1 \<noteq> 0 then out XOR a else out) (xtime a) (drop_bit 1 b)
      else out)"
  by pat_completeness auto
termination
  by (relation "measure (\<lambda>(out, a, b). unat b)") (use unat_half_less in \<open>simp_all only: in_measure split_conv wf_measure\<close>)

declare mul_loop.simps [simp del]

definition mul :: "u8 \<Rightarrow> u8 \<Rightarrow> u8" where
  "mul a b = mul_loop 0 a b"

definition power_u8 :: "u8 \<Rightarrow> nat \<Rightarrow> u8" where
  "power_u8 a n = foldl (\<lambda>v _. mul v a) 1 [0..<n]"

section \<open>Shift and reduce is linear\<close>

lemma high_bit: "(a AND 128 = 0) = (\<not> bit a 7)" for a :: u8
  using and_exp_eq_0_iff_not_bit [of a 7] by simp

lemma low_bit: "(b AND 1 = 0) = (\<not> bit b 0)" for b :: u8
  using and_exp_eq_0_iff_not_bit [of b 0] by simp

definition sel :: "bool \<Rightarrow> u8 \<Rightarrow> u8" where
  "sel p x = (if p then x else 0)"

lemma sel_simps [simp]: "sel True x = x" "sel False x = 0" "sel p 0 = 0"
  by (simp_all add: sel_def)

lemma sel_xor [simp]: "sel (p = (\<not> q)) x = sel p x XOR sel q x"
  by (simp add: sel_def)

lemma sel_distrib: "sel p (x XOR y) = sel p x XOR sel p y"
  by (simp add: sel_def)

lemmas xor_ac = xor.assoc xor.commute xor.left_commute

lemma xor_self_left [simp]: "x XOR (x XOR y) = y" for x :: u8
  by (simp flip: xor.assoc)

lemma xtime_alt: "xtime a = push_bit 1 a XOR sel (bit a 7) 29"
  by (simp add: xtime_def high_bit sel_def)

lemma xtime_xor: "xtime (a XOR b) = xtime a XOR xtime b"
  by (simp add: xtime_alt bit_xor_iff push_bit_xor xor_ac)

lemma xtime_0 [simp]: "xtime 0 = 0"
  by (simp add: xtime_alt)

lemma xtime_sel: "xtime (sel p a) = sel p (xtime a)"
  by (cases p) simp_all

section \<open>The loop as a sum over the bits of the multiplier\<close>

lemma mul_loop_acc: "mul_loop out a b = out XOR mul_loop 0 a b"
proof (induction "unat b" arbitrary: out a b rule: less_induct)
  case less
  show ?case
  proof (cases "b = 0")
    case True
    then show ?thesis by (simp add: mul_loop.simps)
  next
    case False
    then have "unat (drop_bit 1 b) < unat b"
      by (rule unat_half_less)
    then have ih: "mul_loop z (xtime a) (drop_bit 1 b)
        = z XOR mul_loop 0 (xtime a) (drop_bit 1 b)" for z
      by (rule less)
    have "mul_loop z a b = (z XOR sel (bit b 0) a) XOR mul_loop 0 (xtime a) (drop_bit 1 b)" for z
      using False ih [of z] ih [of "z XOR a"]
      by (simp add: mul_loop.simps [of z a b] low_bit sel_def)
    from this [of out] this [of 0] show ?thesis by (simp only: xor.assoc xor.left_neutral)
  qed
qed

lemma mul_rec: "mul a b = sel (bit b 0) a XOR mul (xtime a) (drop_bit 1 b)"
proof (cases "b = 0")
  case True
  then show ?thesis by (simp add: mul_def mul_loop.simps)
next
  case False
  then show ?thesis
    unfolding mul_def
    by (subst mul_loop.simps, subst mul_loop_acc) (simp add: low_bit sel_def)
qed

lemma mul_zero_right [simp]: "mul a 0 = 0"
  by (simp add: mul_def mul_loop.simps)

definition xtimes :: "nat \<Rightarrow> u8 \<Rightarrow> u8" where
  "xtimes i a = (xtime ^^ i) a"

lemma xtimes_simps [simp]: "xtimes 0 a = a" "xtimes (Suc i) a = xtimes i (xtime a)"
  by (simp_all add: xtimes_def funpow_swap1)

lemma mul_bits:
  "mul a b = sel (bit b 0) a XOR sel (bit b 1) (xtimes 1 a) XOR sel (bit b 2) (xtimes 2 a)
     XOR sel (bit b 3) (xtimes 3 a) XOR sel (bit b 4) (xtimes 4 a) XOR sel (bit b 5) (xtimes 5 a)
     XOR sel (bit b 6) (xtimes 6 a) XOR sel (bit b 7) (xtimes 7 a)"
proof -
  have "drop_bit 8 b = 0" by (rule bit_word_eqI) (simp add: bit_drop_bit_eq)
  then have last: "mul c (drop_bit 8 b) = 0" for c by simp
  have step: "mul c (drop_bit i b) = sel (bit b i) c XOR mul (xtime c) (drop_bit (Suc i) b)"
    for c i
    by (subst mul_rec) (simp add: bit_drop_bit_eq)
  show ?thesis
    using step [of a 0] step [of "xtimes 1 a" 1] step [of "xtimes 2 a" 2] step [of "xtimes 3 a" 3]
      step [of "xtimes 4 a" 4] step [of "xtimes 5 a" 5] step [of "xtimes 6 a" 6]
      step [of "xtimes 7 a" 7] last
    by (simp add: numeral_eq_Suc xor_ac)
qed

section \<open>Bilinearity and the ring laws\<close>

lemma xtimes_xor: "xtimes i (a XOR b) = xtimes i a XOR xtimes i b"
  by (induction i arbitrary: a b) (simp_all add: xtime_xor)

lemma xtimes_xtime: "xtimes i (xtime a) = xtime (xtimes i a)"
  by (simp add: xtimes_def funpow_swap1)

lemma mul_xor_left: "mul (a XOR a') b = mul a b XOR mul a' b"
  by (simp only: mul_bits [of _ b] xtimes_xor sel_distrib xor_ac)

lemma mul_xor_right: "mul a (b XOR b') = mul a b XOR mul a b'"
  by (simp only: mul_bits [of a] bit_xor_iff sel_xor xor_ac simp_thms not_iff)

lemma mul_xtime_left: "mul (xtime a) b = xtime (mul a b)"
  by (simp only: mul_bits [of _ b] xtimes_xtime xtime_sel xtime_xor)

lemma sel_bit: "bit (sel p x) n = (p \<and> bit x n)"
  by (simp add: sel_def)

lemma byte_as_basis:
  "b = sel (bit b 0) 1 XOR sel (bit b 1) 2 XOR sel (bit b 2) 4 XOR sel (bit b 3) 8
     XOR sel (bit b 4) 16 XOR sel (bit b 5) 32 XOR sel (bit b 6) 64 XOR sel (bit b 7) 128"
  (is "_ = ?r")
proof (rule bit_word_eqI)
  fix n
  assume "n < LENGTH(8)"
  then have "n \<in> {0, 1, 2, 3, 4, 5, 6, 7}" by auto
  then show "bit b n = bit ?r n"
    by (elim insertE emptyE) (simp_all add: bit_xor_iff sel_bit)
qed

lemma byte_induct [case_names zero xor basis]:
  assumes "P 0" and "\<And>a b. P a \<Longrightarrow> P b \<Longrightarrow> P (a XOR b)"
    and "\<And>b. b \<in> {1, 2, 4, 8, 16, 32, 64, 128} \<Longrightarrow> P b"
  shows "P (b :: u8)"
proof -
  have "P (sel p c)" if "c \<in> {1, 2, 4, 8, 16, 32, 64, 128}" for p c
    using that assms(1,3) by (cases p) simp_all
  then show ?thesis
    by (subst byte_as_basis [of b]) (intro assms(2); simp)
qed

lemma xtime_basis:
  "xtime 1 = 2" "xtime 2 = 4" "xtime 4 = 8" "xtime 8 = 16" "xtime 16 = 32" "xtime 32 = 64"
  "xtime 64 = 128" "xtime 128 = 29"
  by (simp_all add: xtime_def)

lemma xtimes_numeral [simp]: "xtimes (numeral k) a = xtimes (pred_numeral k) (xtime a)"
  by (simp add: numeral_eq_Suc)

lemma xtimes_one [simp]: "xtimes 1 a = xtime a"
  by (simp add: xtimes_def)

lemma mul_one_left [simp]: "mul 1 b = b"
proof -
  have "mul 1 b = sel (bit b 0) 1 XOR sel (bit b 1) 2 XOR sel (bit b 2) 4 XOR sel (bit b 3) 8
     XOR sel (bit b 4) 16 XOR sel (bit b 5) 32 XOR sel (bit b 6) 64 XOR sel (bit b 7) 128"
    by (simp add: mul_bits [of 1] xtime_basis)
  then show ?thesis by (simp only: byte_as_basis [symmetric])
qed

lemma mul_one_right [simp]: "mul a 1 = a"
  by (simp add: mul_bits)

lemma mul_zero_left [simp]: "mul 0 b = 0"
  using mul_xor_left [of 0 0 b] by simp

lemma xtime_reduction: "xtimes 8 a = a XOR xtimes 2 a XOR xtimes 3 a XOR xtimes 4 a"
proof (induction a rule: byte_induct)
  case zero
  then show ?case by simp
next
  case (xor a b)
  then show ?case by (simp only: xtimes_xor xor_ac)
next
  case (basis b)
  then show ?case by (elim insertE emptyE) (simp_all add: xtime_def)
qed

lemma bit_xtime_iff:
  assumes "n < 8"
  shows "bit (xtime b) n = ((1 \<le> n \<and> bit b (n - 1)) = (\<not> (bit b 7 \<and> bit (29 :: u8) n)))"
proof -
  have "possible_bit TYPE(u8) n" using assms by simp
  then show ?thesis
    by (simp only: xtime_alt bit_xor_iff sel_bit bit_push_bit_iff) blast
qed

lemma bit_xtime:
  "bit (xtime b) 0 = bit b 7" "bit (xtime b) 1 = bit b 0"
  "bit (xtime b) 2 = (bit b 1 = (\<not> bit b 7))" "bit (xtime b) 3 = (bit b 2 = (\<not> bit b 7))"
  "bit (xtime b) 4 = (bit b 3 = (\<not> bit b 7))" "bit (xtime b) 5 = bit b 4"
  "bit (xtime b) 6 = bit b 5" "bit (xtime b) 7 = bit b 6"
  by (simp_all add: bit_xtime_iff)

lemma mul_xtime_right: "mul a (xtime b) = xtime (mul a b)"
proof -
  have r: "xtime (xtimes 7 a) = a XOR xtimes 2 a XOR xtimes 3 a XOR xtimes 4 a"
    using xtime_reduction [of a] by (simp add: xtimes_xtime)
  have s: "xtime a = xtimes 1 a" "xtime (xtimes 1 a) = xtimes 2 a" "xtime (xtimes 2 a) = xtimes 3 a"
    "xtime (xtimes 3 a) = xtimes 4 a" "xtime (xtimes 4 a) = xtimes 5 a"
    "xtime (xtimes 5 a) = xtimes 6 a" "xtime (xtimes 6 a) = xtimes 7 a"
    by (simp_all add: xtimes_xtime)
  show ?thesis
    by (simp only: mul_bits [of a] bit_xtime sel_xor xtime_xor xtime_sel r s sel_distrib xor_ac)
qed

lemma mul_basis_right:
  assumes "P = (\<lambda>b. \<forall>a. mul a b = f a b)"
    and "\<And>a. f a 1 = a" "\<And>a b. f a (xtime b) = xtime (f a b)"
  shows "b \<in> {1, 2, 4, 8, 16, 32, 64, 128} \<Longrightarrow> P b"
proof -
  have "P 1" using assms by simp
  have step: "P b \<Longrightarrow> P (xtime b)" for b using assms by (simp add: mul_xtime_right)
  note s = step [of 1] step [of 2] step [of 4] step [of 8] step [of 16] step [of 32] step [of 64]
  show "b \<in> {1, 2, 4, 8, 16, 32, 64, 128} \<Longrightarrow> P b"
    using \<open>P 1\<close> s by (auto simp: xtime_basis)
qed

lemma mul_commute: "mul a b = mul b a"
proof -
  have "\<forall>a. mul a b = mul b a"
  proof (induction b rule: byte_induct)
    case (xor b c)
    then show ?case by (simp add: mul_xor_left mul_xor_right)
  next
    case (basis b)
    then show ?case
      by (rule mul_basis_right [where f = "\<lambda>a b. mul b a", rotated 3])
        (simp_all add: mul_xtime_left)
  qed simp
  then show ?thesis by blast
qed

lemma mul_assoc: "mul (mul a b) c = mul a (mul b c)"
proof (induction c rule: byte_induct)
  case (xor c d)
  then show ?case by (simp add: mul_xor_right)
next
  case (basis c)
  have step: "mul (mul a b) c = mul a (mul b c) \<Longrightarrow>
      mul (mul a b) (xtime c) = mul a (mul b (xtime c))" for c
    by (simp add: mul_xtime_right)
  from step [of 1] step [of 2] step [of 4] step [of 8] step [of 16] step [of 32] step [of 64] basis
  show ?case by (auto simp: xtime_basis)
qed simp

section \<open>The commutative ring of bytes\<close>

typedef gf = "UNIV :: u8 set"
  morphisms gf_byte GF
  by simp

lemma GF_inverses [simp]: "gf_byte (GF x) = x" "GF (gf_byte y) = y"
  by (simp_all add: GF_inverse gf_byte_inverse)

lemma GF_eq [simp]: "GF x = GF y \<longleftrightarrow> x = y"
  by (metis GF_inverses(1))

lemma gf_eqI: "gf_byte x = gf_byte y \<Longrightarrow> x = y"
  by (simp add: gf_byte_inject)

instantiation gf :: comm_ring_1
begin

definition zero_gf :: gf where "zero_gf = GF 0"

definition one_gf :: gf where "one_gf = GF 1"

definition plus_gf :: "gf \<Rightarrow> gf \<Rightarrow> gf" where "plus_gf x y = GF (gf_byte x XOR gf_byte y)"

definition minus_gf :: "gf \<Rightarrow> gf \<Rightarrow> gf" where "minus_gf x y = GF (gf_byte x XOR gf_byte y)"

definition uminus_gf :: "gf \<Rightarrow> gf" where "uminus_gf x = x"

definition times_gf :: "gf \<Rightarrow> gf \<Rightarrow> gf" where "times_gf x y = GF (mul (gf_byte x) (gf_byte y))"

lemmas gf_ring_defs = zero_gf_def one_gf_def plus_gf_def minus_gf_def uminus_gf_def times_gf_def

instance
proof
  fix a b c :: gf
  show "a * b * c = a * (b * c)" by (simp add: gf_ring_defs mul_assoc)
  show "a * b = b * a" using mul_commute by (simp add: gf_ring_defs)
  show "1 * a = a" by (simp add: gf_ring_defs)
  show "a + b + c = a + (b + c)" by (simp add: gf_ring_defs xor.assoc)
  show "a + b = b + a" by (simp add: gf_ring_defs xor.commute)
  show "0 + a = a" by (simp add: gf_ring_defs)
  show "- a + a = 0" by (simp add: gf_ring_defs)
  show "a - b = a + - b" by (simp add: gf_ring_defs)
  show "(a + b) * c = a * c + b * c" by (simp add: gf_ring_defs mul_xor_left)
  show "(0 :: gf) \<noteq> 1" by (simp add: gf_ring_defs)
qed

end

named_theorems gf_hom \<open>byte operations as field operations\<close>

lemma GF_hom [gf_hom]:
  "GF (a XOR b) = GF a + GF b" "GF (mul a b) = GF a * GF b" "GF 0 = 0" "GF 1 = 1"
  by (simp_all add: gf_ring_defs)

lemma GF_zero_iff [simp]: "GF a = 0 \<longleftrightarrow> a = 0" "0 = GF a \<longleftrightarrow> a = 0"
  by (auto simp: zero_gf_def)

lemma gf_add_self [simp]: "x + x = (0 :: gf)"
  by (simp add: gf_ring_defs)

lemma gf_minus_eq [simp]: "x - y = x + (y :: gf)" "- x = (x :: gf)"
  by (simp_all add: gf_ring_defs)

lemma gf_add_eq_0_iff: "x + y = (0 :: gf) \<longleftrightarrow> x = y"
  using eq_neg_iff_add_eq_0 [of x y] by simp

lemma power_u8_Suc: "power_u8 a (Suc n) = mul (power_u8 a n) a"
  by (simp add: power_u8_def)

lemma power_u8_0 [simp]: "power_u8 a 0 = 1"
  by (simp add: power_u8_def)

lemma GF_power [gf_hom]: "GF (power_u8 a n) = GF a ^ n"
  by (induction n) (simp_all add: gf_hom power_u8_Suc ac_simps)

section \<open>Every nonzero byte is a power of two\<close>

lemma gen_products:
  "mul 2 2 = 4" "mul 4 4 = 16" "mul 16 16 = 29" "mul 29 29 = 76" "mul 76 2 = 152"
  "mul 152 152 = 78" "mul 78 152 = 10" "mul 78 78 = 153" "mul 153 152 = 214"
  "mul 214 214 = 215" "mul 215 214 = 1"
  by code_simp+

lemma gen_powers:
  "GF 2 ^ 15 \<noteq> 1" "GF 2 ^ 51 \<noteq> 1" "GF 2 ^ 85 \<noteq> 1" "GF 2 ^ 255 = 1"
proof -
  have step: "GF 2 ^ (i + j) = GF (mul a b)" if "GF 2 ^ i = GF a" "GF 2 ^ j = GF b" for i j a b
    using that by (simp add: power_add gf_hom)
  have p1: "GF 2 ^ 1 = GF 2" by simp
  have p2: "GF 2 ^ 2 = GF 4" using step [OF p1 p1] by (simp add: gen_products power2_eq_square)
  have p4: "GF 2 ^ 4 = GF 16" using step [OF p2 p2] by (simp add: gen_products)
  have p8: "GF 2 ^ 8 = GF 29" using step [OF p4 p4] by (simp add: gen_products)
  have p16: "GF 2 ^ 16 = GF 76" using step [OF p8 p8] by (simp add: gen_products)
  have p17: "GF 2 ^ 17 = GF 152" using step [OF p16 p1] by (simp add: gen_products)
  have p34: "GF 2 ^ 34 = GF 78" using step [OF p17 p17] by (simp add: gen_products)
  have p51: "GF 2 ^ 51 = GF 10" using step [OF p34 p17] by (simp add: gen_products)
  have p68: "GF 2 ^ 68 = GF 153" using step [OF p34 p34] by (simp add: gen_products)
  have p85: "GF 2 ^ 85 = GF 214" using step [OF p68 p17] by (simp add: gen_products)
  have p170: "GF 2 ^ 170 = GF 215" using step [OF p85 p85] by (simp add: gen_products)
  show "GF 2 ^ 255 = 1" using step [OF p170 p85] by (simp add: gen_products one_gf_def)
  show "GF 2 ^ 51 \<noteq> 1" "GF 2 ^ 85 \<noteq> 1" using p51 p85 by (simp_all add: one_gf_def)
  show "GF 2 ^ 15 \<noteq> 1"
  proof
    assume "GF 2 ^ 15 = 1"
    then have "GF 2 ^ (15 + 1) = GF 2" by (simp only: power_add) simp
    then show False using p16 by simp
  qed
qed

lemma factor_255:
  assumes "g dvd 255" "g < 255"
  shows "g dvd 15 \<or> g dvd 51 \<or> g dvd (85 :: nat)"
proof -
  obtain q where q: "255 = g * q" using assms(1) by (elim dvdE)
  have "\<forall>c \<in> set [0..<4]. c dvd 3 \<longrightarrow> c = 1 \<or> c = (3 :: nat)" by code_simp
  then have "c dvd 3 \<Longrightarrow> c = 1 \<or> c = 3" for c :: nat using dvd_imp_le [of c 3] by auto
  then have c3: "3 dvd q \<or> coprime q 3"
    by (metis coprime_iff_gcd_eq_1 gcd_dvd1 gcd_dvd2)
  have "\<forall>c \<in> set [0..<6]. c dvd 5 \<longrightarrow> c = 1 \<or> c = (5 :: nat)" by code_simp
  then have "c dvd 5 \<Longrightarrow> c = 1 \<or> c = 5" for c :: nat using dvd_imp_le [of c 5] by auto
  then have c5: "5 dvd q \<or> coprime q 5"
    by (metis coprime_iff_gcd_eq_1 gcd_dvd1 gcd_dvd2)
  have "\<forall>c \<in> set [0..<18]. c dvd 17 \<longrightarrow> c = 1 \<or> c = (17 :: nat)" by code_simp
  then have "c dvd 17 \<Longrightarrow> c = 1 \<or> c = 17" for c :: nat using dvd_imp_le [of c 17] by auto
  then have c17: "17 dvd q \<or> coprime q 17"
    by (metis coprime_iff_gcd_eq_1 gcd_dvd1 gcd_dvd2)
  have "\<not> coprime q (3 * (5 * 17))"
  proof
    assume "coprime q (3 * (5 * 17))"
    moreover have "q dvd 255" unfolding q by (rule dvd_triv_right)
    then have "q dvd 3 * (5 * 17)" by simp
    ultimately have "q = 1" by (metis coprime_common_divisor_nat dvd_refl nat_dvd_1_iff_1)
    then show False using q assms(2) by simp
  qed
  then have "3 dvd q \<or> 5 dvd q \<or> 17 dvd q" using c3 c5 c17 by (metis coprime_mult_right_iff)
  then show ?thesis
  proof (elim disjE)
    assume "3 dvd q"
    then obtain k where "85 = g * k" using q by (auto elim!: dvdE simp: ac_simps)
    then have "g dvd 85" by (rule dvdI)
    then show ?thesis by blast
  next
    assume "5 dvd q"
    then obtain k where "51 = g * k" using q by (auto elim!: dvdE simp: ac_simps)
    then have "g dvd 51" by (rule dvdI)
    then show ?thesis by blast
  next
    assume "17 dvd q"
    then obtain k where "15 = g * k" using q by (auto elim!: dvdE simp: ac_simps)
    then have "g dvd 15" by (rule dvdI)
    then show ?thesis by blast
  qed
qed

lemma gen_order:
  assumes "GF 2 ^ d = 1" "0 < d"
  shows "255 \<le> d"
proof (rule ccontr)
  assume "\<not> 255 \<le> d"
  then have d: "d < 255" by simp
  let ?g = "gcd d 255"
  obtain x y where "d * x = 255 * y + ?g"
    using bezout_nat [of d 255] assms(2) by auto
  then have "(GF 2 ^ d) ^ x = (GF 2 ^ 255) ^ y * GF 2 ^ ?g"
    by (simp only: power_mult [symmetric] power_add [symmetric])
  then have one: "GF 2 ^ ?g = 1" using assms(1) gen_powers(4) by simp
  have "?g \<le> d" using assms(2) by (auto intro: gcd_le1_nat)
  then have "?g dvd 15 \<or> ?g dvd 51 \<or> ?g dvd 85" using d by (intro factor_255) simp_all
  then have "GF 2 ^ 15 = 1 \<or> GF 2 ^ 51 = 1 \<or> GF 2 ^ 85 = 1"
    using one by (elim disjE dvdE) (simp_all only: power_mult power_one simp_thms)
  then show False using gen_powers by blast
qed

lemma gen_pow_inj: "inj_on (\<lambda>i. GF 2 ^ i) {..<255 :: nat}"
proof -
  have differ: "GF 2 ^ i \<noteq> GF 2 ^ j" if "i < j" "j < 255" for i j :: nat
  proof
    assume eq: "GF 2 ^ i = GF 2 ^ j"
    have "255 - i + i = 255" "255 - i + j = 255 + (j - i)" using that by simp_all
    moreover have "GF 2 ^ (255 - i + i) = GF 2 ^ (255 - i + j)" by (simp only: power_add eq)
    ultimately have "GF 2 ^ (j - i) = 1" by (simp only: power_add gen_powers mult_1)
    then show False using gen_order [of "j - i"] that by simp
  qed
  show ?thesis
  proof (rule inj_onI)
    fix i j :: nat
    assume "i \<in> {..<255}" "j \<in> {..<255}" "GF 2 ^ i = GF 2 ^ j"
    then show "i = j" using differ [of i j] differ [of j i] by (cases i j rule: linorder_cases) auto
  qed
qed

lemma gf_UNIV: "(UNIV :: gf set) = range GF"
  by (metis GF_inverses(2) surjI)

lemma gf_card: "card (UNIV :: gf set) = 256" and gf_finite: "finite (UNIV :: gf set)"
proof -
  have "inj GF" by (simp add: inj_def)
  then have "card (range GF) = card (UNIV :: u8 set)" by (rule card_image)
  then show "card (UNIV :: gf set) = 256" unfolding gf_UNIV by (simp add: card_word)
  then show "finite (UNIV :: gf set)" by (simp add: card_ge_0_finite)
qed

lemma gen_surj:
  assumes "x \<noteq> (0 :: gf)"
  shows "\<exists>i < 255. x = GF 2 ^ i"
proof -
  have nz: "GF 2 ^ i \<noteq> 0" if "i < 255" for i :: nat
  proof
    assume z: "GF 2 ^ i = 0"
    have "i + (255 - i) = 255" using that by simp
    then have "GF 2 ^ i * GF 2 ^ (255 - i) = 1" by (simp only: power_add [symmetric] gen_powers)
    then show False by (simp add: z)
  qed
  let ?S = "(\<lambda>i. GF 2 ^ i) ` {..<255 :: nat}"
  have "card ?S = 255" using card_image [OF gen_pow_inj] by simp
  moreover have "?S \<subseteq> UNIV - {0}" using nz by auto
  moreover have "card (UNIV - {0 :: gf}) = 255" using gf_card gf_finite by simp
  moreover have "finite (UNIV - {0 :: gf})" using gf_finite by simp
  ultimately have "?S = UNIV - {0}" by (intro card_subset_eq) simp_all
  then have "x \<in> ?S" using assms by blast
  then show ?thesis by blast
qed

lemma gf_fermat:
  assumes "x \<noteq> (0 :: gf)"
  shows "x ^ 254 * x = 1"
proof -
  obtain i where x: "x = GF 2 ^ i" using gen_surj [OF assms] by blast
  have "x ^ 254 * x = x ^ (254 + 1)" by (simp only: power_add power_one_right)
  also have "\<dots> = (GF 2 ^ i) ^ 255" using x by simp
  also have "\<dots> = (GF 2 ^ 255) ^ i" by (simp only: power_mult [symmetric] mult.commute)
  also have "\<dots> = 1" by (simp only: gen_powers power_one)
  finally show ?thesis .
qed

section \<open>The field of bytes\<close>

instantiation gf :: field
begin

definition inverse_gf :: "gf \<Rightarrow> gf" where "inverse_gf x = x ^ 254"

definition divide_gf :: "gf \<Rightarrow> gf \<Rightarrow> gf" where "divide_gf x y = x * inverse y"

instance
proof
  fix a b :: gf
  show "a \<noteq> 0 \<Longrightarrow> inverse a * a = 1" by (simp add: inverse_gf_def gf_fermat)
  show "a div b = a * inverse b" by (simp add: divide_gf_def)
  show "inverse (0 :: gf) = 0" by (simp add: inverse_gf_def)
qed

end

lemma mul_inverse: "a \<noteq> 0 \<Longrightarrow> mul (power_u8 a 254) a = 1"
  using gf_fermat [of "GF a"] by (simp flip: gf_hom)

lemma mul_eq_0_iff [simp]: "mul a b = 0 \<longleftrightarrow> a = 0 \<or> b = 0"
proof -
  have "GF (mul a b) = 0 \<longleftrightarrow> GF a = 0 \<or> GF b = 0" by (simp only: gf_hom mult_eq_0_iff)
  then show ?thesis by simp
qed

end
