(* ===== verification/Replica_Types.thy ===== *)
theory Replica_Types
  imports Prelude
begin

text \<open>
  The data types the replica components share: the error enums of
  \<open>replicas/mod.rs\<close>, \<open>policy.rs\<close> and \<open>state.rs\<close>, the transport profiles
  and failures of \<open>transport.rs\<close>, and the signed documents (policies of
  \<open>policy.rs\<close> and pool manifests of \<open>pool.rs\<close>).
\<close>

section \<open>Errors\<close>

datatype policy_error = P_Size | P_Schema | P_Signature | P_Time | P_Bounds | P_Origin
  | P_ChangedRequest

datatype state_error = S_Directory | S_Locked | S_Io | S_Schema | S_Identity | S_Rollback

text \<open>
  \<open>Panic\<close> is not a variant of the source: it is the outcome of an index out of range, an
  arithmetic overflow or a failed \<open>expect\<close>, which abort the task.
\<close>

datatype rerror = Policy policy_error | State state_error | Json | Changed | Internal
  | Configuration string | Enrol string | Panic

section \<open>Transport profiles and failures\<close>

datatype profile = DirectHttps | TorOnly | LoopbackDevelopment

datatype network_failure = Unreachable | Unavailable | InvalidBytes | InvalidResponse | Refused

section \<open>Replica policies\<close>

datatype retention = Owner | Friend | Guest

record target =
  t_id :: string
  t_origin :: string
  t_failure_group :: string
  t_retention :: retention

record blob =
  b_sha256 :: string
  b_size :: nat

record policy =
  policy_type :: string
  p_version :: nat
  p_id :: string
  p_revision :: nat
  p_expires_at :: nat
  p_profile :: profile
  desired_groups :: nat
  targets :: "target list"
  blobs :: "blob list"

record verified_policy =
  vp_policy :: policy
  vp_event_id :: string
  vp_owner :: string

section \<open>Pool manifests\<close>

record node =
  n_id :: string
  n_origin :: string
  n_failure_group :: string
  n_weight :: nat

record part =
  pt_index :: nat
  pt_sha256 :: string
  pt_size :: nat
  pt_targets :: "node list"

record payload =
  pl_sha256 :: string
  pl_size :: nat
  pl_encryption :: string

record manifest =
  manifest_type :: string
  m_version :: nat
  m_mode :: string
  m_profile :: string
  m_payload :: payload
  m_required :: nat
  m_total :: nat
  m_copies :: nat
  m_parts :: "part list"

end
