(* ===== verification/Coding.thy ===== *)
theory Coding
  imports Complex_Main Gf256 Replica_Types
begin

text \<open>
  The erasure code of \<open>crates/wildbloomd/src/replicas/coding.rs\<close>: Gauss-Jordan inversion
  over the byte field, the systematic generator matrix, the byte-wise combination of parts
  and the streaming regeneration of every part from any \<open>k\<close> of them.

  Matrices are lists of rows. The source indexes rows and columns without checks; every
  call there passes rectangular matrices, and the shape lemmas below show that the
  intermediate matrices stay rectangular, so no index is out of range.
\<close>

section \<open>Matrices\<close>

type_synonym matrix = "u8 list list"

definition swap_rows :: "nat \<Rightarrow> nat \<Rightarrow> matrix \<Rightarrow> matrix" where
  "swap_rows i j w = w[i := w ! j, j := w ! i]"

text \<open>\<open>row.iter_mut().zip(\<dots>)\<close> changes the common prefix and keeps the rest of the row.\<close>

definition zip_update :: "(u8 \<Rightarrow> u8 \<Rightarrow> u8) \<Rightarrow> u8 list \<Rightarrow> u8 list \<Rightarrow> u8 list" where
  "zip_update f row other = map2 f row other @ drop (length other) row"

definition augment :: "matrix \<Rightarrow> matrix" where
  "augment m =
     map (\<lambda>(r, row). row @ map (\<lambda>c. if r = c then 1 else 0) [0..<length m]) (enumerate 0 m)"

definition pivot_step :: "nat \<Rightarrow> nat \<Rightarrow> matrix \<Rightarrow> rerror + matrix" where
  "pivot_step n col work =
     (case List.find (\<lambda>r. work ! r ! col \<noteq> 0) [col..<n] of
        None \<Rightarrow> Inl Internal
      | Some pivot \<Rightarrow>
          (let swapped = swap_rows col pivot work;
               scale = power_u8 (swapped ! col ! col) 254;
               pivot_row = map (\<lambda>v. mul v scale) (swapped ! col);
               scaled = swapped[col := pivot_row]
           in Inr (map (\<lambda>(r, row). if r = col then row
                    else zip_update (\<lambda>value pivot_value. value XOR mul (row ! col) pivot_value)
                           row pivot_row)
                 (enumerate 0 scaled))))"

fun pivot_steps :: "nat \<Rightarrow> nat list \<Rightarrow> matrix \<Rightarrow> rerror + matrix" where
  "pivot_steps n [] work = Inr work"
| "pivot_steps n (col # cols) work = try_then (pivot_step n col work) (pivot_steps n cols)"

definition invert :: "matrix \<Rightarrow> rerror + matrix" where
  "invert m =
     (let n = length m
      in try_then (pivot_steps n [0..<n] (augment m)) (\<lambda>work. Inr (map (drop n) work)))"

definition product :: "matrix \<Rightarrow> matrix \<Rightarrow> matrix" where
  "product a b =
     map (\<lambda>row. map (\<lambda>c. foldl (\<lambda>s (i, v). s XOR mul v (b ! i ! c)) 0 (enumerate 0 row))
                  [0..<length (b ! 0)]) a"

definition vandermonde :: "nat \<Rightarrow> nat \<Rightarrow> matrix" where
  "vandermonde k n = map (\<lambda>r. map (\<lambda>c. power_u8 (of_nat r) c) [0..<k]) [0..<n]"

definition generator :: "nat \<Rightarrow> nat \<Rightarrow> rerror + matrix" where
  "generator k n =
     (if k < 2 \<or> k \<ge> n \<or> n > 16 then Inl Internal
      else (let v = vandermonde k n
            in try_then (invert (take k v)) (\<lambda>w. Inr (product v w))))"

definition mul_table :: "u8 \<Rightarrow> u8 list" where
  "mul_table coefficient = map (\<lambda>b. mul coefficient (of_nat b)) [0..<256]"

fun combine_loop :: "(u8 \<times> bytes) list \<Rightarrow> bytes \<Rightarrow> bytes" where
  "combine_loop [] out = out"
| "combine_loop ((coefficient, input) # rest) out =
     (if coefficient = 0 then combine_loop rest out
      else combine_loop rest
             (zip_update (\<lambda>dst src. dst XOR mul_table coefficient ! unat src) out input))"

definition combine :: "u8 list \<Rightarrow> bytes list \<Rightarrow> nat \<Rightarrow> bytes" where
  "combine row inputs count = combine_loop (zip row inputs) (replicate count 0)"

section \<open>Shapes and entries\<close>

definition shape :: "nat \<Rightarrow> nat \<Rightarrow> matrix \<Rightarrow> bool" where
  "shape r c m \<longleftrightarrow> length m = r \<and> (\<forall>row \<in> set m. length row = c)"

definition ent :: "matrix \<Rightarrow> nat \<Rightarrow> nat \<Rightarrow> gf" where
  "ent m i j = GF (m ! i ! j)"

lemma shapeI: "length m = r \<Longrightarrow> (\<And>i. i < r \<Longrightarrow> length (m ! i) = c) \<Longrightarrow> shape r c m"
  by (auto simp: shape_def in_set_conv_nth)

lemma shape_length: "shape r c m \<Longrightarrow> length m = r"
  by (simp add: shape_def)

lemma shape_row: "shape r c m \<Longrightarrow> i < r \<Longrightarrow> length (m ! i) = c"
  by (auto simp: shape_def)

lemma matrix_eqI:
  assumes "shape r c a" "shape r c b" "\<And>i j. i < r \<Longrightarrow> j < c \<Longrightarrow> ent a i j = ent b i j"
  shows "a = b"
proof (rule nth_equalityI)
  show "length a = length b" using assms(1,2) by (simp add: shape_def)
next
  fix i
  assume "i < length a"
  then have i: "i < r" using assms(1) by (simp add: shape_def)
  note rows = shape_row [OF assms(1) i] shape_row [OF assms(2) i]
  show "a ! i = b ! i"
    by (rule nth_equalityI) (use i rows assms(3) in \<open>auto simp: ent_def\<close>)
qed

lemma nth_enumerate0 [simp]: "i < length xs \<Longrightarrow> enumerate 0 xs ! i = (i, xs ! i)"
  by (simp add: nth_enumerate_eq)

lemma augment_shape: "shape n n m \<Longrightarrow> shape n (2 * n) (augment m)"
  by (rule shapeI) (auto simp: augment_def shape_length shape_row)

lemma augment_ent:
  assumes "shape n n m" "i < n" "j < n"
  shows "ent (augment m) i j = ent m i j" "ent (augment m) i (n + j) = (if i = j then 1 else 0)"
  using assms(2,3) shape_length [OF assms(1)] shape_row [OF assms(1)]
  by (auto simp: ent_def augment_def nth_append gf_hom)

lemma zip_update_nth:
  "length row = c \<Longrightarrow> length other = c \<Longrightarrow> j < c \<Longrightarrow> zip_update f row other ! j = f (row ! j) (other ! j)"
  by (simp add: zip_update_def)

lemma zip_update_length [simp]: "length (zip_update f row other) = length row"
  by (simp add: zip_update_def)

lemma swap_rows_nth:
  "i < length w \<Longrightarrow> j < length w \<Longrightarrow> r < length w \<Longrightarrow>
     swap_rows i j w ! r = w ! (if r = j then i else if r = i then j else r)"
  by (auto simp: swap_rows_def nth_list_update)

text \<open>One elimination step, entry by entry, in the field.\<close>

lemma pivot_step_ent:
  assumes w: "shape n m w" "col < n" "col < m" and step: "pivot_step n col w = Inr w'"
  obtains p where "col \<le> p" "p < n" "ent w p col \<noteq> 0" "shape n m w'"
    "\<And>j. j < m \<Longrightarrow> ent w' col j = ent w p j * inverse (ent w p col)"
    "\<And>i j. i < n \<Longrightarrow> i \<noteq> col \<Longrightarrow> j < m \<Longrightarrow>
       ent w' i j = ent w (if i = p then col else i) j
         + ent w (if i = p then col else i) col * ent w' col j"
proof -
  from step obtain p where p: "List.find (\<lambda>r. w ! r ! col \<noteq> 0) [col..<n] = Some p"
    by (auto simp: pivot_step_def split: option.splits)
  then have cp: "col \<le> p" "p < n" "w ! p ! col \<noteq> 0"
    by (auto simp: find_Some_iff)
  define s where "s = swap_rows col p w"
  define prow where "prow = map (\<lambda>v. mul v (power_u8 (w ! p ! col) 254)) (w ! p)"
  have s_nth: "s ! i = w ! (if i = p then col else if i = col then p else i)" if "i < n" for i
    using that w(2) cp shape_length [OF w(1)] by (simp add: s_def swap_rows_nth)
  have len_s: "length s = n" using shape_length [OF w(1)] by (simp add: s_def swap_rows_def)
  have s_col: "s ! col = w ! p" using s_nth [of col] w(2) by simp
  have w': "w' = map (\<lambda>(r, row). if r = col then row
                    else zip_update (\<lambda>v q. v XOR mul (row ! col) q) row prow)
                 (enumerate 0 (s[col := prow]))"
    using step [unfolded pivot_step_def p option.case Let_def, folded s_def, unfolded s_col,
      folded prow_def]
    by simp
  have row_col: "w' ! col = prow" using w(2) len_s by (simp add: w')
  have row_i: "w' ! i = zip_update (\<lambda>v q. v XOR mul (w ! (if i = p then col else i) ! col) q)
                          (w ! (if i = p then col else i)) prow"
    if "i < n" "i \<noteq> col" for i
    using that len_s s_nth [of i] by (simp add: w')
  have len_p: "length prow = m" using shape_row [OF w(1)] cp by (simp add: prow_def)
  have len_i: "length (w ! (if i = p then col else i)) = m" if "i < n" for i
    using that shape_row [OF w(1)] w(2) by simp
  have e_col: "ent w' col j = ent w p j * inverse (ent w p col)" if "j < m" for j
    using that shape_row [OF w(1) cp(2)] row_col
    by (simp add: ent_def prow_def gf_hom inverse_gf_def)
  show thesis
  proof (rule that)
    show "col \<le> p" "p < n" "ent w p col \<noteq> 0" using cp by (simp_all add: ent_def)
    show "shape n m w'"
    proof (rule shapeI)
      show "length w' = n" using len_s by (simp add: w')
    next
      fix i
      assume "i < n"
      then show "length (w' ! i) = m"
        using row_col row_i len_p len_i by (cases "i = col") simp_all
    qed
    show "ent w' col j = ent w p j * inverse (ent w p col)" if "j < m" for j
      using that by (rule e_col)
    show "ent w' i j = ent w (if i = p then col else i) j
         + ent w (if i = p then col else i) col * ent w' col j"
      if "i < n" "i \<noteq> col" "j < m" for i j
      using that row_i [OF that(1,2)] zip_update_nth [OF len_i [OF that(1)] len_p that(3)]
      by (simp only: ent_def row_col gf_hom)
  qed
qed

section \<open>Gauss-Jordan inversion\<close>

text \<open>
  The invariant of the elimination of \<open>a\<close>: the left half of the work matrix is the right
  half times \<open>a\<close>, the right half has a trivial kernel, and the first \<open>col\<close> columns are
  unit vectors.
\<close>

definition trivial_kernel :: "nat \<Rightarrow> (nat \<Rightarrow> nat \<Rightarrow> gf) \<Rightarrow> bool" where
  "trivial_kernel n a \<longleftrightarrow>
     (\<forall>x. (\<forall>i < n. (\<Sum>k<n. a i k * x k) = 0) \<longrightarrow> (\<forall>k < n. x k = 0))"

definition reduces :: "nat \<Rightarrow> matrix \<Rightarrow> nat \<Rightarrow> matrix \<Rightarrow> bool" where
  "reduces n a col w \<longleftrightarrow>
     shape n (2 * n) w
     \<and> (\<forall>i < n. \<forall>j < n. ent w i j = (\<Sum>k<n. ent w i (n + k) * ent a k j))
     \<and> trivial_kernel n (\<lambda>i k. ent w i (n + k))
     \<and> (\<forall>i < n. \<forall>j < col. ent w i j = (if i = j then 1 else 0))"

lemma sum_indicator:
  fixes f :: "nat \<Rightarrow> 'a :: comm_semiring_1"
  assumes "i < n"
  shows "(\<Sum>k<n. (if i = k then 1 else 0) * f k) = f i"
proof -
  have "(\<Sum>k<n. (if i = k then 1 else 0) * f k) = (\<Sum>k<n. if i = k then f k else 0)"
    by (rule sum.cong) auto
  then show ?thesis using assms by simp
qed

lemma reduces_augment:
  assumes "shape n n a"
  shows "reduces n a 0 (augment a)"
  unfolding reduces_def trivial_kernel_def
  using augment_shape [OF assms] augment_ent [OF assms] by (simp add: sum_indicator)

lemma pivot_step_kernel:
  assumes w: "shape n (2 * n) w" "col < n" and step: "pivot_step n col w = Inr w'"
    and ker: "trivial_kernel n (\<lambda>i k. ent w i (n + k))"
  shows "trivial_kernel n (\<lambda>i k. ent w' i (n + k))"
proof -
  obtain p where p: "col \<le> p" "p < n" "ent w p col \<noteq> 0"
    and col: "\<And>j. j < 2 * n \<Longrightarrow> ent w' col j = ent w p j * inverse (ent w p col)"
    and row: "\<And>i j. i < n \<Longrightarrow> i \<noteq> col \<Longrightarrow> j < 2 * n \<Longrightarrow>
       ent w' i j = ent w (if i = p then col else i) j
         + ent w (if i = p then col else i) col * ent w' col j"
    using pivot_step_ent [OF w(1,2) _ step] w(2) by (metis mult_2 trans_less_add1)
  show ?thesis
    unfolding trivial_kernel_def
  proof (rule allI, rule impI)
    fix x
    assume z: "\<forall>i<n. (\<Sum>k<n. ent w' i (n + k) * x k) = 0"
    let ?d = "\<lambda>m i. \<Sum>k<n. ent m i (n + k) * x k"
    have "?d w' col = ?d w p * inverse (ent w p col)"
      by (simp add: col sum_distrib_right sum_distrib_left ac_simps)
    then have pz: "?d w p = 0" using z p w(2) by (metis mult_eq_0_iff nonzero_imp_inverse_nonzero)
    have other: "?d w (if i = p then col else i) = 0" if "i < n" "i \<noteq> col" for i
    proof -
      let ?i = "if i = p then col else i"
      have "?d w' i = ?d w ?i + ent w ?i col * ?d w' col"
        using row [OF that] by (simp add: distrib_right sum.distrib sum_distrib_left mult.assoc)
      then show ?thesis using z that w(2) by simp
    qed
    have "?d w i = 0" if "i < n" for i
    proof (cases "i = p")
      case True
      then show ?thesis using pz by simp
    next
      case False
      show ?thesis
      proof (cases "i = col")
        case True
        then show ?thesis using other [of p] p False by simp
      next
        case False
        then show ?thesis using other [OF that False] \<open>i \<noteq> p\<close> by simp
      qed
    qed
    then show "\<forall>k<n. x k = 0" using ker unfolding trivial_kernel_def by blast
  qed
qed

lemma pivot_step_reduces:
  assumes red: "reduces n a col w" and c: "col < n" and step: "pivot_step n col w = Inr w'"
  shows "reduces n a (Suc col) w'"
proof -
  from red have w: "shape n (2 * n) w"
    and lr: "\<And>i j. i < n \<Longrightarrow> j < n \<Longrightarrow> ent w i j = (\<Sum>k<n. ent w i (n + k) * ent a k j)"
    and ker: "trivial_kernel n (\<lambda>i k. ent w i (n + k))"
    and unit: "\<And>i j. i < n \<Longrightarrow> j < col \<Longrightarrow> ent w i j = (if i = j then 1 else 0)"
    by (auto simp: reduces_def)
  obtain p where p: "col \<le> p" "p < n" "ent w p col \<noteq> 0" and w': "shape n (2 * n) w'"
    and col: "\<And>j. j < 2 * n \<Longrightarrow> ent w' col j = ent w p j * inverse (ent w p col)"
    and row: "\<And>i j. i < n \<Longrightarrow> i \<noteq> col \<Longrightarrow> j < 2 * n \<Longrightarrow>
       ent w' i j = ent w (if i = p then col else i) j
         + ent w (if i = p then col else i) col * ent w' col j"
    using pivot_step_ent [OF w c _ step] c by (metis mult_2 trans_less_add1)
  have lr_col: "ent w' col j = (\<Sum>k<n. ent w' col (n + k) * ent a k j)" if "j < n" for j
  proof -
    have "ent w' col j = ent w p j * inverse (ent w p col)" using col that by simp
    also have "\<dots> = (\<Sum>k<n. ent w p (n + k) * ent a k j) * inverse (ent w p col)"
      using lr p that by simp
    finally show ?thesis by (simp add: col sum_distrib_right sum_distrib_left ac_simps)
  qed
  have lr': "ent w' i j = (\<Sum>k<n. ent w' i (n + k) * ent a k j)" if "i < n" "j < n" for i j
  proof (cases "i = col")
    case True
    then show ?thesis using lr_col that by simp
  next
    case False
    let ?i = "if i = p then col else i"
    have "ent w' i j = (\<Sum>k<n. ent w ?i (n + k) * ent a k j)
        + ent w ?i col * (\<Sum>k<n. ent w' col (n + k) * ent a k j)"
      using row [OF that(1) False, of j] lr [of ?i j] lr_col [of j] that c by simp
    then show ?thesis
      using row [OF that(1) False] by (simp add: distrib_right sum.distrib sum_distrib_left mult.assoc)
  qed
  have col_one: "ent w' col col = 1" using col [of col] p c by simp
  have col_unit: "ent w' col j = 0" if "j < col" for j
    using col [of j] unit [of p j] p that c by simp
  have unit': "ent w' i j = (if i = j then 1 else 0)" if "i < n" "j < Suc col" for i j
  proof (cases "i = col")
    case True
    then show ?thesis using that col_one col_unit by (cases "j = col") auto
  next
    case False
    let ?i = "if i = p then col else i"
    have e: "ent w' i j = ent w ?i j + ent w ?i col * ent w' col j"
      using row [OF that(1) False, of j] that c by simp
    show ?thesis
    proof (cases "j = col")
      case True
      then show ?thesis using e col_one False by simp
    next
      case j: False
      then have "ent w' i j = ent w ?i j" using e col_unit that by simp
      also have "\<dots> = (if ?i = j then 1 else 0)" using unit [of ?i j] that j c by simp
      finally show ?thesis using that j p by auto
    qed
  qed
  show ?thesis
    using w' lr' unit' pivot_step_kernel [OF w c step ker] by (simp add: reduces_def)
qed

lemma pivot_steps_reduces:
  assumes "reduces n a col w" "col \<le> n" "pivot_steps n [col..<n] w = Inr w'"
  shows "reduces n a n w'"
  using assms
proof (induction "n - col" arbitrary: col w)
  case 0
  then show ?case by simp
next
  case (Suc d)
  then have c: "col < n" by simp
  then have "[col..<n] = col # [Suc col..<n]" by (simp add: upt_conv_Cons)
  then obtain w1 where w1: "pivot_step n col w = Inr w1" "pivot_steps n [Suc col..<n] w1 = Inr w'"
    using Suc.prems(3) by (auto simp: try_then_Inr)
  have "reduces n a (Suc col) w1" by (rule pivot_step_reduces [OF Suc.prems(1) c w1(1)])
  then show ?case using Suc.hyps(1) [of "Suc col" w1] Suc.hyps(2) c w1(2) by simp
qed

lemma trivial_kernelD:
  assumes "trivial_kernel n f" "\<And>i. i < n \<Longrightarrow> (\<Sum>k<n. f i k * x k) = 0" "k < n"
  shows "x k = 0"
  using assms unfolding trivial_kernel_def by simp

text \<open>A pivot is found as long as the matrix has a trivial kernel.\<close>

lemma pivot_step_succeeds:
  assumes red: "reduces n a col w" and c: "col < n" and a: "trivial_kernel n (ent a)"
  shows "\<exists>w'. pivot_step n col w = Inr w'"
proof (rule ccontr)
  assume fails: "\<nexists>w'. pivot_step n col w = Inr w'"
  from red have lr: "\<And>i j. i < n \<Longrightarrow> j < n \<Longrightarrow> ent w i j = (\<Sum>k<n. ent w i (n + k) * ent a k j)"
    and ker: "trivial_kernel n (\<lambda>i k. ent w i (n + k))"
    and unit: "\<And>i j. i < n \<Longrightarrow> j < col \<Longrightarrow> ent w i j = (if i = j then 1 else 0)"
    by (auto simp: reduces_def)
  have "List.find (\<lambda>r. w ! r ! col \<noteq> 0) [col..<n] = None"
    using fails by (auto simp: pivot_step_def Let_def split: option.splits)
  then have low: "ent w i col = 0" if "col \<le> i" "i < n" for i
    using that by (auto simp: find_None_iff ent_def)
  define x where "x = (\<lambda>j. if j < col then ent w j col else if j = col then 1 else 0)"
  have split: "{..<n} = {..<col} \<union> {col} \<union> {Suc col..<n}" using c by auto
  have disj: "{..<col} \<inter> {Suc col..<n} = {}" by auto
  have wx: "(\<Sum>j<n. ent w i j * x j) = 0" if i: "i < n" for i
  proof -
    have "(\<Sum>j<n. ent w i j * x j) = (\<Sum>j<col. ent w i j * x j) + ent w i col * x col
        + (\<Sum>j=Suc col..<n. ent w i j * x j)"
      unfolding split by (simp add: sum.union_disjoint disj)
    also have "(\<Sum>j=Suc col..<n. ent w i j * x j) = 0" by (rule sum.neutral) (simp add: x_def)
    also have "(\<Sum>j<col. ent w i j * x j) = (\<Sum>j<col. (if i = j then 1 else 0) * ent w j col)"
      by (rule sum.cong) (use unit i in \<open>simp_all add: x_def\<close>)
    also have "\<dots> = (if i < col then ent w i col else 0)"
    proof (cases "i < col")
      case False
      then show ?thesis by (auto intro: sum.neutral)
    qed (simp add: sum_indicator)
    finally show ?thesis using low [of i] i by (simp add: x_def)
  qed
  have "(\<Sum>k<n. ent w i (n + k) * (\<Sum>j<n. ent a k j * x j)) = 0" if i: "i < n" for i
  proof -
    have "(\<Sum>k<n. ent w i (n + k) * (\<Sum>j<n. ent a k j * x j))
        = (\<Sum>k<n. \<Sum>j<n. ent w i (n + k) * ent a k j * x j)"
      by (simp add: sum_distrib_left mult.assoc)
    also have "\<dots> = (\<Sum>j<n. \<Sum>k<n. ent w i (n + k) * ent a k j * x j)" by (rule sum.swap)
    also have "\<dots> = (\<Sum>j<n. ent w i j * x j)"
      by (rule sum.cong) (use lr i in \<open>simp_all add: sum_distrib_right\<close>)
    finally show ?thesis using wx i by simp
  qed
  then have "(\<Sum>j<n. ent a k j * x j) = 0" if "k < n" for k
    using that by (rule trivial_kernelD [OF ker])
  then have "x col = 0" using c by (rule trivial_kernelD [OF a])
  then show False by (simp add: x_def)
qed

lemma pivot_steps_succeed:
  assumes "reduces n a col w" "col \<le> n" "trivial_kernel n (ent a)"
  shows "\<exists>w'. pivot_steps n [col..<n] w = Inr w'"
  using assms
proof (induction "n - col" arbitrary: col w)
  case 0
  then show ?case by simp
next
  case (Suc d)
  then have c: "col < n" and d: "d = n - Suc col" by simp_all
  then obtain w1 where w1: "pivot_step n col w = Inr w1"
    using pivot_step_succeeds Suc.prems by blast
  have "reduces n a (Suc col) w1" by (rule pivot_step_reduces [OF Suc.prems(1) c w1])
  then obtain w' where "pivot_steps n [Suc col..<n] w1 = Inr w'"
    using Suc.hyps(1) [of "Suc col" w1] d Suc.prems(3) c by auto
  then show ?case using c w1 by (auto simp: upt_conv_Cons)
qed

lemma invert_spec:
  assumes a: "shape n n a" and inv: "invert a = Inr b"
  shows "shape n n b" "trivial_kernel n (ent b)"
    "\<And>i j. i < n \<Longrightarrow> j < n \<Longrightarrow> (\<Sum>k<n. ent b i k * ent a k j) = (if i = j then 1 else 0)"
proof -
  from inv obtain w where w: "pivot_steps n [0..<n] (augment a) = Inr w" "b = map (drop n) w"
    by (auto simp: invert_def Let_def try_then_Inr shape_length [OF a])
  have red: "reduces n a n w"
    using pivot_steps_reduces [OF reduces_augment [OF a] _ w(1)] by simp
  then have sh: "shape n (2 * n) w" by (simp add: reduces_def)
  then show "shape n n b" by (auto simp: w(2) shape_def)
  have ent_b: "ent b i k = ent w i (n + k)" if "i < n" "k < n" for i k
    using that shape_length [OF sh] shape_row [OF sh] by (simp add: w(2) ent_def)
  have "trivial_kernel n (\<lambda>i k. ent w i (n + k))" using red by (simp add: reduces_def)
  then show "trivial_kernel n (ent b)"
    by (simp add: trivial_kernel_def ent_b cong: sum.cong_simp)
  show "(\<Sum>k<n. ent b i k * ent a k j) = (if i = j then 1 else 0)" if ij: "i < n" "j < n" for i j
  proof -
    have "(\<Sum>k<n. ent b i k * ent a k j) = (\<Sum>k<n. ent w i (n + k) * ent a k j)"
      by (rule sum.cong) (use ij ent_b in simp_all)
    also have "\<dots> = ent w i j" using red ij unfolding reduces_def by metis
    finally show ?thesis using red ij unfolding reduces_def by metis
  qed
qed

lemma invert_succeeds:
  assumes "shape n n a" "trivial_kernel n (ent a)"
  shows "\<exists>b. invert a = Inr b"
  using pivot_steps_succeed [OF reduces_augment [OF assms(1)] _ assms(2)]
  by (auto simp: invert_def Let_def shape_length [OF assms(1)])

lemma invert_error: "invert a = Inl e \<Longrightarrow> e = Internal"
proof -
  have "pivot_steps n cols w = Inl e \<Longrightarrow> e = Internal" for n cols w
    by (induction n cols w rule: pivot_steps.induct)
      (auto simp: try_then_Inl pivot_step_def Let_def split: option.splits)
  then show "invert a = Inl e \<Longrightarrow> e = Internal" by (auto simp: invert_def Let_def try_then_Inl)
qed

lemma invert_kernel:
  assumes a: "shape n n a" and inv: "invert a = Inr b"
  shows "trivial_kernel n (ent a)"
  unfolding trivial_kernel_def
proof (intro allI impI)
  fix x k
  assume z: "\<forall>i<n. (\<Sum>k<n. ent a i k * x k) = 0" and k: "k < n"
  have "(\<Sum>i<n. ent b k i * (\<Sum>j<n. ent a i j * x j)) = (\<Sum>j<n. (\<Sum>i<n. ent b k i * ent a i j) * x j)"
    by (simp add: sum_distrib_left sum_distrib_right mult.assoc) (rule sum.swap)
  also have "\<dots> = (\<Sum>j<n. (if k = j then 1 else 0) * x j)"
    by (rule sum.cong) (use invert_spec(3) [OF a inv k] in simp_all)
  finally show "x k = 0" using z k by (simp add: sum_indicator)
qed

text \<open>A left inverse of a square matrix is also a right inverse.\<close>

lemma invert_right:
  assumes a: "shape n n a" and inv: "invert a = Inr b" and ij: "i < n" "j < n"
  shows "(\<Sum>k<n. ent a i k * ent b k j) = (if i = j then 1 else 0)"
proof -
  let ?y = "\<lambda>i. (\<Sum>k<n. ent a i k * ent b k j)"
  let ?e = "\<lambda>i. if i = j then 1 else 0 :: gf"
  have "(\<Sum>l<n. ent b r l * (?y l + ?e l)) = 0" if r: "r < n" for r
  proof -
    have "(\<Sum>l<n. ent b r l * ?y l) = (\<Sum>k<n. (\<Sum>l<n. ent b r l * ent a l k) * ent b k j)"
      by (simp add: sum_distrib_left sum_distrib_right mult.assoc) (rule sum.swap)
    also have "\<dots> = (\<Sum>k<n. (if r = k then 1 else 0) * ent b k j)"
      by (rule sum.cong) (use invert_spec(3) [OF a inv r] in simp_all)
    also have "\<dots> = ent b r j" using r by (rule sum_indicator)
    finally have y: "(\<Sum>l<n. ent b r l * ?y l) = ent b r j" .
    have "(\<Sum>l<n. ent b r l * ?e l) = (\<Sum>l<n. (if j = l then 1 else 0) * ent b r l)"
      by (rule sum.cong) auto
    also have "\<dots> = ent b r j" using ij(2) by (rule sum_indicator)
    finally show ?thesis using y by (simp add: distrib_left sum.distrib)
  qed
  then have "?y i + ?e i = 0"
    using ij(1) by (rule trivial_kernelD [OF invert_spec(2) [OF a inv]])
  then show ?thesis by (simp add: gf_add_eq_0_iff)
qed

section \<open>Products\<close>

lemma GF_fold_product:
  "GF (foldl (\<lambda>s (i, v). s XOR mul v (f i)) s0 (enumerate m row))
     = GF s0 + (\<Sum>i<length row. GF (row ! i) * GF (f (m + i)))"
proof (induction row arbitrary: s0 m)
  case (Cons v row)
  have "(\<Sum>i<Suc (length row). GF ((v # row) ! i) * GF (f (m + i)))
      = GF v * GF (f m) + (\<Sum>i<length row. GF (row ! i) * GF (f (Suc m + i)))"
    by (subst sum.lessThan_Suc_shift) simp
  then show ?case using Cons.IH [of "s0 XOR mul v (f m)" "Suc m"] by (simp add: gf_hom ac_simps)
qed simp

lemma product_shape: "shape r c a \<Longrightarrow> shape c d b \<Longrightarrow> 0 < c \<Longrightarrow> shape r d (product a b)"
  by (auto simp: shape_def product_def)

lemma product_ent:
  assumes "shape r c a" "shape c d b" "i < r" "j < d" "0 < c"
  shows "ent (product a b) i j = (\<Sum>k<c. ent a i k * ent b k j)"
  using assms GF_fold_product [of "\<lambda>i. b ! i ! j" 0 0 "a ! i"]
  by (simp add: ent_def product_def shape_length [OF assms(1)] shape_row [OF assms(1)]
      shape_row [OF assms(2)] GF_hom)

section \<open>The generator matrix\<close>

lemma polynomial_roots:
  fixes c :: "nat \<Rightarrow> 'a :: idom"
  assumes "finite S" "k \<le> card S" "\<And>a. a \<in> S \<Longrightarrow> (\<Sum>j<k. c j * a ^ j) = 0" "j < k"
  shows "c j = 0"
  using assms
proof (induction k arbitrary: S c j)
  case (Suc k)
  then obtain y where y: "y \<in> S" by fastforce
  define b where "b j = (\<Sum>i=Suc j..k. c i * y ^ (i - Suc j))" for j
  have "(\<Sum>j<k. b j * x ^ j) = 0" if x: "x \<in> S - {y}" for x
  proof -
    have "(x - y) * (\<Sum>j<k. b j * x ^ j) = (\<Sum>i\<le>k. c i * x ^ i) - (\<Sum>i\<le>k. c i * y ^ i)"
      by (cases "k = 0") (simp_all add: polyfun_diff b_def)
    also have "\<dots> = 0" using Suc.prems(3) x y by (simp add: lessThan_Suc_atMost)
    finally show ?thesis using x by simp
  qed
  then have b0: "b j = 0" if "j < k" for j
    using Suc.IH [of "S - {y}" b j] Suc.prems(1,2) y that by simp
  have step: "b j = c (Suc j) + y * b (Suc j)" if "j < k" for j
  proof -
    have "b j = c (Suc j) + (\<Sum>i=Suc (Suc j)..k. c i * y ^ (i - Suc j))"
      using that by (simp add: b_def sum.atLeast_Suc_atMost)
    also have "(\<Sum>i=Suc (Suc j)..k. c i * y ^ (i - Suc j)) = y * b (Suc j)"
      unfolding b_def sum_distrib_left
      by (rule sum.cong) (auto simp: Suc_diff_le power_Suc [symmetric] simp del: power_Suc
          simp: Suc_diff_Suc ac_simps)
    finally show ?thesis .
  qed
  have bk: "b k = 0" by (simp add: b_def)
  have c0: "c (Suc j) = 0" if "j < k" for j
    using step [OF that] b0 [OF that] b0 [of "Suc j"] bk that
    by (cases "Suc j = k") auto
  moreover have "c 0 = 0"
    using Suc.prems(3) [OF y] c0 by (simp add: sum.lessThan_Suc_shift del: sum.lessThan_Suc)
  ultimately show ?case using Suc.prems(4) by (cases j) auto
qed simp

lemma vandermonde_shape: "shape n k (vandermonde k n)"
  by (auto simp: shape_def vandermonde_def)

lemma vandermonde_ent:
  "i < n \<Longrightarrow> j < k \<Longrightarrow> ent (vandermonde k n) i j = GF (of_nat i) ^ j"
  by (simp add: ent_def vandermonde_def gf_hom)

lemma point_inj: "i < 256 \<Longrightarrow> j < 256 \<Longrightarrow> GF (of_nat i) = GF (of_nat j) \<longleftrightarrow> i = j"
  by (simp add: of_nat_eq_iff word_of_nat_eq_iff take_bit_nat_eq_self)

lemma vandermonde_rows_kernel:
  assumes "distinct is" "set is \<subseteq> {..<256}"
  shows "trivial_kernel (length is) (\<lambda>r c. GF (of_nat (is ! r)) ^ c)"
  unfolding trivial_kernel_def
proof (intro allI impI)
  fix x j
  assume z: "\<forall>i<length is. (\<Sum>k<length is. GF (of_nat (is ! i)) ^ k * x k) = 0" and j: "j < length is"
  let ?S = "(\<lambda>i. GF (of_nat i)) ` set is"
  have "card ?S = length is"
    using assms point_inj by (subst card_image) (auto simp: inj_on_def distinct_card subset_iff)
  moreover have "(\<Sum>j<length is. x j * a ^ j) = 0" if "a \<in> ?S" for a
    using that z by (auto simp: in_set_conv_nth ac_simps)
  ultimately show "x j = 0" using j by (intro polynomial_roots [of ?S "length is" x j]) auto
qed

definition select_rows :: "matrix \<Rightarrow> nat list \<Rightarrow> matrix" where
  "select_rows m is = map ((!) m) is"

lemma generator_unfold:
  assumes g: "generator k n = Inr m"
  obtains w where "2 \<le> k" "k < n" "n \<le> 16" "invert (take k (vandermonde k n)) = Inr w"
    "m = product (vandermonde k n) w" "shape k k w" "trivial_kernel k (ent w)"
proof -
  from g obtain w where w: "2 \<le> k" "k < n" "n \<le> 16"
    "invert (take k (vandermonde k n)) = Inr w" "m = product (vandermonde k n) w"
    by (auto simp: generator_def Let_def try_then_Inr split: if_splits)
  have "shape k k (take k (vandermonde k n))"
    using w(2) vandermonde_shape [of n k] by (auto simp: shape_def dest: in_set_takeD)
  then show thesis using w invert_spec [OF _ w(4)] that by blast
qed

lemma generator_shape: "generator k n = Inr m \<Longrightarrow> shape n k m"
  by (elim generator_unfold) (use product_shape vandermonde_shape in force)

lemma generator_ent:
  assumes "generator k n = Inr m" "i < n" "j < k"
    "invert (take k (vandermonde k n)) = Inr w" "shape k k w"
  shows "ent m i j = (\<Sum>l<k. GF (of_nat i) ^ l * ent w l j)"
  using assms product_ent [OF vandermonde_shape [of n k] assms(5) assms(2,3)]
  by (elim generator_unfold) (simp add: vandermonde_ent)

theorem generator_total: "2 \<le> k \<Longrightarrow> k < n \<Longrightarrow> n \<le> 16 \<Longrightarrow> \<exists>m. generator k n = Inr m"
proof -
  assume a: "2 \<le> k" "k < n" "n \<le> 16"
  let ?v = "take k (vandermonde k n)"
  have sh: "shape k k ?v"
    using a(2) vandermonde_shape [of n k] by (auto simp: shape_def dest: in_set_takeD)
  have "trivial_kernel k (\<lambda>r c. GF (of_nat ([0..<k] ! r)) ^ c)"
    using vandermonde_rows_kernel [of "[0..<k]"] a by (simp add: subset_iff)
  then have "trivial_kernel k (ent ?v)"
    using a by (simp add: trivial_kernel_def ent_def vandermonde_def gf_hom cong: sum.cong_simp)
  then show ?thesis using invert_succeeds [OF sh] a by (auto simp: generator_def)
qed

text \<open>The code is systematic: the first \<open>k\<close> rows are the identity.\<close>

lemma generator_systematic:
  assumes g: "generator k n = Inr m" and ij: "i < k" "j < k"
  shows "ent m i j = (if i = j then 1 else 0)"
proof -
  from g obtain w where w: "k < n" "invert (take k (vandermonde k n)) = Inr w" "shape k k w"
    by (elim generator_unfold)
  have sh: "shape k k (take k (vandermonde k n))"
    using w(1) vandermonde_shape [of n k] by (auto simp: shape_def dest: in_set_takeD)
  have "ent m i j = (\<Sum>l<k. ent (take k (vandermonde k n)) i l * ent w l j)"
    using ij w(1) by (subst generator_ent [OF g _ _ w(2,3)])
      (auto intro!: sum.cong simp: ent_def vandermonde_def gf_hom)
  then show ?thesis using invert_right [OF sh w(2) ij] by simp
qed

text \<open>Any \<open>k\<close> distinct rows are invertible: every \<open>k\<close> parts determine the payload.\<close>

lemma select_rows_shape: "shape n k m \<Longrightarrow> set is \<subseteq> {..<n} \<Longrightarrow> shape (length is) k (select_rows m is)"
  by (auto simp: shape_def select_rows_def subset_iff)

lemma generator_rows_kernel:
  assumes g: "generator k n = Inr m" and d: "distinct is" "length is = k" "set is \<subseteq> {..<n}"
  shows "trivial_kernel k (ent (select_rows m is))"
  unfolding trivial_kernel_def
proof (intro allI impI)
  fix x j
  assume z: "\<forall>i<k. (\<Sum>c<k. ent (select_rows m is) i c * x c) = 0" and j: "j < k"
  from g obtain w where w: "n \<le> 16" "invert (take k (vandermonde k n)) = Inr w" "shape k k w"
    "trivial_kernel k (ent w)"
    by (elim generator_unfold)
  have "(\<Sum>l<k. GF (of_nat (is ! i)) ^ l * (\<Sum>c<k. ent w l c * x c)) = 0" if i: "i < k" for i
  proof -
    have n: "is ! i < n" using d i nth_mem [of i "is"] by (simp add: subset_iff)
    have "(\<Sum>l<k. GF (of_nat (is ! i)) ^ l * (\<Sum>c<k. ent w l c * x c))
        = (\<Sum>c<k. (\<Sum>l<k. GF (of_nat (is ! i)) ^ l * ent w l c) * x c)"
      by (simp add: sum_distrib_left sum_distrib_right mult.assoc) (rule sum.swap)
    also have "\<dots> = (\<Sum>c<k. ent m (is ! i) c * x c)"
      by (rule sum.cong) (use generator_ent [OF g n _ w(2,3)] in simp_all)
    also have "\<dots> = 0" using z i d(2) by (simp add: select_rows_def ent_def)
    finally show ?thesis .
  qed
  moreover have "trivial_kernel k (\<lambda>r c. GF (of_nat (is ! r)) ^ c)"
    using vandermonde_rows_kernel [OF d(1)] d w(1) by fastforce
  ultimately have "(\<Sum>c<k. ent w l c * x c) = 0" if "l < k" for l
    using trivial_kernelD [of k "\<lambda>r c. GF (of_nat (is ! r)) ^ c" "\<lambda>l. \<Sum>c<k. ent w l c * x c"] that
    by blast
  then show "x j = 0" using j by (rule trivial_kernelD [OF w(4)])
qed

section \<open>Combining parts\<close>

lemma mul_table_nth: "mul_table c ! unat b = mul c b"
  using unsigned_less [of b, where ?'a = nat] by (simp add: mul_table_def)

lemma combine_loop_length: "length (combine_loop cs out) = length out"
  by (induction cs out rule: combine_loop.induct) simp_all

lemma combine_loop_nth:
  assumes "\<forall>(c, input) \<in> set cs. length input = length out" "p < length out"
  shows "GF (combine_loop cs out ! p) = GF (out ! p) + (\<Sum>(c, input)\<leftarrow>cs. GF c * GF (input ! p))"
  using assms
proof (induction cs out rule: combine_loop.induct)
  case (2 c input rest out)
  let ?out = "zip_update (\<lambda>dst src. dst XOR mul_table c ! unat src) out input"
  show ?case
  proof (cases "c = 0")
    case True
    then show ?thesis using 2 by (simp add: zero_gf_def [symmetric])
  next
    case False
    have "GF (?out ! p) = GF (out ! p) + GF c * GF (input ! p)"
      using 2(3,4) by (simp add: zip_update_nth mul_table_nth gf_hom)
    then show ?thesis
      using 2(2) [OF False] 2(3,4) False by (simp add: ac_simps)
  qed
qed simp

lemma combine_length [simp]: "length (combine row inputs count) = count"
  by (simp add: combine_def combine_loop_length)

lemma combine_nth:
  assumes "length row = k" "length inputs = k" "\<And>i. i < k \<Longrightarrow> length (inputs ! i) = count" "p < count"
  shows "GF (combine row inputs count ! p) = (\<Sum>i<k. GF (row ! i) * GF (inputs ! i ! p))"
proof -
  have "\<forall>(c, input) \<in> set (zip row inputs). length input = length (replicate count (0 :: u8))"
    using assms(2,3) by (auto dest!: set_zip_rightD simp: in_set_conv_nth)
  from combine_loop_nth [OF this, of p]
  have "GF (combine row inputs count ! p)
      = (\<Sum>(c, input)\<leftarrow>zip row inputs. GF c * GF (input ! p))"
    using assms(4) by (simp add: combine_def zero_gf_def [symmetric])
  also have "\<dots> = (\<Sum>i<k. GF (row ! i) * GF (inputs ! i ! p))"
    using assms(1,2) by (simp add: sum_list_sum_nth atLeast0LessThan)
  finally show ?thesis .
qed

lemma combine_append:
  assumes "length row = k" "length xs = k" "length ys = k"
    "\<And>i. i < k \<Longrightarrow> length (xs ! i) = a" "\<And>i. i < k \<Longrightarrow> length (ys ! i) = b"
  shows "combine row (map2 (@) xs ys) (a + b) = combine row xs a @ combine row ys b"
proof (rule nth_equalityI)
  fix p
  assume p: "p < length (combine row (map2 (@) xs ys) (a + b))"
  have l: "length (map2 (@) xs ys ! i) = a + b" if "i < k" for i using that assms by simp
  show "combine row (map2 (@) xs ys) (a + b) ! p = (combine row xs a @ combine row ys b) ! p"
  proof (cases "p < a")
    case True
    have "GF (combine row (map2 (@) xs ys) (a + b) ! p) = GF (combine row xs a ! p)"
      using True assms l by (simp add: combine_nth [where k = k] nth_append cong: sum.cong_simp)
    then show ?thesis using True by (simp add: nth_append)
  next
    case False
    have "GF (combine row (map2 (@) xs ys) (a + b) ! p) = GF (combine row ys b ! (p - a))"
      using False p assms l by (simp add: combine_nth [where k = k] nth_append cong: sum.cong_simp)
    then show ?thesis using False by (simp add: nth_append)
  qed
qed simp

text \<open>The transform of regeneration: from the parts \<open>is\<close> to every part.\<close>

definition encode_part :: "matrix \<Rightarrow> bytes list \<Rightarrow> nat \<Rightarrow> nat \<Rightarrow> bytes" where
  "encode_part m data len i = combine (m ! i) data len"

lemma encode_part_systematic:
  assumes g: "generator k n = Inr m" and data: "length data = k" "\<And>c. c < k \<Longrightarrow> length (data ! c) = len"
    and i: "i < k"
  shows "encode_part m data len i = data ! i"
proof (rule nth_equalityI)
  have kn: "k < n" using g by (elim generator_unfold)
  show "length (encode_part m data len i) = length (data ! i)"
    using data i by (simp add: encode_part_def)
  fix p
  assume "p < length (encode_part m data len i)"
  then have p: "p < len" by (simp add: encode_part_def)
  have "GF (encode_part m data len i ! p) = (\<Sum>c<k. ent m i c * GF (data ! c ! p))"
    using shape_row [OF generator_shape [OF g]] i kn data p
    by (simp add: encode_part_def combine_nth [where k = k] ent_def)
  also have "\<dots> = (\<Sum>c<k. (if i = c then 1 else 0) * GF (data ! c ! p))"
    by (rule sum.cong) (use generator_systematic [OF g i] in simp_all)
  also have "\<dots> = GF (data ! i ! p)" using i by (rule sum_indicator)
  finally show "encode_part m data len i ! p = data ! i ! p" by simp
qed

lemma transform_matrix:
  assumes g: "generator k n = Inr m" and dec: "invert (select_rows m is) = Inr w"
    and "is": "length is = k" "set is \<subseteq> {..<n}" and i: "i < n" and c: "c < k"
  shows "(\<Sum>r<k. ent (product m w) i r * ent (select_rows m is) r c) = ent m i c"
proof -
  have k: "0 < k" using c by simp
  note gs = generator_shape [OF g]
  have ss: "shape k k (select_rows m is)" using select_rows_shape [OF gs "is"(2)] "is"(1) by simp
  note ws = invert_spec [OF ss dec]
  have "(\<Sum>r<k. ent (product m w) i r * ent (select_rows m is) r c)
      = (\<Sum>r<k. (\<Sum>l<k. ent m i l * ent w l r) * ent (select_rows m is) r c)"
    by (rule sum.cong) (use product_ent [OF gs ws(1) i _ k] in simp_all)
  also have "\<dots> = (\<Sum>l<k. ent m i l * (\<Sum>r<k. ent w l r * ent (select_rows m is) r c))"
    by (simp add: sum_distrib_left sum_distrib_right mult.assoc) (rule sum.swap)
  also have "\<dots> = (\<Sum>l<k. (if c = l then 1 else 0) * ent m i l)"
    by (rule sum.cong) (use ws(3) [OF _ c] in auto)
  also have "\<dots> = ent m i c" using c by (rule sum_indicator)
  finally show ?thesis .
qed

lemma encode_part_nth:
  assumes "generator k n = Inr m" "length data = k" "\<And>c. c < k \<Longrightarrow> length (data ! c) = len"
    "i < n" "p < len"
  shows "GF (encode_part m data len i ! p) = (\<Sum>c<k. ent m i c * GF (data ! c ! p))"
  using assms shape_row [OF generator_shape [OF assms(1)]]
  by (simp add: encode_part_def combine_nth [where k = k] ent_def)

lemma encode_part_length [simp]: "length (encode_part m data len i) = len"
  by (simp add: encode_part_def)

lemma transform_parts:
  assumes g: "generator k n = Inr m" and dec: "invert (select_rows m is) = Inr w"
    and "is": "length is = k" "set is \<subseteq> {..<n}"
    and data: "length data = k" "\<And>c. c < k \<Longrightarrow> length (data ! c) = len" and i: "i < n"
  shows "combine (product m w ! i) (map (encode_part m data len) is) len = encode_part m data len i"
    (is "?l = ?r")
proof (rule nth_equalityI)
  have k: "0 < k" using g by (elim generator_unfold) simp
  note gs = generator_shape [OF g]
  have ss: "shape k k (select_rows m is)" using select_rows_shape [OF gs "is"(2)] "is"(1) by simp
  note ps = product_shape [OF gs invert_spec(1) [OF ss dec] k]
  have idx: "is ! r < n" if "r < k" for r using "is" that nth_mem [of r "is"] by (simp add: subset_iff)
  fix p
  assume "p < length ?l"
  then have p: "p < len" by simp
  have enc: "GF (encode_part m data len j ! p) = (\<Sum>c<k. ent m j c * GF (data ! c ! p))"
    if "j < n" for j
    using encode_part_nth [OF g data(1) _ that p] data(2) by simp
  have "GF (?l ! p) = (\<Sum>r<k. GF (product m w ! i ! r) * GF (map (encode_part m data len) is ! r ! p))"
    by (rule combine_nth) (use shape_row [OF ps i] "is"(1) p in simp_all)
  also have "\<dots> = (\<Sum>r<k. ent (product m w) i r
      * (\<Sum>c<k. ent (select_rows m is) r c * GF (data ! c ! p)))"
    by (rule sum.cong) (use "is"(1) idx enc in \<open>simp_all add: ent_def select_rows_def\<close>)
  also have "\<dots> = (\<Sum>c<k. (\<Sum>r<k. ent (product m w) i r * ent (select_rows m is) r c) * GF (data ! c ! p))"
    by (simp add: sum_distrib_left sum_distrib_right mult.assoc) (rule sum.swap)
  also have "\<dots> = (\<Sum>c<k. ent m i c * GF (data ! c ! p))"
    by (rule sum.cong) (use transform_matrix [OF g dec "is" i] in simp_all)
  also have "\<dots> = GF (?r ! p)" using enc [OF i] by simp
  finally show "?l ! p = ?r ! p" by simp
qed simp

section \<open>Properties\<close>

definition identity :: "nat \<Rightarrow> matrix" where
  "identity n = map (\<lambda>i. map (\<lambda>j. if i = j then 1 else 0) [0..<n]) [0..<n]"

lemma identity_shape: "shape n n (identity n)"
  by (auto simp: shape_def identity_def)

lemma identity_ent: "i < n \<Longrightarrow> j < n \<Longrightarrow> ent (identity n) i j = (if i = j then 1 else 0)"
  by (simp add: ent_def identity_def zero_gf_def one_gf_def)

lemma product_identity:
  assumes "shape n n a" "shape n n b" "0 < n"
    "\<And>i j. i < n \<Longrightarrow> j < n \<Longrightarrow> (\<Sum>k<n. ent a i k * ent b k j) = (if i = j then 1 else 0)"
  shows "product a b = identity n"
  by (rule matrix_eqI [OF product_shape [OF assms(1-3)] identity_shape])
    (use assms product_ent [OF assms(1,2)] in \<open>simp add: identity_ent\<close>)

text \<open>C11: Gauss-Jordan inversion is exact. On a square matrix it fails only when some non-zero
  vector is in the kernel, and otherwise the result is the inverse on both sides.\<close>

theorem invert_correct:
  assumes "shape n n a" "0 < n"
  shows "case invert a of
      Inl e \<Rightarrow> e = Internal \<and> (\<exists>x. (\<exists>j<n. x j \<noteq> 0) \<and> (\<forall>i<n. (\<Sum>j<n. ent a i j * x j) = 0))
    | Inr b \<Rightarrow> shape n n b \<and> product b a = identity n \<and> product a b = identity n"
proof (cases "invert a")
  case (Inl e)
  then have "\<not> trivial_kernel n (ent a)" using invert_succeeds [OF assms(1)] by auto
  moreover have "e = Internal" using Inl invert_error by blast
  ultimately show ?thesis using Inl by (auto simp: trivial_kernel_def)
next
  case (Inr b)
  note sp = invert_spec [OF assms(1) Inr]
  have "product b a = identity n" using product_identity [OF sp(1) assms] sp(3) by blast
  moreover have "product a b = identity n"
    using product_identity [OF assms(1) sp(1) assms(2)] invert_right [OF assms(1) Inr] by blast
  ultimately show ?thesis using Inr sp(1) by simp
qed

theorem invert_correct_witness:
  "case invert [[0, 1], [2, 3]] of
      Inl e \<Rightarrow> e = Internal \<and> (\<exists>x. (\<exists>j<2. x j \<noteq> 0) \<and> (\<forall>i<2. (\<Sum>j<2. ent [[0, 1], [2, 3]] i j * x j) = 0))
    | Inr b \<Rightarrow> shape 2 2 b \<and> product b [[0, 1], [2, 3]] = identity 2
        \<and> product [[0, 1], [2, 3]] b = identity 2"
  using invert_correct [of 2 "[[0, 1], [2, 3]]"] by (simp add: shape_def)

text \<open>C5: The code is maximum distance separable. Any \<open>k\<close> distinct rows of the generator matrix
  can be inverted, so any \<open>k\<close> of the \<open>n\<close> parts determine all of them; the first \<open>k\<close> rows
  are the identity, so the first \<open>k\<close> parts are the payload itself.\<close>

theorem generator_mds:
  assumes "2 \<le> k" "k < n" "n \<le> 16"
  shows "\<exists>g. generator k n = Inr g \<and> take k g = identity k
    \<and> (\<forall>is. distinct is \<and> length is = k \<and> set is \<subseteq> {..<n} \<longrightarrow>
         (\<exists>w. invert (select_rows g is) = Inr w \<and> product w (select_rows g is) = identity k))"
proof -
  obtain g where g: "generator k n = Inr g" using generator_total [OF assms] by blast
  note gs = generator_shape [OF g]
  have "take k g = identity k"
  proof (rule matrix_eqI [OF _ identity_shape])
    show "shape k k (take k g)" using gs assms(2) by (auto simp: shape_def dest: in_set_takeD)
    show "ent (take k g) i j = ent (identity k) i j" if "i < k" "j < k" for i j
      using generator_systematic [OF g that] that by (simp add: ent_def identity_ent [unfolded ent_def])
  qed
  moreover have "\<exists>w. invert (select_rows g is) = Inr w \<and> product w (select_rows g is) = identity k"
    if "is": "distinct is" "length is = k" "set is \<subseteq> {..<n}" for "is"
  proof -
    have sh: "shape k k (select_rows g is)" using select_rows_shape [OF gs "is"(3)] "is"(2) by simp
    obtain w where w: "invert (select_rows g is) = Inr w"
      using invert_succeeds [OF sh generator_rows_kernel [OF g "is"]] by blast
    note sp = invert_spec [OF sh w]
    have "product w (select_rows g is) = identity k"
      using product_identity [OF sp(1) sh] sp(3) assms(1) by simp
    then show ?thesis using w by blast
  qed
  ultimately show ?thesis using g by blast
qed

theorem generator_mds_witness:
  "\<exists>g. generator 2 3 = Inr g \<and> take 2 g = identity 2
    \<and> (\<forall>is. distinct is \<and> length is = 2 \<and> set is \<subseteq> {..<3} \<longrightarrow>
         (\<exists>w. invert (select_rows g is) = Inr w \<and> product w (select_rows g is) = identity 2))"
  by (rule generator_mds) simp_all

end
