(* ===== verification/Disk.thy ===== *)
theory Disk
  imports Prelude Replica_Types
begin

text \<open>
  The part of \<open>std::fs\<close> the streaming code uses. A path names at most one ordinary file; an
  open reader is the bytes still to be read; creating a file can be refused and a write stops
  with an error once the device has no room left, keeping what was already written.
\<close>

record disk =
  files :: "string \<Rightarrow> bytes option"
  refused :: "string \<Rightarrow> bool"
  room :: nat

definition path_join :: "string \<Rightarrow> string \<Rightarrow> string" where
  "path_join root name = root @ ''/'' @ name"

text \<open>\<open>io\<close> of \<open>coding.rs\<close>: every I/O failure becomes \<open>StateError::Io\<close>.\<close>

definition io_error :: rerror where
  "io_error = State S_Io"

definition file_open :: "disk \<Rightarrow> string \<Rightarrow> rerror + bytes" where
  "file_open d p = ok_or io_error (files d p)"

definition create_new :: "string \<Rightarrow> disk \<Rightarrow> disk \<times> (rerror + unit)" where
  "create_new p d =
     (if refused d p \<or> files d p \<noteq> None then (d, Inl io_error)
      else (d\<lparr>files := (files d)(p \<mapsto> [])\<rparr>, Inr ()))"

definition write_all :: "string \<Rightarrow> bytes \<Rightarrow> disk \<Rightarrow> disk \<times> (rerror + unit)" where
  "write_all p bs d =
     (let put = take (room d) bs;
          old = (case files d p of None \<Rightarrow> [] | Some c \<Rightarrow> c);
          d' = d\<lparr>files := (files d)(p \<mapsto> old @ put), room := room d - length put\<rparr>
      in if length bs \<le> room d then (d', Inr ()) else (d', Inl io_error))"

definition read_exact :: "nat \<Rightarrow> bytes \<Rightarrow> rerror + bytes \<times> bytes" where
  "read_exact n reader =
     (if length reader < n then Inl io_error else Inr (take n reader, drop n reader))"

lemma file_open_Inr [simp, res_simps]: "file_open d p = Inr bs \<longleftrightarrow> files d p = Some bs"
  by (simp add: file_open_def)

lemma read_exact_Inr [res_simps]:
  "read_exact n reader = Inr (got, rest) \<longleftrightarrow> n \<le> length reader \<and> got = take n reader \<and> rest = drop n reader"
  by (auto simp: read_exact_def)

lemma create_new_Inr [res_simps]:
  "create_new p d = (d', Inr u)
     \<longleftrightarrow> \<not> refused d p \<and> files d p = None \<and> d' = d\<lparr>files := (files d)(p \<mapsto> [])\<rparr>"
  by (auto simp: create_new_def)

lemma write_all_Inr [res_simps]:
  assumes "files d p = Some old"
  shows "write_all p bs d = (d', Inr u)
     \<longleftrightarrow> length bs \<le> room d
       \<and> d' = d\<lparr>files := (files d)(p \<mapsto> old @ bs), room := room d - length bs\<rparr>"
  using assms by (auto simp: write_all_def Let_def)

lemma path_join_inj [simp]: "path_join root a = path_join root b \<longleftrightarrow> a = b"
  by (simp add: path_join_def)

end
