(* ===== verification/Envelope_Format.thy ===== *)
theory Envelope_Format
  imports Prelude
begin

text \<open>
  The fixed parts of the \<open>FSWNENC2\<close> envelope: the constants and limits of
  \<open>crates/envelope/src/lib.rs\<close>, the padding buckets, the header, the record nonces and the
  associated data of \<open>crates/envelope/src/stream.rs\<close>.
\<close>

section \<open>Constants\<close>

definition MAGIC :: bytes where
  "MAGIC = [0x46, 0x53, 0x57, 0x4E, 0x45, 0x4E, 0x43, 0x32]"

definition HKDF_INFO :: bytes where
  "HKDF_INFO = map (\<lambda>c. of_nat (of_char c)) ''forgesworn-aes-256-gcm-chunked/v2''"

definition HEADER_BYTES :: nat where "HEADER_BYTES = 56"
definition CHUNK_BYTES :: nat where "CHUNK_BYTES = 1024 * 1024"
definition TAG_BYTES :: nat where "TAG_BYTES = 16"
definition MIN_PADDING_BUCKET :: nat where "MIN_PADDING_BUCKET = 64 * 1024"
definition MAX_METADATA_BYTES :: nat where "MAX_METADATA_BYTES = 4096"
definition KEY_BYTES :: nat where "KEY_BYTES = 32"
definition RECORD_BYTES :: nat where "RECORD_BYTES = CHUNK_BYTES + TAG_BYTES"

lemmas envelope_consts = HEADER_BYTES_def CHUNK_BYTES_def TAG_BYTES_def MIN_PADDING_BUCKET_def
  MAX_METADATA_BYTES_def KEY_BYTES_def RECORD_BYTES_def

section \<open>Errors, metadata and limits\<close>

text \<open>\<open>E_Panic\<close> stands for a panic of the process; it is no variant of the source's enum.\<close>

datatype envelope_error =
    E_Io | E_PrivateState | E_Random | E_Cancelled | E_TempDirInUse | E_SourceChanged
  | E_TooLarge | E_MediaType | E_MetadataTooLarge | E_Magic | E_Header | E_Length
  | E_Authentication | E_Metadata string | E_Padding
  | E_Panic

text \<open>A name or a media type is the list of its Unicode scalar values (Rust's \<open>chars()\<close>).\<close>

type_synonym utext = "nat list"

record metadata =
  md_name :: utext
  md_size :: nat
  md_type :: utext

record limits =
  max_source_bytes :: nat

definition max_records :: "limits \<Rightarrow> nat" where
  "max_records l =
     (let logical = sat_add (max_source_bytes l) (4 + MAX_METADATA_BYTES);
          records = div_ceil logical CHUNK_BYTES
      in if records \<le> u32_max then records else u32_max)"

section \<open>Padding\<close>

function next_power_from :: "nat \<Rightarrow> nat \<Rightarrow> nat" where
  "next_power_from p n = (if n \<le> p \<or> p = 0 then p else next_power_from (2 * p) n)"
  by pat_completeness auto
termination by (relation "measure (\<lambda>(p, n). n - p)") auto

declare next_power_from.simps [simp del]

definition next_power_of_two :: "nat \<Rightarrow> nat" where
  "next_power_of_two n = next_power_from 1 n"

definition padded_length :: "nat \<Rightarrow> nat" where
  "padded_length n =
     (if n \<le> MIN_PADDING_BUCKET then MIN_PADDING_BUCKET
      else if n \<le> CHUNK_BYTES then next_power_of_two n
      else wrap_mul (div_ceil n CHUNK_BYTES) CHUNK_BYTES)"

definition envelope_len_for :: "nat \<Rightarrow> nat" where
  "envelope_len_for plaintext =
     HEADER_BYTES + plaintext + div_ceil plaintext CHUNK_BYTES * TAG_BYTES"

section \<open>Header, nonces and associated data\<close>

definition be32 :: "nat \<Rightarrow> bytes" where
  "be32 n = map (\<lambda>s. of_nat (n div 256 ^ s)) [3, 2, 1, 0]"

definition of_be32 :: "bytes \<Rightarrow> nat" where
  "of_be32 bs = foldl (\<lambda>a b. a * 256 + unat b) 0 bs"

definition header_bytes :: "nat \<Rightarrow> bytes \<Rightarrow> bytes \<Rightarrow> bytes" where
  "header_bytes record_count nonce_prefix salt =
     MAGIC @ be32 CHUNK_BYTES @ be32 record_count @ nonce_prefix @ salt"

definition nonce_bytes :: "bytes \<Rightarrow> nat \<Rightarrow> bytes" where
  "nonce_bytes prefix counter = prefix @ be32 counter"

definition aad_bytes :: "bytes \<Rightarrow> nat \<Rightarrow> bytes" where
  "aad_bytes header counter = header @ be32 counter"

text \<open>The part of the logical range \<open>[start, start + len)\<close> inside one record.\<close>

definition overlap :: "nat \<Rightarrow> nat \<Rightarrow> nat \<Rightarrow> nat \<Rightarrow> (nat \<times> nat) option" where
  "overlap offset record_len start len =
     (let from = max start offset; to = min (start + len) (offset + record_len)
      in if to > from then Some (from - offset, to - offset) else None)"

section \<open>Facts\<close>

lemma length_MAGIC [simp]: "length MAGIC = 8"
  by (simp add: MAGIC_def)

lemma length_be32 [simp]: "length (be32 n) = 4"
  by (simp add: be32_def)

lemma unat_byte_of_nat: "unat (of_nat n :: u8) = n mod 256"
  by (simp add: unsigned_of_nat take_bit_eq_mod)

lemma of_be32_be32: "n < 2 ^ 32 \<Longrightarrow> of_be32 (be32 n) = n"
proof -
  assume "n < 2 ^ 32"
  then have top: "n div 16777216 < 256" by (simp add: div_less_iff_less_mult)
  have s1: "n = n div 256 * 256 + n mod 256" by simp
  have s2: "n div 256 = n div 65536 * 256 + n div 256 mod 256"
    using div_mult_mod_eq [of "n div 256" 256] by (simp add: div_mult2_eq [symmetric])
  have s3: "n div 65536 = n div 16777216 * 256 + n div 65536 mod 256"
    using div_mult_mod_eq [of "n div 65536" 256] by (simp add: div_mult2_eq [symmetric])
  show ?thesis
    using s1 s2 s3 top by (simp add: of_be32_def be32_def unat_byte_of_nat)
qed

lemma be32_inj: "a < 2 ^ 32 \<Longrightarrow> b < 2 ^ 32 \<Longrightarrow> be32 a = be32 b \<longleftrightarrow> a = b"
  using of_be32_be32 by metis

lemma unat_byte_less: "unat (x :: u8) < 256"
  using unsigned_less [of x, where ?'a = nat] by simp

lemma be32_of_be32: "length bs = 4 \<Longrightarrow> be32 (of_be32 bs) = bs"
proof -
  assume "length bs = 4"
  then obtain a b c d where bs: "bs = [a, b, c, d]"
    by (auto simp: numeral_eq_Suc length_Suc_conv)
  have u: "of_nat n = x" if "n mod 256 = unat x" for n and x :: u8
    using that by (metis unat_byte_of_nat unsigned_word_eqI)
  note l = unat_byte_less [of a] unat_byte_less [of b] unat_byte_less [of c] unat_byte_less [of d]
  let ?n = "((unat a * 256 + unat b) * 256 + unat c) * 256 + unat d"
  have d1: "?n div 256 = (unat a * 256 + unat b) * 256 + unat c" using l by simp
  have d2: "?n div 65536 = unat a * 256 + unat b"
    using l d1 div_mult2_eq [of ?n 256 256] by simp
  have d3: "?n div 16777216 = unat a"
    using l d2 div_mult2_eq [of ?n 65536 256] by simp
  have "(x * 256 + unat d) mod 256 = unat d" for x using l by simp
  then have m: "?n mod 256 = unat d" .
  have m1: "((x * 256) + unat y) mod 256 = unat y" for x and y :: u8
    using unat_byte_less [of y] by simp
  have "of_nat (?n div 16777216) = a" "of_nat (?n div 65536) = b" "of_nat (?n div 256) = c"
    "of_nat ?n = d"
    by (rule u; simp only: d1 d2 d3 m m1 mod_less [OF unat_byte_less])+
  then have "be32 ?n = bs" unfolding bs be32_def by (simp del: of_nat_add of_nat_mult)
  then show ?thesis by (simp add: bs of_be32_def)
qed

subsection \<open>Padding buckets\<close>

lemma next_power_from_ge: "0 < p \<Longrightarrow> n \<le> next_power_from p n"
proof (induction p n rule: next_power_from.induct)
  case (1 p n)
  then show ?case by (subst next_power_from.simps) simp
qed

lemma next_power_from_le: "n \<le> 2 ^ m \<Longrightarrow> i \<le> m \<Longrightarrow> next_power_from (2 ^ i) n \<le> 2 ^ m"
proof (induction "m - i" arbitrary: i)
  case 0
  then show ?case by (subst next_power_from.simps) simp
next
  case (Suc d)
  then have "d = m - Suc i" "Suc i \<le> m" by simp_all
  then have "next_power_from (2 ^ Suc i) n \<le> 2 ^ m" using Suc.hyps(1) Suc.prems(1) by blast
  then show ?case using Suc.prems by (subst next_power_from.simps) simp
qed

lemma next_power_from_power: "\<exists>j. next_power_from (2 ^ i) n = 2 ^ j"
proof (induction "n - 2 ^ i" arbitrary: i rule: less_induct)
  case less
  show ?case
  proof (cases "n \<le> 2 ^ i")
    case True
    then show ?thesis by (subst next_power_from.simps) auto
  next
    case False
    then have "\<exists>j. next_power_from (2 ^ Suc i) n = 2 ^ j" using less [of "Suc i"] by (simp add: diff_less_mono2)
    then show ?thesis using False by (subst next_power_from.simps) simp
  qed
qed

lemma next_power_of_two_bounds:
  "n \<le> next_power_of_two n" "n \<le> 2 ^ m \<Longrightarrow> next_power_of_two n \<le> 2 ^ m"
  using next_power_from_ge [of 1 n] next_power_from_le [of n m 0] by (simp_all add: next_power_of_two_def)

lemma chunk_power: "CHUNK_BYTES = 2 ^ 20"
  by (simp add: CHUNK_BYTES_def)

lemma div_ceil_chunk_mult [simp]: "div_ceil (k * CHUNK_BYTES) CHUNK_BYTES = k"
  by (simp add: div_ceil_def CHUNK_BYTES_def)

lemma div_ceil_one: "0 < n \<Longrightarrow> n \<le> b \<Longrightarrow> div_ceil n b = 1"
  by (cases "n = b") (auto simp: div_ceil_def)

lemma div_ceil_mono: "a \<le> b \<Longrightarrow> 0 < c \<Longrightarrow> div_ceil a c \<le> div_ceil b c"
proof (rule ccontr)
  assume a: "a \<le> b" "0 < c" and "\<not> div_ceil a c \<le> div_ceil b c"
  then have "div_ceil b c + 1 \<le> div_ceil a c" by simp
  then have "(div_ceil b c + 1) * c \<le> div_ceil a c * c" by (rule mult_le_mono1)
  then show False using div_ceil_ge [OF a(2), of b] div_ceil_less [OF a(2), of a] a(1) by simp
qed

lemma padded_length_large:
  assumes "CHUNK_BYTES < n" "n \<le> 2 ^ 63"
  shows "padded_length n = div_ceil n CHUNK_BYTES * CHUNK_BYTES"
proof -
  have "div_ceil n CHUNK_BYTES * CHUNK_BYTES < 2 ^ 64"
    using div_ceil_less [of CHUNK_BYTES n] assms by (simp add: CHUNK_BYTES_def)
  then show ?thesis using assms by (simp add: padded_length_def wrap_mul_def envelope_consts)
qed

lemma padded_length_cases:
  assumes "n \<le> 2 ^ 63"
  obtains (small) "n \<le> CHUNK_BYTES" "n \<le> padded_length n" "MIN_PADDING_BUCKET \<le> padded_length n"
      "padded_length n \<le> CHUNK_BYTES"
    | (large) "CHUNK_BYTES < n" "padded_length n = div_ceil n CHUNK_BYTES * CHUNK_BYTES"
proof (cases "n \<le> CHUNK_BYTES")
  case True
  have "n \<le> padded_length n \<and> MIN_PADDING_BUCKET \<le> padded_length n \<and> padded_length n \<le> CHUNK_BYTES"
    using True next_power_of_two_bounds(1) [of n] next_power_of_two_bounds(2) [of n 20]
    by (auto simp: padded_length_def chunk_power) (simp_all add: MIN_PADDING_BUCKET_def)
  then show ?thesis using small True by blast
next
  case False
  then show ?thesis using large padded_length_large assms by simp
qed

lemma padded_length_ge: "n \<le> 2 ^ 63 \<Longrightarrow> n \<le> padded_length n"
  by (erule padded_length_cases) (use div_ceil_ge [of CHUNK_BYTES n] in \<open>auto simp: CHUNK_BYTES_def\<close>)

lemma padded_length_min: "n \<le> 2 ^ 63 \<Longrightarrow> MIN_PADDING_BUCKET \<le> padded_length n"
  by (erule padded_length_cases)
    (use div_ceil_ge [of CHUNK_BYTES n] in \<open>auto simp: CHUNK_BYTES_def MIN_PADDING_BUCKET_def\<close>)

lemma padded_length_records:
  assumes "0 < n" "n \<le> 2 ^ 63"
  shows "div_ceil (padded_length n) CHUNK_BYTES = div_ceil n CHUNK_BYTES"
  using assms(2)
proof (cases rule: padded_length_cases)
  case small
  then show ?thesis using assms(1) by (simp add: div_ceil_one)
qed simp

end
