(* ===== verification/Regenerate.thy ===== *)
theory Regenerate
  imports Coding Disk Envelope_Format
begin

text \<open>
  The streaming regeneration of \<open>crates/wildbloomd/src/replicas/coding.rs\<close>. The sources are
  opened, every output file is created, and the parts are combined stripe by stripe; the
  hashes of the outputs are compared with the signed receipt and the payload is hashed back
  from the systematic files. The digest is the parameter \<open>sha256_hex\<close>
  (\<open>hex::encode\<close> of \<open>Sha256\<close>); a streaming hasher is the bytes fed to it so far.
\<close>

section \<open>Definitions\<close>

definition STRIPE :: nat where
  "STRIPE = 64 * 1024"

fun open_sources :: "disk \<Rightarrow> (nat \<times> string) list \<Rightarrow> rerror + bytes list" where
  "open_sources d [] = Inr []"
| "open_sources d ((i, p) # sources) =
     try_then (file_open d p) (\<lambda>r. try_then (open_sources d sources) (\<lambda>rs. Inr (r # rs)))"

fun create_outputs :: "string list \<Rightarrow> disk \<Rightarrow> disk \<times> (rerror + unit)" where
  "create_outputs [] d = (d, Inr ())"
| "create_outputs (p # paths) d = st_then (create_new p d) (\<lambda>_. create_outputs paths)"

fun read_inputs :: "nat \<Rightarrow> bytes list \<Rightarrow> rerror + (bytes list \<times> bytes list)" where
  "read_inputs count [] = Inr ([], [])"
| "read_inputs count (reader # readers) =
     try_then (read_exact count reader) (\<lambda>(input, rest).
       try_then (read_inputs count readers) (\<lambda>(inputs, rests). Inr (input # inputs, rest # rests)))"

fun write_parts ::
  "matrix \<Rightarrow> bytes list \<Rightarrow> nat \<Rightarrow> string list \<Rightarrow> nat list \<Rightarrow> bytes list \<Rightarrow> disk
     \<Rightarrow> disk \<times> (rerror + bytes list)" where
  "write_parts transform inputs count paths [] hashes d = (d, Inr hashes)"
| "write_parts transform inputs count paths (i # is) hashes d =
     (let out = combine (transform ! i) inputs count
      in st_then (write_all (paths ! i) out d)
           (\<lambda>_. write_parts transform inputs count paths is (hashes[i := hashes ! i @ out])))"

function stripes ::
  "matrix \<Rightarrow> string list \<Rightarrow> nat \<Rightarrow> nat \<Rightarrow> nat \<Rightarrow> bytes list \<Rightarrow> bytes list \<Rightarrow> disk
     \<Rightarrow> disk \<times> (rerror + bytes list)" where
  "stripes transform paths n psize offset readers hashes d =
     (if offset < psize then
        (let count = min STRIPE (psize - offset)
         in case read_inputs count readers of
              Inl e \<Rightarrow> (d, Inl e)
            | Inr (inputs, rests) \<Rightarrow>
                (case write_parts transform inputs count paths [0..<n] hashes d of
                   (d', Inl e) \<Rightarrow> (d', Inl e)
                 | (d', Inr hashes') \<Rightarrow>
                     stripes transform paths n psize (offset + count) rests hashes' d'))
      else (d, Inr hashes))"
  by pat_completeness auto
termination
  by (relation "measure (\<lambda>(t, p, n, psize, offset, r, h, d). psize - offset)")
    (auto simp: STRIPE_def)

declare stripes.simps [simp del]

fun check_parts :: "(bytes \<Rightarrow> string) \<Rightarrow> bytes list \<Rightarrow> part list \<Rightarrow> rerror + unit" where
  "check_parts sha256_hex (h # hashes) (p # parts) =
     (if sha256_hex h \<noteq> pt_sha256 p
      then Inl (Configuration ''regenerated part hash differs from signed receipt'')
      else check_parts sha256_hex hashes parts)"
| "check_parts sha256_hex _ _ = Inr ()"

text \<open>The state of the payload pass: hashed bytes, bytes still expected, and the header.\<close>

record payload_pass =
  pp_hashed :: bytes
  pp_remaining :: nat
  pp_header :: bytes

function payload_file :: "nat \<Rightarrow> bytes \<Rightarrow> payload_pass \<Rightarrow> rerror + payload_pass" where
  "payload_file left file st =
     (if 0 < left then
        (let count = min STRIPE left
         in case read_exact count file of
              Inl e \<Rightarrow> Inl e
            | Inr (chunk, rest) \<Rightarrow>
                (let header = (if length (pp_header st) < 8
                       then pp_header st @ take (min count (8 - length (pp_header st))) chunk
                       else pp_header st)
                 in payload_file (left - count) rest
                      \<lparr>pp_hashed = pp_hashed st @ chunk, pp_remaining = pp_remaining st - count,
                       pp_header = header\<rparr>))
      else Inr st)"
  by pat_completeness auto
termination by (relation "measure (\<lambda>(left, f, st). left)") (auto simp: STRIPE_def)

declare payload_file.simps [simp del]

fun payload_files :: "disk \<Rightarrow> nat \<Rightarrow> string list \<Rightarrow> payload_pass \<Rightarrow> rerror + payload_pass" where
  "payload_files d psize [] st = Inr st"
| "payload_files d psize (p # paths) st =
     try_then (file_open d p) (\<lambda>file.
       try_then (payload_file (min psize (pp_remaining st)) file st) (payload_files d psize paths))"

definition check_payload :: "(bytes \<Rightarrow> string) \<Rightarrow> manifest \<Rightarrow> payload_pass \<Rightarrow> rerror + unit" where
  "check_payload sha256_hex m st =
     (if pp_remaining st \<noteq> 0 \<or> sha256_hex (pp_hashed st) \<noteq> pl_sha256 (m_payload m)
         \<or> pp_header st \<noteq> MAGIC
      then Inl (Configuration ''reconstructed ciphertext does not match signed encrypted payload'')
      else Inr ())"

definition coded_path :: "string \<Rightarrow> nat \<Rightarrow> string" where
  "coded_path dir i = path_join dir (''coded-'' @ show_nat i)"

definition coded_paths :: "string \<Rightarrow> nat \<Rightarrow> string list" where
  "coded_paths dir n = map (coded_path dir) [0..<n]"

text \<open>
  \<open>matrix[*i]\<close> and \<open>manifest.parts[0]\<close> panic out of range; these are the two \<open>Panic\<close> branches.
\<close>

definition transform_for :: "manifest \<Rightarrow> (nat \<times> string) list \<Rightarrow> rerror + matrix" where
  "transform_for m sources =
     try_then (generator (m_required m) (m_total m)) (\<lambda>g.
       if \<exists>s \<in> set sources. length g \<le> fst s then Inl Panic
       else try_then (invert (select_rows g (map fst sources))) (\<lambda>dec. Inr (product g dec)))"

definition verify_outputs ::
  "(bytes \<Rightarrow> string) \<Rightarrow> manifest \<Rightarrow> nat \<Rightarrow> string list \<Rightarrow> bytes list \<Rightarrow> disk \<Rightarrow> rerror + string list" where
  "verify_outputs sha256_hex m psize paths hashes d =
     try_then (check_parts sha256_hex hashes (m_parts m)) (\<lambda>_.
       try_then (payload_files d psize (take (m_required m) paths)
                   \<lparr>pp_hashed = [], pp_remaining = pl_size (m_payload m), pp_header = []\<rparr>) (\<lambda>st.
         try_then (check_payload sha256_hex m st) (\<lambda>_. Inr paths)))"

definition regenerate ::
  "(bytes \<Rightarrow> string) \<Rightarrow> manifest \<Rightarrow> (nat \<times> string) list \<Rightarrow> string \<Rightarrow> disk
     \<Rightarrow> disk \<times> (rerror + string list)" where
  "regenerate sha256_hex m sources dir d =
     (if length sources \<noteq> m_required m then (d, Inl Internal)
      else case transform_for m sources of
        Inl e \<Rightarrow> (d, Inl e)
      | Inr transform \<Rightarrow>
          (case open_sources d sources of
             Inl e \<Rightarrow> (d, Inl e)
           | Inr readers \<Rightarrow>
               (let paths = coded_paths dir (m_total m)
                in st_then (create_outputs paths d) (\<lambda>_ d1.
                     case m_parts m of
                       [] \<Rightarrow> (d1, Inl Panic)
                     | p0 # _ \<Rightarrow>
                         st_then (stripes transform paths (m_total m) (pt_size p0) 0 readers
                                    (replicate (m_total m) []) d1)
                           (\<lambda>hashes d2. (d2, verify_outputs sha256_hex m (pt_size p0) paths hashes d2))))))"

section \<open>The steps\<close>

lemma open_sources_Inr:
  "open_sources d sources = Inr readers \<longleftrightarrow> map (\<lambda>s. files d (snd s)) sources = map Some readers"
  by (induction d sources arbitrary: readers rule: open_sources.induct)
    (auto simp: try_then_Inr Cons_eq_map_conv)

lemma create_outputs_ok:
  assumes "distinct paths" "\<forall>p \<in> set paths. files d p = None \<and> \<not> refused d p"
  shows "\<exists>d'. create_outputs paths d = (d', Inr ())"
  using assms
proof (induction paths d rule: create_outputs.induct)
  case (2 p paths d)
  then have "create_new p d = (d\<lparr>files := (files d)(p \<mapsto> [])\<rparr>, Inr ())"
    by (simp add: create_new_def)
  moreover have "\<forall>q \<in> set paths. files (d\<lparr>files := (files d)(p \<mapsto> [])\<rparr>) q = None
      \<and> \<not> refused (d\<lparr>files := (files d)(p \<mapsto> [])\<rparr>) q"
    using 2(2,3) by auto
  ultimately show ?case using 2(1) 2(2) by simp
qed simp

lemma create_outputs_files:
  assumes "create_outputs paths d = (d', Inr u)"
  shows "distinct paths" "room d' = room d"
    "files d' = (\<lambda>p. if p \<in> set paths then Some [] else files d p)"
proof -
  have "distinct paths \<and> (\<forall>p \<in> set paths. files d p = None) \<and> room d' = room d
      \<and> files d' = (\<lambda>p. if p \<in> set paths then Some [] else files d p)"
    using assms
  proof (induction paths d rule: create_outputs.induct)
    case (2 p paths d)
    let ?d = "d\<lparr>files := (files d)(p \<mapsto> [])\<rparr>"
    from 2(2) have p: "files d p = None" and rest: "create_outputs paths ?d = (d', Inr u)"
      by (auto simp: st_then_Inr create_new_Inr)
    have "distinct paths \<and> (\<forall>q \<in> set paths. files ?d q = None) \<and> room d' = room ?d
        \<and> files d' = (\<lambda>q. if q \<in> set paths then Some [] else files ?d q)"
      using 2(1) rest by blast
    then show ?case using p by (auto simp: fun_eq_iff split: if_splits)
  qed simp
  then show "distinct paths" "room d' = room d"
    "files d' = (\<lambda>p. if p \<in> set paths then Some [] else files d p)" by auto
qed

lemma read_inputs_Inr:
  "read_inputs count readers = Inr r
     \<longleftrightarrow> (\<forall>x \<in> set readers. count \<le> length x) \<and> r = (map (take count) readers, map (drop count) readers)"
  by (induction count readers arbitrary: r rule: read_inputs.induct)
    (auto simp: try_then_Inr read_exact_def split: if_splits)

text \<open>While the parts are written, every output file holds exactly the bytes hashed so far.\<close>

definition tracked :: "string list \<Rightarrow> bytes list \<Rightarrow> disk \<Rightarrow> bool" where
  "tracked paths hashes d \<longleftrightarrow>
     distinct paths \<and> length hashes = length paths
     \<and> (\<forall>i < length paths. files d (paths ! i) = Some (hashes ! i))"

lemma tracked_write:
  assumes "tracked paths hashes d" "i < length paths"
  shows "tracked paths (hashes[i := hashes ! i @ out])
    (d\<lparr>files := (files d)(paths ! i \<mapsto> hashes ! i @ out), room := r\<rparr>)"
  using assms by (auto simp: tracked_def nth_eq_iff_index_eq nth_list_update)

lemma write_parts_sound:
  assumes "write_parts transform inputs count paths is hashes d = (d', Inr hashes')"
    "tracked paths hashes d" "distinct is" "set is \<subseteq> {..<length paths}"
  shows "tracked paths hashes' d'
    \<and> (\<forall>i < length paths. hashes' ! i
        = hashes ! i @ (if i \<in> set is then combine (transform ! i) inputs count else []))
    \<and> (\<forall>p. p \<notin> set paths \<longrightarrow> files d' p = files d p)
    \<and> room d' = room d - length is * count"
  using assms
proof (induction transform inputs count paths "is" hashes d rule: write_parts.induct)
  case (2 transform inputs count paths i "is" hashes d)
  let ?out = "combine (transform ! i) inputs count"
  let ?d = "d\<lparr>files := (files d)(paths ! i \<mapsto> hashes ! i @ ?out), room := room d - count\<rparr>"
  have i: "i < length paths" using 2(5) by simp
  have f: "files d (paths ! i) = Some (hashes ! i)" using 2(3) i by (simp add: tracked_def)
  have "count \<le> room d" and
    rest: "write_parts transform inputs count paths is (hashes[i := hashes ! i @ ?out]) ?d = (d', Inr hashes')"
    using 2(2) by (auto simp: Let_def st_then_Inr write_all_Inr [OF f])
  moreover have "write_all (paths ! i) ?out d = (?d, Inr ())"
    using \<open>count \<le> room d\<close> write_all_Inr [OF f] by simp
  moreover have "tracked paths (hashes[i := hashes ! i @ ?out]) ?d"
    by (rule tracked_write [OF 2(3) i])
  ultimately have ih: "tracked paths hashes' d'
    \<and> (\<forall>j < length paths. hashes' ! j = hashes[i := hashes ! i @ ?out] ! j
         @ (if j \<in> set is then combine (transform ! j) inputs count else []))
    \<and> (\<forall>p. p \<notin> set paths \<longrightarrow> files d' p = files ?d p) \<and> room d' = room ?d - length is * count"
    using 2(1) [OF refl, of ?d] 2(4,5) by (simp del: fun_upd_apply)
  have "paths ! i \<in> set paths" using i by simp
  moreover have "length hashes = length paths" using 2(3) by (simp add: tracked_def)
  ultimately have "hashes' ! j = hashes ! j
      @ (if j \<in> set (i # is) then combine (transform ! j) inputs count else [])"
    if "j < length paths" for j
    using ih 2(4) i that by (cases "j = i") auto
  then show ?case using ih \<open>paths ! i \<in> set paths\<close> by auto
qed auto

lemma write_parts_ok:
  assumes "tracked paths hashes d" "distinct is" "set is \<subseteq> {..<length paths}"
    "length is * count \<le> room d"
  shows "\<exists>d' hashes'. write_parts transform inputs count paths is hashes d = (d', Inr hashes')"
  using assms
proof (induction transform inputs count paths "is" hashes d rule: write_parts.induct)
  case (2 transform inputs count paths i "is" hashes d)
  let ?out = "combine (transform ! i) inputs count"
  let ?d = "d\<lparr>files := (files d)(paths ! i \<mapsto> hashes ! i @ ?out), room := room d - count\<rparr>"
  have i: "i < length paths" using 2(4) by simp
  have f: "files d (paths ! i) = Some (hashes ! i)" using 2(2) i by (simp add: tracked_def)
  have w: "write_all (paths ! i) ?out d = (?d, Inr ())"
    using 2(5) write_all_Inr [OF f] by simp
  have "tracked paths (hashes[i := hashes ! i @ ?out]) ?d" by (rule tracked_write [OF 2(2) i])
  moreover have "length is * count \<le> room ?d" using 2(5) by simp
  ultimately have "\<exists>d' hashes'. write_parts transform inputs count paths is
      (hashes[i := hashes ! i @ ?out]) ?d = (d', Inr hashes')"
    using 2(1) [OF refl] 2(3,4) by simp
  then show ?case using w by (simp add: Let_def)
qed simp

lemma combine_nil [simp]: "combine row inputs 0 = []"
  by (metis combine_length length_0_conv)

lemma combine_split:
  assumes "len = a + b" "length row = length readers" "\<And>r. r \<in> set readers \<Longrightarrow> len \<le> length r"
  shows "combine row (map (take len) readers) len
    = combine row (map (take a) readers) a @ combine row (map (take b) (map (drop a) readers)) b"
proof -
  have l: "a \<le> length (readers ! i)" "b \<le> length (readers ! i) - a" if "i < length readers" for i
    using assms(1) assms(3) [of "readers ! i"] that by simp_all
  let ?xs = "map (take a) readers" and ?ys = "map (take b) (map (drop a) readers)"
  have "map (take len) readers = map2 (@) ?xs ?ys"
    by (rule nth_equalityI) (simp_all add: assms(1) take_add)
  moreover have "combine row (map2 (@) ?xs ?ys) (a + b) = combine row ?xs a @ combine row ?ys b"
    by (rule combine_append [OF assms(2)]) (use l in \<open>auto simp: le_diff_conv2\<close>)
  ultimately show ?thesis using assms(1) by simp
qed

lemma stripes_sound:
  assumes "stripes transform paths n psize offset readers hashes d = (d', Inr hashes')"
    "tracked paths hashes d" "length paths = n" "length readers = k"
    "\<And>i. i < n \<Longrightarrow> length (transform ! i) = k"
  shows "(\<forall>r \<in> set readers. psize - offset \<le> length r)
    \<and> tracked paths hashes' d' \<and> (\<forall>p. p \<notin> set paths \<longrightarrow> files d' p = files d p)
    \<and> (\<forall>i < n. hashes' ! i = hashes ! i
        @ combine (transform ! i) (map (take (psize - offset)) readers) (psize - offset))"
  using assms
proof (induction transform paths n psize offset readers hashes d rule: stripes.induct)
  case (1 transform paths n psize offset readers hashes d)
  show ?case
  proof (cases "offset < psize")
    case False
    then show ?thesis using 1(2,3,4) by (simp add: stripes.simps combine_nil)
  next
    case True
    define count where "count = min STRIPE (psize - offset)"
    from 1(2) True obtain d1 hashes1 where
      long: "\<forall>r \<in> set readers. count \<le> length r" and
      w: "write_parts transform (map (take count) readers) count paths [0..<n] hashes d = (d1, Inr hashes1)" and
      s: "stripes transform paths n psize (offset + count) (map (drop count) readers) hashes1 d1 = (d', Inr hashes')"
      by (subst (asm) stripes.simps)
        (auto simp: count_def [symmetric] Let_def read_inputs_Inr split: sum.splits prod.splits)
    have wp: "tracked paths hashes1 d1
        \<and> (\<forall>i < n. hashes1 ! i = hashes ! i @ combine (transform ! i) (map (take count) readers) count)
        \<and> (\<forall>p. p \<notin> set paths \<longrightarrow> files d1 p = files d p)"
      using write_parts_sound [OF w 1(3)] 1(4) by (simp add: atLeast0LessThan)
    have rd: "read_inputs count readers = Inr (map (take count) readers, map (drop count) readers)"
      using long by (simp add: read_inputs_Inr)
    have ih: "(\<forall>r \<in> set (map (drop count) readers). psize - (offset + count) \<le> length r)
        \<and> tracked paths hashes' d' \<and> (\<forall>p. p \<notin> set paths \<longrightarrow> files d' p = files d1 p)
        \<and> (\<forall>i < n. hashes' ! i = hashes1 ! i @ combine (transform ! i)
            (map (take (psize - (offset + count))) (map (drop count) readers)) (psize - (offset + count)))"
      by (rule 1(1) [OF True count_def rd refl w [symmetric] refl s]) (use wp 1(4-6) in auto)
    have len: "psize - offset \<le> length r" if "r \<in> set readers" for r
      using ih long that by (force simp: count_def)
    have sum: "psize - offset = count + (psize - (offset + count))" by (auto simp: count_def)
    have "combine (transform ! i) (map (take (psize - offset)) readers) (psize - offset)
        = combine (transform ! i) (map (take count) readers) count
          @ combine (transform ! i) (map (take (psize - (offset + count))) (map (drop count) readers))
              (psize - (offset + count))" if "i < n" for i
      by (rule combine_split [OF sum]) (use 1(5,6) len that in auto)
    then show ?thesis using ih wp len by simp
  qed
qed

lemma stripes_ok:
  assumes "tracked paths hashes d" "length paths = n" "length readers = k"
    "\<forall>r \<in> set readers. psize - offset \<le> length r" "n * (psize - offset) \<le> room d"
  shows "\<exists>d' hashes'. stripes transform paths n psize offset readers hashes d = (d', Inr hashes')"
  using assms
proof (induction transform paths n psize offset readers hashes d rule: stripes.induct)
  case (1 transform paths n psize offset readers hashes d)
  show ?case
  proof (cases "offset < psize")
    case False
    then show ?thesis by (simp add: stripes.simps)
  next
    case True
    define count where "count = min STRIPE (psize - offset)"
    have sum: "psize - offset = count + (psize - (offset + count))" by (auto simp: count_def)
    then have nr: "n * (psize - offset) = n * count + n * (psize - (offset + count))"
      by (simp add: distrib_left)
    have rd: "read_inputs count readers = Inr (map (take count) readers, map (drop count) readers)"
      using 1(5) by (auto simp: read_inputs_Inr count_def)
    obtain d1 hashes1 where
      w: "write_parts transform (map (take count) readers) count paths [0..<n] hashes d = (d1, Inr hashes1)"
      using write_parts_ok [OF 1(2), of "[0..<n]" count transform "map (take count) readers"] 1(3,6) nr
      by (auto simp: atLeast0LessThan)
    have wp: "tracked paths hashes1 d1" "room d1 = room d - n * count"
      using write_parts_sound [OF w 1(2)] 1(3) by (simp_all add: atLeast0LessThan)
    have "\<exists>d' hashes'. stripes transform paths n psize (offset + count)
        (map (drop count) readers) hashes1 d1 = (d', Inr hashes')"
      by (rule 1(1) [OF True count_def rd refl w [symmetric] refl])
        (use wp 1(3-6) nr in auto)
    then show ?thesis
      using True by (subst stripes.simps) (simp add: count_def [symmetric] Let_def rd w)
  qed
qed

section \<open>The payload pass\<close>

definition pass_of :: "bytes \<Rightarrow> nat \<Rightarrow> payload_pass" where
  "pass_of hashed remaining =
     \<lparr>pp_hashed = hashed, pp_remaining = remaining, pp_header = take 8 hashed\<rparr>"

lemma pass_of_remaining [simp]: "pp_remaining (pass_of hashed remaining) = remaining"
  by (simp add: pass_of_def)

lemma length_concat_const: "\<forall>c \<in> set cs. length c = n \<Longrightarrow> length (concat cs) = length cs * n"
  by (induction cs) auto

lemma payload_file_spec:
  "payload_file left bs (pass_of hashed remaining) =
     (if left \<le> length bs then Inr (pass_of (hashed @ take left bs) (remaining - left))
      else Inl io_error)"
proof (induction left arbitrary: bs hashed remaining rule: less_induct)
  case (less left)
  show ?case
  proof (cases "left = 0")
    case True
    then show ?thesis by (simp add: payload_file.simps)
  next
    case False
    define count where "count = min STRIPE left"
    have count: "0 < count" "count \<le> left" using False by (auto simp: count_def STRIPE_def)
    have step: "payload_file left bs (pass_of hashed remaining) =
        (if count \<le> length bs
         then payload_file (left - count) (drop count bs) (pass_of (hashed @ take count bs) (remaining - count))
         else Inl io_error)"
      unfolding payload_file.simps [of left] count_def [symmetric] Let_def
      using False by (simp add: read_exact_def pass_of_def min.commute)
    have "take count bs @ take (left - count) (drop count bs) = take left bs"
      using count by (metis le_add_diff_inverse take_add)
    then show ?thesis
      unfolding step using less [of "left - count" "drop count bs"] count False
      by (simp add: le_diff_conv2)
  qed
qed

lemma payload_files_spec:
  assumes "map (files d) paths = map Some contents" "\<forall>c \<in> set contents. length c = psize"
  shows "payload_files d psize paths (pass_of hashed remaining)
    = Inr (pass_of (hashed @ take remaining (concat contents)) (remaining - length (concat contents)))"
  using assms
proof (induction paths arbitrary: contents hashed remaining)
  case (Cons p paths)
  then obtain c cs where c: "contents = c # cs" "files d p = Some c" "map (files d) paths = map Some cs"
    by (auto simp: Cons_eq_map_conv)
  have "payload_files d psize (p # paths) (pass_of hashed remaining)
      = payload_files d psize paths
          (pass_of (hashed @ take (min psize remaining) c) (remaining - min psize remaining))"
    using c Cons.prems(2) by (simp add: file_open_def payload_file_spec)
  also have "\<dots> = Inr (pass_of ((hashed @ take (min psize remaining) c)
      @ take (remaining - min psize remaining) (concat cs))
      (remaining - min psize remaining - length (concat cs)))"
    using Cons.IH [OF c(3)] Cons.prems(2) c(1) by simp
  finally show ?case using c Cons.prems(2) by (auto simp: min_def)
qed (simp add: pass_of_def)

lemma check_parts_Inr:
  "check_parts sha256_hex hashes parts = Inr u
     \<longleftrightarrow> (\<forall>i < min (length hashes) (length parts). sha256_hex (hashes ! i) = pt_sha256 (parts ! i))"
proof (induction sha256_hex hashes parts rule: check_parts.induct)
  case (1 sha256_hex h hashes p parts)
  then show ?case by (auto simp: nth_Cons less_Suc_eq_0_disj split: nat.splits)
qed auto

lemma verify_outputs_Inr:
  assumes "tracked paths hashes d" "\<forall>h \<in> set hashes. length h = psize" "m_required m \<le> length paths"
  shows "verify_outputs sha256_hex m psize paths hashes d = Inr out
    \<longleftrightarrow> (let payload = take (pl_size (m_payload m)) (concat (take (m_required m) hashes))
        in out = paths
          \<and> (\<forall>i < min (length hashes) (length (m_parts m)). sha256_hex (hashes ! i) = pt_sha256 (m_parts m ! i))
          \<and> pl_size (m_payload m) \<le> m_required m * psize
          \<and> sha256_hex payload = pl_sha256 (m_payload m) \<and> take 8 payload = MAGIC)"
proof -
  let ?k = "m_required m"
  have "map (files d) (take ?k paths) = map Some (take ?k hashes)"
    by (rule nth_equalityI) (use assms(1) in \<open>auto simp: tracked_def\<close>)
  moreover have sz: "\<forall>c \<in> set (take ?k hashes). length c = psize" using assms(2) by (meson in_set_takeD)
  ultimately have "payload_files d psize (take ?k paths) (pass_of [] (pl_size (m_payload m)))
      = Inr (pass_of (take (pl_size (m_payload m)) (concat (take ?k hashes)))
          (pl_size (m_payload m) - length (concat (take ?k hashes))))"
    using payload_files_spec [of d _ _ psize "[]"] by simp
  moreover have "length (concat (take ?k hashes)) = ?k * psize"
    using length_concat_const [OF sz] assms(1,3) by (simp add: tracked_def)
  ultimately show ?thesis
    by (auto simp: verify_outputs_def pass_of_def check_payload_def try_then_Inr check_parts_Inr Let_def)
qed

section \<open>Regeneration\<close>

lemma transform_for_Inr:
  assumes "transform_for m sources = Inr t" "length sources = m_required m"
  obtains g dec where "generator (m_required m) (m_total m) = Inr g"
    "invert (select_rows g (map fst sources)) = Inr dec" "t = product g dec"
    "set (map fst sources) \<subseteq> {..<m_total m}" "shape (m_total m) (m_required m) t"
    "m_required m < m_total m"
proof -
  from assms(1) obtain g dec where g: "generator (m_required m) (m_total m) = Inr g"
    "\<forall>s \<in> set sources. fst s < length g" "invert (select_rows g (map fst sources)) = Inr dec"
    "t = product g dec"
    by (auto simp: transform_for_def try_then_Inr not_le split: if_splits)
  have sub: "set (map fst sources) \<subseteq> {..<m_total m}"
    using g(2) shape_length [OF generator_shape [OF g(1)]] by auto
  have k: "0 < m_required m" "m_required m < m_total m"
    using g(1) by (auto elim: generator_unfold)
  have "shape (m_required m) (m_required m) (select_rows g (map fst sources))"
    using select_rows_shape [OF generator_shape [OF g(1)] sub] assms(2) by simp
  then have "shape (m_total m) (m_required m) t"
    using product_shape [OF generator_shape [OF g(1)] _ k(1)] invert_spec(1) [OF _ g(3)] g(4) by blast
  then show thesis using that g sub k by blast
qed

lemma coded_path_inj [simp]: "coded_path dir i = coded_path dir j \<longleftrightarrow> i = j"
  by (simp add: coded_path_def show_nat_inj)

lemma coded_paths_simps [simp]: "length (coded_paths dir n) = n" "i < n \<Longrightarrow> coded_paths dir n ! i = coded_path dir i"
  "distinct (coded_paths dir n)"
  by (auto simp: coded_paths_def distinct_map inj_on_def)

lemma create_tracked:
  assumes "create_outputs paths d = (d', Inr u)"
  shows "tracked paths (replicate (length paths) []) d'"
  using create_outputs_files [OF assms] by (auto simp: tracked_def)

text \<open>A successful regeneration, step by step.\<close>

lemma regenerate_run:
  assumes "regenerate sha256_hex m sources dir d = (d', Inr out)"
  obtains t readers p0 ps hashes where
    "length sources = m_required m" "transform_for m sources = Inr t"
    "map (\<lambda>s. files d (snd s)) sources = map Some readers" "m_parts m = p0 # ps"
    "tracked (coded_paths dir (m_total m)) hashes d'"
    "\<forall>r \<in> set readers. pt_size p0 \<le> length r"
    "\<forall>i < m_total m. hashes ! i = combine (t ! i) (map (take (pt_size p0)) readers) (pt_size p0)"
    "verify_outputs sha256_hex m (pt_size p0) (coded_paths dir (m_total m)) hashes d' = Inr out"
    "\<forall>p. p \<notin> set (coded_paths dir (m_total m)) \<longrightarrow> files d' p = files d p"
proof -
  let ?paths = "coded_paths dir (m_total m)"
  from assms obtain t readers d1 p0 ps hashes where
    s: "length sources = m_required m" "transform_for m sources = Inr t"
      "open_sources d sources = Inr readers" "create_outputs ?paths d = (d1, Inr ())"
      "m_parts m = p0 # ps"
      "stripes t ?paths (m_total m) (pt_size p0) 0 readers (replicate (m_total m) []) d1 = (d', Inr hashes)"
      "verify_outputs sha256_hex m (pt_size p0) ?paths hashes d' = Inr out"
    by (cases "m_parts m") (auto simp: regenerate_def st_then_Inr Let_def split: if_splits sum.splits)
  have r: "map (\<lambda>s. files d (snd s)) sources = map Some readers" using s(3) by (simp add: open_sources_Inr)
  then have len: "length readers = m_required m" using s(1) by (metis length_map)
  have row: "length (t ! i) = m_required m" if "i < m_total m" for i
    by (rule transform_for_Inr [OF s(2,1)]) (use that shape_row in blast)
  have tr: "tracked ?paths (replicate (m_total m) []) d1" using create_tracked [OF s(4)] by simp
  have "(\<forall>r \<in> set readers. pt_size p0 \<le> length r) \<and> tracked ?paths hashes d'
      \<and> (\<forall>p. p \<notin> set ?paths \<longrightarrow> files d' p = files d1 p)
      \<and> (\<forall>i < m_total m. hashes ! i = combine (t ! i) (map (take (pt_size p0)) readers) (pt_size p0))"
    using stripes_sound [OF s(6) tr _ len row] by simp
  then show thesis
    using that [OF s(1,2) r s(5)] s(7) create_outputs_files(3) [OF s(4)] by auto
qed

section \<open>Properties\<close>

lemma regenerated_hashes:
  assumes t: "transform_for m sources = Inr t" and g: "generator (m_required m) (m_total m) = Inr g"
    and data: "length data = m_required m" "\<And>c. c < m_required m \<Longrightarrow> length (data ! c) = len"
    and sources: "length sources = m_required m"
    and readers: "readers = map (encode_part g data len) (map fst sources)" and i: "i < m_total m"
  shows "combine (t ! i) (map (take len) readers) len = encode_part g data len i"
proof -
  from t g obtain dec where dec: "invert (select_rows g (map fst sources)) = Inr dec"
    "t = product g dec" "set (map fst sources) \<subseteq> {..<m_total m}"
    by (elim transform_for_Inr [OF _ sources]) simp
  have "map (take len) readers = map (encode_part g data len) (map fst sources)"
    by (simp add: readers)
  then show ?thesis
    using transform_parts [OF g dec(1) _ dec(3) data i] sources by (simp add: dec(2))
qed

lemma transform_for_ok:
  assumes g: "generator (m_required m) (m_total m) = Inr g"
    and "length sources = m_required m" "distinct (map fst sources)" "set (map fst sources) \<subseteq> {..<m_total m}"
  shows "\<exists>t. transform_for m sources = Inr t"
proof -
  note gs = generator_shape [OF g]
  have sh: "shape (m_required m) (m_required m) (select_rows g (map fst sources))"
    using select_rows_shape [OF gs assms(4)] assms(2) by simp
  obtain dec where "invert (select_rows g (map fst sources)) = Inr dec"
    using invert_succeeds [OF sh generator_rows_kernel [OF g assms(3) _ assms(4)]] assms(2) by auto
  moreover have "\<forall>s \<in> set sources. \<not> length g \<le> fst s"
    using assms(4) shape_length [OF gs] by auto
  ultimately show ?thesis using g by (auto simp: transform_for_def)
qed

lemma regenerate_writes:
  assumes t: "transform_for m sources = Inr t" "length sources = m_required m"
    and r: "map (\<lambda>s. files d (snd s)) sources = map Some readers" "\<forall>x \<in> set readers. length x = pt_size p0"
    and p: "m_parts m = p0 # ps"
    and o: "\<forall>i < m_total m. files d (coded_path dir i) = None \<and> \<not> refused d (coded_path dir i)"
      "m_total m * pt_size p0 \<le> room d"
  shows "\<exists>d' hashes. tracked (coded_paths dir (m_total m)) hashes d'
    \<and> (\<forall>i < m_total m. hashes ! i = combine (t ! i) (map (take (pt_size p0)) readers) (pt_size p0))
    \<and> regenerate sha256_hex m sources dir d
        = (d', verify_outputs sha256_hex m (pt_size p0) (coded_paths dir (m_total m)) hashes d')"
proof -
  let ?paths = "coded_paths dir (m_total m)"
  have len: "length readers = m_required m" using r(1) t(2) by (metis length_map)
  have "\<forall>p \<in> set ?paths. files d p = None \<and> \<not> refused d p" using o(1) by (auto simp: coded_paths_def)
  then obtain d1 where c: "create_outputs ?paths d = (d1, Inr ())" using create_outputs_ok [of ?paths d] by auto
  have tr: "tracked ?paths (replicate (m_total m) []) d1" using create_tracked [OF c] by simp
  obtain d' hashes where
    s: "stripes t ?paths (m_total m) (pt_size p0) 0 readers (replicate (m_total m) []) d1 = (d', Inr hashes)"
    using stripes_ok [OF tr _ len, of "m_total m" "pt_size p0" 0 t] r(2) o(2) create_outputs_files(2) [OF c] by auto
  have row: "length (t ! i) = m_required m" if "i < m_total m" for i
    by (rule transform_for_Inr [OF t]) (use that shape_row in blast)
  have "tracked ?paths hashes d'
      \<and> (\<forall>i < m_total m. hashes ! i = combine (t ! i) (map (take (pt_size p0)) readers) (pt_size p0))"
    using stripes_sound [OF s tr _ len row] by simp
  moreover have "regenerate sha256_hex m sources dir d
      = (d', verify_outputs sha256_hex m (pt_size p0) ?paths hashes d')"
    using t r(1) c s p by (simp add: regenerate_def Let_def open_sources_Inr [THEN iffD2])
  ultimately show ?thesis by blast
qed

lemma encode_systematic_data:
  assumes g: "generator k n = Inr g" and data: "length data = k" "\<forall>c \<in> set data. length c = len"
  shows "map (encode_part g data len) [0..<k] = data"
  by (rule nth_equalityI) (use data encode_part_systematic [OF g data(1)] in simp_all)

lemma regenerate_encoded:
  assumes g: "generator (m_required m) (m_total m) = Inr g"
    and data: "length data = m_required m" "\<forall>c \<in> set data. length c = len"
    and parts: "m_parts m = p0 # ps" "pt_size p0 = len"
      "map pt_sha256 (m_parts m) = map (\<lambda>i. sha256_hex (encode_part g data len i)) [0..<m_total m]"
    and payload: "pl_size (m_payload m) \<le> m_required m * len"
      "pl_sha256 (m_payload m) = sha256_hex (take (pl_size (m_payload m)) (concat data))"
      "take 8 (take (pl_size (m_payload m)) (concat data)) = MAGIC"
    and sources: "length sources = m_required m" "distinct (map fst sources)"
      "set (map fst sources) \<subseteq> {..<m_total m}"
      "\<forall>s \<in> set sources. files d (snd s) = Some (encode_part g data len (fst s))"
    and outputs: "\<forall>i < m_total m. files d (coded_path dir i) = None \<and> \<not> refused d (coded_path dir i)"
      "m_total m * len \<le> room d"
  shows "\<exists>d'. regenerate sha256_hex m sources dir d = (d', Inr (coded_paths dir (m_total m)))
    \<and> (\<forall>i < m_total m. files d' (coded_path dir i) = Some (encode_part g data len i))"
proof -
  let ?readers = "map (encode_part g data len) (map fst sources)" and ?paths = "coded_paths dir (m_total m)"
  have kn: "m_required m < m_total m" using g by (elim generator_unfold)
  obtain t where t: "transform_for m sources = Inr t" using transform_for_ok [OF g sources(1-3)] by blast
  have r: "map (\<lambda>s. files d (snd s)) sources = map Some ?readers" using sources(4) by simp
  obtain d' hashes where tr: "tracked ?paths hashes d'"
    and h: "\<forall>i < m_total m. hashes ! i = combine (t ! i) (map (take len) ?readers) len"
    and run: "regenerate sha256_hex m sources dir d = (d', verify_outputs sha256_hex m len ?paths hashes d')"
    using regenerate_writes [OF t sources(1) r _ parts(1) outputs(1), of sha256_hex] outputs(2) parts(2)
    by auto
  have h': "hashes ! i = encode_part g data len i" if "i < m_total m" for i
    using h regenerated_hashes [OF t g data(1) _ sources(1) refl that] data that by simp
  then have hashes: "hashes = map (encode_part g data len) [0..<m_total m]"
    using tr by (auto intro!: nth_equalityI simp: tracked_def)
  have "take (m_required m) hashes = data"
    using encode_systematic_data [OF g data] kn by (simp add: hashes take_map)
  moreover have "sha256_hex (hashes ! i) = pt_sha256 (m_parts m ! i)" if "i < m_total m" "i < length (m_parts m)" for i
    using parts(3) that h' by (metis (no_types, lifting) add_0 diff_zero length_map length_upt nth_map nth_upt)
  ultimately have "verify_outputs sha256_hex m len ?paths hashes d' = Inr ?paths"
    using payload kn by (subst verify_outputs_Inr [OF tr]) (auto simp: hashes Let_def)
  then show ?thesis using run tr h' by (auto simp: tracked_def)
qed

lemma regenerate_outputs:
  assumes "regenerate sha256_hex m sources dir d = (d', Inr out)"
  shows "out = coded_paths dir (m_total m)
    \<and> (\<exists>coded. length coded = m_total m
        \<and> (\<forall>i < m_total m. files d' (coded_path dir i) = Some (coded ! i)
             \<and> length (coded ! i) = pt_size (hd (m_parts m)))
        \<and> (\<forall>i < min (m_total m) (length (m_parts m)). sha256_hex (coded ! i) = pt_sha256 (m_parts m ! i))
        \<and> (let payload = take (pl_size (m_payload m)) (concat (take (m_required m) coded))
           in length payload = pl_size (m_payload m) \<and> sha256_hex payload = pl_sha256 (m_payload m)
             \<and> take 8 payload = MAGIC))
    \<and> (\<forall>p. (\<forall>i < m_total m. p \<noteq> coded_path dir i) \<longrightarrow> files d' p = files d p)"
proof -
  from assms obtain t readers p0 ps hashes where run: "length sources = m_required m"
      "transform_for m sources = Inr t" "m_parts m = p0 # ps"
      "tracked (coded_paths dir (m_total m)) hashes d'"
      "\<forall>i < m_total m. hashes ! i = combine (t ! i) (map (take (pt_size p0)) readers) (pt_size p0)"
      "verify_outputs sha256_hex m (pt_size p0) (coded_paths dir (m_total m)) hashes d' = Inr out"
      "\<forall>p. p \<notin> set (coded_paths dir (m_total m)) \<longrightarrow> files d' p = files d p"
    by (elim regenerate_run)
  have kn: "m_required m \<le> m_total m" by (rule transform_for_Inr [OF run(2,1)]) simp
  have len: "length hashes = m_total m" and fl: "\<forall>i < m_total m. files d' (coded_path dir i) = Some (hashes ! i)"
    using run(4) by (auto simp: tracked_def)
  have sz: "\<forall>h \<in> set hashes. length h = pt_size p0" using run(5) len by (auto simp: in_set_conv_nth)
  then have sz': "\<forall>h \<in> set (take (m_required m) hashes). length h = pt_size p0" by (meson in_set_takeD)
  have "length (concat (take (m_required m) hashes)) = m_required m * pt_size p0"
    using length_concat_const [OF sz'] kn len by simp
  moreover have "files d' p = files d p" if "\<forall>i < m_total m. p \<noteq> coded_path dir i" for p
    using run(7) [rule_format, of p] that by (fastforce simp: coded_paths_def)
  ultimately show ?thesis
    using run(3,6) verify_outputs_Inr [OF run(4) sz, of m sha256_hex out] kn len fl run(5)
    by (auto simp: Let_def intro!: exI [of _ hashes])
qed

text \<open>Regeneration of a receipt with parts from sources in range never panics.\<close>

lemma generator_error: "generator k n = Inl e \<Longrightarrow> e = Internal"
  by (auto simp: generator_def Let_def try_then_Inl dest: invert_error split: if_splits)

lemma read_exact_error: "read_exact n r = Inl e \<Longrightarrow> e = io_error"
  by (auto simp: read_exact_def split: if_splits)

lemma file_open_error: "file_open d p = Inl e \<Longrightarrow> e = io_error"
  by (auto simp: file_open_def ok_or_def split: option.splits)

lemma write_all_error: "write_all p bs d = (d', Inl e) \<Longrightarrow> e = io_error"
  by (auto simp: write_all_def Let_def split: if_splits)

lemma open_sources_error: "open_sources d sources = Inl e \<Longrightarrow> e = io_error"
  by (induction d sources rule: open_sources.induct) (auto simp: try_then_Inl dest: file_open_error)

lemma create_outputs_error: "create_outputs paths d = (d', Inl e) \<Longrightarrow> e = io_error"
  by (induction paths arbitrary: d) (auto simp: create_new_def st_then_def split: if_splits)

lemma read_inputs_error: "read_inputs count readers = Inl e \<Longrightarrow> e = io_error"
  by (induction readers) (auto simp: try_then_Inl dest: read_exact_error)

lemma write_parts_error: "write_parts t inputs count paths is hashes d = (d', Inl e) \<Longrightarrow> e = io_error"
  by (induction "is" arbitrary: hashes d)
    (auto simp: Let_def st_then_def dest: write_all_error split: prod.splits sum.splits)

lemma stripes_error: "stripes t paths n psize offset readers hashes d = (d', Inl e) \<Longrightarrow> e = io_error"
proof (induction t paths n psize offset readers hashes d rule: stripes.induct)
  case (1 t paths n psize offset readers hashes d)
  show ?case
    using 1(2) by (subst (asm) stripes.simps)
      (auto simp: Let_def dest: read_inputs_error write_parts_error 1(1) [OF _ refl _ refl] split: if_splits sum.splits prod.splits)
qed

lemma payload_file_error: "payload_file left bs st = Inl e \<Longrightarrow> e = io_error"
proof (induction left bs st rule: payload_file.induct)
  case (1 left bs st)
  show ?case
    using 1(2) by (subst (asm) payload_file.simps)
      (auto simp: Let_def dest: read_exact_error 1(1) [OF _ refl _ refl refl] split: if_splits sum.splits prod.splits)
qed

lemma payload_files_error: "payload_files d psize paths st = Inl e \<Longrightarrow> e = io_error"
  by (induction paths arbitrary: st) (auto simp: try_then_Inl dest: file_open_error payload_file_error)

lemma check_parts_error: "check_parts sha hashes parts = Inl e \<Longrightarrow> e \<noteq> Panic"
  by (induction sha hashes parts rule: check_parts.induct) (auto split: if_splits)

lemma regenerate_no_panic:
  assumes "regenerate sha m sources dir d = (d', Inl e)" "m_parts m \<noteq> []" "\<forall>s \<in> set sources. fst s < m_total m"
  shows "e \<noteq> Panic"
proof -
  have t: "e \<noteq> Panic" if "transform_for m sources = Inl e"
    using that assms(3) shape_length [OF generator_shape, of "m_required m" "m_total m"]
    by (auto simp: transform_for_def try_then_Inl dest: generator_error invert_error split: if_splits)
  have v: "e \<noteq> Panic" if "verify_outputs sha m psize paths hashes d2 = Inl e" for psize paths hashes d2
    using that by (auto simp: verify_outputs_def try_then_Inl check_payload_def io_error_def
        dest: check_parts_error payload_files_error split: if_splits)
  show ?thesis
    using assms(1,2) t v
    by (cases "m_parts m") (auto simp: regenerate_def Let_def st_then_def io_error_def
        dest: open_sources_error create_outputs_error stripes_error split: if_splits sum.splits prod.splits)
qed

text \<open>A \<open>2\<close>-of-\<open>3\<close> receipt over a payload of two eight-byte shards; the digest is the text of the bytes.\<close>

definition digest_text :: "bytes \<Rightarrow> string" where
  "digest_text bs = map (\<lambda>b. char_of (unat b)) bs"

definition sample_data :: "bytes list" where
  "sample_data = [MAGIC, [1, 2, 3, 4, 5, 6, 7, 8]]"

definition sample_generator :: matrix where
  "sample_generator = [[1, 0], [0, 1], [3, 2]]"

definition sample_part :: "nat \<Rightarrow> part" where
  "sample_part i = \<lparr>pt_index = i, pt_sha256 = digest_text (encode_part sample_generator sample_data 8 i),
     pt_size = 8, pt_targets = []\<rparr>"

definition sample_manifest :: manifest where
  "sample_manifest = \<lparr>manifest_type = [], m_version = 1, m_mode = [], m_profile = [],
     m_payload = \<lparr>pl_sha256 = digest_text (take 15 (concat sample_data)), pl_size = 15, pl_encryption = []\<rparr>,
     m_required = 2, m_total = 3, m_copies = 1, m_parts = map sample_part [0, 1, 2]\<rparr>"

definition sample_disk :: disk where
  "sample_disk = \<lparr>files = [''a'' \<mapsto> encode_part sample_generator sample_data 8 2,
     ''b'' \<mapsto> encode_part sample_generator sample_data 8 1], refused = (\<lambda>p. False), room = 24\<rparr>"

lemma sample_generator: "generator 2 3 = Inr sample_generator"
  unfolding sample_generator_def by code_simp

lemma coded_path_not_sample: "coded_path ''out'' i \<noteq> ''a''" "coded_path ''out'' i \<noteq> ''b''"
  by (simp_all add: coded_path_def path_join_def)

lemma sample_fields [simp]: "m_required sample_manifest = 2" "m_total sample_manifest = 3"
  "m_parts sample_manifest = [sample_part 0, sample_part 1, sample_part 2]"
  "pl_size (m_payload sample_manifest) = 15"
  "pl_sha256 (m_payload sample_manifest) = digest_text (take 15 (concat sample_data))"
  "pt_size (sample_part i) = 8"
  "pt_sha256 (sample_part i) = digest_text (encode_part sample_generator sample_data 8 i)"
  by (simp_all add: sample_manifest_def sample_part_def)

lemma sample_facts: "length sample_data = 2" "\<forall>c \<in> set sample_data. length c = 8"
  "[0..<3] = [0, 1, 2 :: nat]" "take 8 (take 15 (concat sample_data)) = MAGIC"
  "\<forall>s \<in> set [(2, ''a''), (1, ''b'')].
     files sample_disk (snd s) = Some (encode_part sample_generator sample_data 8 (fst s))"
  "\<forall>i<3. files sample_disk (coded_path ''out'' i) = None \<and> \<not> refused sample_disk (coded_path ''out'' i)"
  "room sample_disk = 24"
  by (simp_all add: sample_data_def sample_disk_def coded_path_not_sample upt_rec numeral_eq_Suc)

lemma sample_run:
  "\<exists>d'. regenerate digest_text sample_manifest [(2, ''a''), (1, ''b'')] ''out'' sample_disk
        = (d', Inr (coded_paths ''out'' 3))"
  using regenerate_encoded [of sample_manifest sample_generator sample_data 8 "sample_part 0"
      "[sample_part 1, sample_part 2]" digest_text "[(2, ''a''), (1, ''b'')]" sample_disk "''out''"]
    sample_facts sample_generator by auto

text \<open>C1: Repair regenerates every part. When \<open>k\<close> source files with distinct indices hold their
  parts of an encoded payload and the receipt carries the digests of that encoding,
  regeneration succeeds and every output file holds exactly its part.\<close>

theorem regenerate_any_k:
  assumes g: "generator (m_required m) (m_total m) = Inr g"
    and data: "length data = m_required m" "\<forall>c \<in> set data. length c = len"
    and parts: "m_parts m = p0 # ps" "pt_size p0 = len"
      "map pt_sha256 (m_parts m) = map (\<lambda>i. sha256_hex (encode_part g data len i)) [0..<m_total m]"
    and payload: "pl_size (m_payload m) \<le> m_required m * len"
      "pl_sha256 (m_payload m) = sha256_hex (take (pl_size (m_payload m)) (concat data))"
      "take 8 (take (pl_size (m_payload m)) (concat data)) = MAGIC"
    and sources: "length sources = m_required m" "distinct (map fst sources)"
      "set (map fst sources) \<subseteq> {..<m_total m}"
      "\<forall>s \<in> set sources. files d (snd s) = Some (encode_part g data len (fst s))"
    and outputs: "\<forall>i < m_total m. files d (coded_path dir i) = None \<and> \<not> refused d (coded_path dir i)"
      "m_total m * len \<le> room d"
  shows "\<exists>d'. regenerate sha256_hex m sources dir d = (d', Inr (coded_paths dir (m_total m)))
    \<and> (\<forall>i < m_total m. files d' (coded_path dir i) = Some (encode_part g data len i))"
  using assms by (rule regenerate_encoded)

theorem regenerate_any_k_witness:
  "\<exists>d'. regenerate digest_text sample_manifest [(2, ''a''), (1, ''b'')] ''out'' sample_disk
        = (d', Inr (coded_paths ''out'' 3))
    \<and> (\<forall>i < 3. files d' (coded_path ''out'' i) = Some (encode_part sample_generator sample_data 8 i))"
  using regenerate_any_k [of sample_manifest sample_generator sample_data 8 "sample_part 0"
      "[sample_part 1, sample_part 2]" digest_text "[(2, ''a''), (1, ''b'')]" sample_disk "''out''"]
    sample_facts sample_generator by auto

text \<open>C9: What regeneration reports as done is what the receipt signed. On success every coded file
  has the part size and the signed digest, the systematic files spell a payload of the signed
  length and digest that starts with the envelope magic, and no other file has changed.\<close>

theorem regenerate_sound:
  assumes "regenerate sha256_hex m sources dir d = (d', Inr out)"
  shows "out = coded_paths dir (m_total m)
    \<and> (\<exists>coded. length coded = m_total m
        \<and> (\<forall>i < m_total m. files d' (coded_path dir i) = Some (coded ! i)
             \<and> length (coded ! i) = pt_size (hd (m_parts m)))
        \<and> (\<forall>i < min (m_total m) (length (m_parts m)). sha256_hex (coded ! i) = pt_sha256 (m_parts m ! i))
        \<and> (let payload = take (pl_size (m_payload m)) (concat (take (m_required m) coded))
           in length payload = pl_size (m_payload m) \<and> sha256_hex payload = pl_sha256 (m_payload m)
             \<and> take 8 payload = MAGIC))
    \<and> (\<forall>p. (\<forall>i < m_total m. p \<noteq> coded_path dir i) \<longrightarrow> files d' p = files d p)"
  using assms by (rule regenerate_outputs)

theorem regenerate_sound_witness:
  "\<exists>d'. regenerate digest_text sample_manifest [(2, ''a''), (1, ''b'')] ''out'' sample_disk
        = (d', Inr (coded_paths ''out'' 3)) \<and> files d' ''a'' = files sample_disk ''a''"
proof -
  obtain d' where "regenerate digest_text sample_manifest [(2, ''a''), (1, ''b'')] ''out'' sample_disk
        = (d', Inr (coded_paths ''out'' 3))" using sample_run by blast
  from this regenerate_sound [OF this] show ?thesis using coded_path_not_sample by (metis sample_fields(2))
qed

end
