(* ===== verification/Envelope_Name.thy ===== *)
theory Envelope_Name
  imports Envelope_Format "HOL-Library.Sublist"
begin

text \<open>
  The canonical metadata rules of \<open>crates/envelope/src/name.rs\<close>. Unicode normalisation
  (\<open>unicode_normalization\<close>) and Unicode lower-casing are the parameters \<open>nfc\<close> and
  \<open>lowercase\<close>; the laws the code relies on are the predicates \<open>nfc_laws\<close> and
  \<open>lowercase_laws\<close>.
\<close>

section \<open>Definitions\<close>

definition MAX_NAME_UTF16 :: nat where "MAX_NAME_UTF16 = 180"
definition MAX_MEDIA_TYPE_UTF16 :: nat where "MAX_MEDIA_TYPE_UTF16 = 255"

definition is_js_whitespace :: "nat \<Rightarrow> bool" where
  "is_js_whitespace c \<longleftrightarrow>
     c \<in> {0x9, 0xA, 0xB, 0xC, 0xD, 0x20, 0xA0, 0x1680, 0x2028, 0x2029, 0x202F, 0x205F, 0x3000, 0xFEFF}
     \<or> (0x2000 \<le> c \<and> c \<le> 0x200A)"

definition is_control :: "nat \<Rightarrow> bool" where
  "is_control c \<longleftrightarrow> c \<le> 0x1F \<or> c = 0x7F"

definition is_separator :: "nat \<Rightarrow> bool" where
  "is_separator c \<longleftrightarrow> c = 0x2F \<or> c = 0x5C"

definition len_utf16 :: "nat \<Rightarrow> nat" where
  "len_utf16 c = (if c < 0x10000 then 1 else 2)"

definition utf16_count :: "utext \<Rightarrow> nat" where
  "utf16_count s = sum_list (map len_utf16 s)"

definition leaf :: "utext \<Rightarrow> utext" where
  "leaf s = rev (takeWhile (\<lambda>c. \<not> is_separator c) (rev s))"

definition is_forbidden :: "nat \<Rightarrow> bool" where
  "is_forbidden c \<longleftrightarrow> c \<in> {0x3C, 0x3E, 0x3A, 0x22, 0x7C, 0x3F, 0x2A}"

definition replace_forbidden :: "nat \<Rightarrow> nat" where
  "replace_forbidden c = (if is_forbidden c then 0x5F else c)"

definition trim_start :: "utext \<Rightarrow> utext" where
  "trim_start s = dropWhile (\<lambda>c. c = 0x2E \<or> is_js_whitespace c) s"

definition trim_end :: "utext \<Rightarrow> utext" where
  "trim_end s = rev (dropWhile is_js_whitespace (rev s))"

definition blob_bin :: utext where
  "blob_bin = [0x62, 0x6C, 0x6F, 0x62, 0x2E, 0x62, 0x69, 0x6E]"

fun take_utf16 :: "nat \<Rightarrow> utext \<Rightarrow> utext" where
  "take_utf16 units [] = []"
| "take_utf16 units (c # s) =
     (if units + len_utf16 c > MAX_NAME_UTF16 then []
      else c # take_utf16 (units + len_utf16 c) s)"

definition sanitise_name :: "(utext \<Rightarrow> utext) \<Rightarrow> utext \<Rightarrow> utext" where
  "sanitise_name nfc v =
     (let without_controls = filter (\<lambda>c. \<not> is_control c) (leaf v);
          mapped = map replace_forbidden (nfc without_controls);
          trimmed = trim_end (trim_start mapped);
          fallback = (if trimmed = [] then blob_bin else trimmed)
      in if utf16_count fallback \<le> MAX_NAME_UTF16 then fallback
         else trim_end (take_utf16 0 fallback))"

definition octet_stream :: utext where
  "octet_stream = map (\<lambda>c. of_char c) ''application/octet-stream''"

definition normalise_media_type :: "(utext \<Rightarrow> utext) \<Rightarrow> utext \<Rightarrow> envelope_error + utext" where
  "normalise_media_type lowercase v =
     (let lowered = (if v = [] then octet_stream else lowercase v)
      in if utf16_count lowered > MAX_MEDIA_TYPE_UTF16 \<or> (\<exists>c \<in> set lowered. is_control c)
         then Inl E_MediaType else Inr lowered)"

section \<open>What the Unicode libraries promise\<close>

text \<open>
  Normalisation is idempotent, leaves ASCII text alone, is closed under substrings, is not
  disturbed by an underscore in place of an ASCII punctuation mark, and never produces an ASCII
  control or path separator that its input did not have.
\<close>

definition nfc_laws :: "(utext \<Rightarrow> utext) \<Rightarrow> bool" where
  "nfc_laws nfc \<longleftrightarrow>
     (\<forall>s. nfc (nfc s) = nfc s)
     \<and> (\<forall>s. (\<forall>c \<in> set s. c < 128) \<longrightarrow> nfc s = s)
     \<and> (\<forall>s t. nfc s = s \<and> sublist t s \<longrightarrow> nfc t = t)
     \<and> (\<forall>s. nfc s = s \<longrightarrow> nfc (map replace_forbidden s) = map replace_forbidden s)
     \<and> (\<forall>s c. c \<in> set (nfc s) \<and> (is_control c \<or> is_separator c) \<longrightarrow> c \<in> set s)"

text \<open>Lower-casing is idempotent, keeps text non-empty and leaves ASCII without capitals alone.\<close>

definition lowercase_laws :: "(utext \<Rightarrow> utext) \<Rightarrow> bool" where
  "lowercase_laws lowercase \<longleftrightarrow>
     (\<forall>s. lowercase (lowercase s) = lowercase s)
     \<and> (\<forall>s. s \<noteq> [] \<longrightarrow> lowercase s \<noteq> [])
     \<and> (\<forall>s. (\<forall>c \<in> set s. c < 128 \<and> \<not> (0x41 \<le> c \<and> c \<le> 0x5A)) \<longrightarrow> lowercase s = s)"

section \<open>Canonical names\<close>

text \<open>The names the decoder accepts.\<close>

definition clean_name :: "utext \<Rightarrow> bool" where
  "clean_name s \<longleftrightarrow>
     s \<noteq> [] \<and> utf16_count s \<le> MAX_NAME_UTF16
     \<and> (\<forall>c \<in> set s. \<not> is_control c \<and> \<not> is_separator c \<and> \<not> is_forbidden c)
     \<and> hd s \<noteq> 0x2E \<and> \<not> is_js_whitespace (hd s) \<and> \<not> is_js_whitespace (last s)"

lemma trim_start_sublist: "sublist (trim_start s) s"
  unfolding trim_start_def by (rule suffix_imp_sublist) (rule suffix_dropWhile)

lemma trim_end_prefix: "prefix (trim_end s) s"
  unfolding trim_end_def by (metis suffix_dropWhile suffix_to_prefix rev_rev_ident)

lemma trim_subset: "set (trim_end (trim_start s)) \<subseteq> set s"
  by (metis set_mono_prefix set_mono_sublist subset_trans trim_end_prefix trim_start_sublist)

lemma take_utf16_prefix: "prefix (take_utf16 units s) s"
  by (induction units s rule: take_utf16.induct) auto

lemma take_utf16_count: "units + utf16_count (take_utf16 units s) \<le> MAX_NAME_UTF16 \<or> take_utf16 units s = []"
proof (induction units s rule: take_utf16.induct)
  case (2 units c s)
  then show ?case by (auto simp: utf16_count_def not_less)
qed simp

lemma utf16_count_prefix: "prefix s t \<Longrightarrow> utf16_count s \<le> utf16_count t"
  by (auto simp: prefix_def utf16_count_def)

lemma trim_end_last: "trim_end s \<noteq> [] \<Longrightarrow> \<not> is_js_whitespace (last (trim_end s))"
  unfolding trim_end_def by (simp add: last_rev) (metis dropWhile_eq_Nil_conv hd_dropWhile set_rev)

lemma trim_start_hd: "trim_start s \<noteq> [] \<Longrightarrow> hd (trim_start s) \<noteq> 0x2E \<and> \<not> is_js_whitespace (hd (trim_start s))"
  unfolding trim_start_def by (metis (mono_tags, lifting) hd_dropWhile)

lemma trim_end_nonempty: "s \<noteq> [] \<Longrightarrow> \<not> is_js_whitespace (hd s) \<Longrightarrow> trim_end s \<noteq> []"
  unfolding trim_end_def by (auto simp: dropWhile_eq_Nil_conv)

lemma prefix_hd: "prefix s t \<Longrightarrow> s \<noteq> [] \<Longrightarrow> hd s = hd t"
  by (auto simp: prefix_def)

lemma trim_start_id: "s \<noteq> [] \<Longrightarrow> hd s \<noteq> 0x2E \<Longrightarrow> \<not> is_js_whitespace (hd s) \<Longrightarrow> trim_start s = s"
  by (cases s) (auto simp: trim_start_def)

lemma trim_end_id: "s \<noteq> [] \<Longrightarrow> \<not> is_js_whitespace (last s) \<Longrightarrow> trim_end s = s"
  by (cases s rule: rev_cases) (auto simp: trim_end_def)

text \<open>The name before truncation, and the truncated one.\<close>

definition untruncated :: "(utext \<Rightarrow> utext) \<Rightarrow> utext \<Rightarrow> utext" where
  "untruncated nfc v =
     (let trimmed = trim_end (trim_start (map replace_forbidden (nfc (filter (\<lambda>c. \<not> is_control c) (leaf v)))))
      in if trimmed = [] then blob_bin else trimmed)"

lemma sanitise_name_eq:
  "sanitise_name nfc v =
     (let u = untruncated nfc v
      in if utf16_count u \<le> MAX_NAME_UTF16 then u else trim_end (take_utf16 0 u))"
  by (simp add: sanitise_name_def untruncated_def Let_def)

lemma untruncated_hd:
  "untruncated nfc v \<noteq> [] \<and> hd (untruncated nfc v) \<noteq> 0x2E
     \<and> \<not> is_js_whitespace (hd (untruncated nfc v)) \<and> \<not> is_js_whitespace (last (untruncated nfc v))"
proof -
  define m where "m = trim_start (map replace_forbidden (nfc (filter (\<lambda>c. \<not> is_control c) (leaf v))))"
  show ?thesis
  proof (cases "trim_end m = []")
    case True
    then show ?thesis
      by (simp add: untruncated_def m_def [symmetric] Let_def blob_bin_def is_js_whitespace_def)
  next
    case False
    then have "m \<noteq> []" by (auto simp: trim_end_def)
    moreover have "hd (trim_end m) = hd m" using prefix_hd [OF trim_end_prefix False] .
    ultimately show ?thesis
      using False trim_start_hd [of "map replace_forbidden (nfc (filter (\<lambda>c. \<not> is_control c) (leaf v)))"]
        trim_end_last [OF False]
      by (simp add: untruncated_def m_def [symmetric] Let_def)
  qed
qed

lemma sanitise_name_prefix: "prefix (sanitise_name nfc v) (untruncated nfc v)"
  using trim_end_prefix take_utf16_prefix
  by (auto simp: sanitise_name_eq Let_def intro: prefix_order.trans)

lemma sanitise_name_nonempty: "sanitise_name nfc v \<noteq> []"
proof -
  let ?u = "untruncated nfc v"
  obtain c s where u: "?u = c # s" using untruncated_hd [of nfc v] by (cases ?u) auto
  then have "\<not> is_js_whitespace c" using untruncated_hd [of nfc v] by simp
  moreover have "take_utf16 0 ?u \<noteq> [] \<and> hd (take_utf16 0 ?u) = c"
    by (simp add: u MAX_NAME_UTF16_def len_utf16_def)
  ultimately have "trim_end (take_utf16 0 ?u) \<noteq> []" using trim_end_nonempty by metis
  then show ?thesis using untruncated_hd [of nfc v] by (simp add: sanitise_name_eq Let_def)
qed

lemma sanitise_name_ends:
  "hd (sanitise_name nfc v) \<noteq> 0x2E" "\<not> is_js_whitespace (hd (sanitise_name nfc v))"
  "\<not> is_js_whitespace (last (sanitise_name nfc v))"
proof -
  have "hd (sanitise_name nfc v) = hd (untruncated nfc v)"
    by (rule prefix_hd [OF sanitise_name_prefix sanitise_name_nonempty])
  then show "hd (sanitise_name nfc v) \<noteq> 0x2E" "\<not> is_js_whitespace (hd (sanitise_name nfc v))"
    using untruncated_hd [of nfc v] by simp_all
  show "\<not> is_js_whitespace (last (sanitise_name nfc v))"
    using untruncated_hd [of nfc v] sanitise_name_nonempty [of nfc v] trim_end_last
    by (auto simp: sanitise_name_eq Let_def split: if_splits)
qed

lemma sanitise_name_utf16: "utf16_count (sanitise_name nfc v) \<le> MAX_NAME_UTF16"
proof (cases "utf16_count (untruncated nfc v) \<le> MAX_NAME_UTF16")
  case False
  have "utf16_count (take_utf16 0 (untruncated nfc v)) \<le> MAX_NAME_UTF16"
    using take_utf16_count [of 0 "untruncated nfc v"] by (auto simp: utf16_count_def)
  then show ?thesis
    using False utf16_count_prefix [OF trim_end_prefix, of "take_utf16 0 (untruncated nfc v)"]
    by (simp add: sanitise_name_eq Let_def)
qed (simp add: sanitise_name_eq Let_def)

lemma leaf_no_separator: "c \<in> set (leaf s) \<Longrightarrow> \<not> is_separator c"
  by (auto simp: leaf_def dest: set_takeWhileD)

lemma replace_forbidden_cases: "replace_forbidden c = c \<and> \<not> is_forbidden c \<or> replace_forbidden c = 0x5F"
  by (simp add: replace_forbidden_def)

lemma underscore_clean: "\<not> is_control 0x5F \<and> \<not> is_separator 0x5F \<and> \<not> is_forbidden 0x5F"
  by (simp add: is_control_def is_separator_def is_forbidden_def)

lemma nfc_chars:
  assumes "nfc_laws nfc" "c \<in> set (nfc s)" "is_control c \<or> is_separator c"
  shows "c \<in> set s"
proof -
  have "\<forall>s c. c \<in> set (nfc s) \<and> (is_control c \<or> is_separator c) \<longrightarrow> c \<in> set s"
    using assms(1) unfolding nfc_laws_def by (elim conjE)
  then show ?thesis using assms(2,3) by blast
qed

lemma nfc_sublist:
  assumes "nfc_laws nfc" "nfc s = s" "sublist t s"
  shows "nfc t = t"
proof -
  have "\<forall>s t. nfc s = s \<and> sublist t s \<longrightarrow> nfc t = t"
    using assms(1) unfolding nfc_laws_def by (elim conjE)
  then show ?thesis using assms(2,3) by metis
qed

lemma untruncated_chars:
  assumes "nfc_laws nfc" "c \<in> set (untruncated nfc v)"
  shows "\<not> is_control c \<and> \<not> is_separator c \<and> \<not> is_forbidden c"
proof -
  let ?w = "filter (\<lambda>c. \<not> is_control c) (leaf v)"
  let ?m = "map replace_forbidden (nfc ?w)"
  have "untruncated nfc v = blob_bin \<or> untruncated nfc v = trim_end (trim_start ?m)"
    unfolding untruncated_def Let_def by presburger
  then have "c \<in> set blob_bin \<or> c \<in> set ?m" using assms(2) subsetD [OF trim_subset [of ?m]] by metis
  then consider "c \<in> set blob_bin" | b where "b \<in> set (nfc ?w)" "c = replace_forbidden b"
    unfolding set_map by blast
  then show ?thesis
  proof cases
    case 1
    then show ?thesis by (auto simp: blob_bin_def is_control_def is_separator_def is_forbidden_def)
  next
    case 2
    then have "\<not> (is_control b \<or> is_separator b)"
      using nfc_chars [OF assms(1), of b ?w] leaf_no_separator [of b v] by auto
    then show ?thesis using replace_forbidden_cases [of b] 2(2) underscore_clean by metis
  qed
qed

lemma sanitise_name_clean: "nfc_laws nfc \<Longrightarrow> clean_name (sanitise_name nfc v)"
  unfolding clean_name_def
  using sanitise_name_nonempty [of nfc v] sanitise_name_utf16 [of nfc v] sanitise_name_ends [of nfc v]
    untruncated_chars [of nfc _ v] set_mono_prefix [OF sanitise_name_prefix, of nfc v]
  by blast

text \<open>A clean name that is already normalised is a fixed point.\<close>

lemma sanitise_clean:
  assumes "clean_name s" "nfc s = s"
  shows "sanitise_name nfc s = s"
proof -
  have "takeWhile (\<lambda>c. \<not> is_separator c) (rev s) = rev s"
    unfolding takeWhile_eq_all_conv using assms(1) by (simp add: clean_name_def)
  then have "leaf s = s" unfolding leaf_def by (simp only: rev_rev_ident)
  moreover have "filter (\<lambda>c. \<not> is_control c) s = s" using assms(1) by (simp add: clean_name_def filter_id_conv)
  moreover have "map replace_forbidden s = s"
    using assms(1) by (simp add: clean_name_def map_idI replace_forbidden_def)
  ultimately show ?thesis
    using assms trim_start_id [of s] trim_end_id [of s] by (simp add: sanitise_name_def clean_name_def Let_def)
qed

lemma blob_bin_nfc: "nfc_laws nfc \<Longrightarrow> nfc blob_bin = blob_bin"
proof -
  assume "nfc_laws nfc"
  then have "\<forall>s. (\<forall>c \<in> set s. c < 128) \<longrightarrow> nfc s = s" unfolding nfc_laws_def by (elim conjE)
  then show "nfc blob_bin = blob_bin" by (simp add: blob_bin_def)
qed

lemma untruncated_nfc:
  assumes "nfc_laws nfc"
  shows "nfc (untruncated nfc v) = untruncated nfc v"
proof -
  let ?w = "nfc (filter (\<lambda>c. \<not> is_control c) (leaf v))"
  have "\<forall>s. nfc (nfc s) = nfc s" "\<forall>s. nfc s = s \<longrightarrow> nfc (map replace_forbidden s) = map replace_forbidden s"
    using assms unfolding nfc_laws_def by (blast, blast)
  then have "nfc (map replace_forbidden ?w) = map replace_forbidden ?w" by metis
  moreover have "sublist (trim_end (trim_start (map replace_forbidden ?w))) (map replace_forbidden ?w)"
    using trim_end_prefix trim_start_sublist by (meson prefix_imp_sublist sublist_order.order_trans)
  ultimately have "nfc (trim_end (trim_start (map replace_forbidden ?w)))
      = trim_end (trim_start (map replace_forbidden ?w))"
    by (rule nfc_sublist [OF assms])
  then show ?thesis using blob_bin_nfc [OF assms] by (simp add: untruncated_def Let_def)
qed

lemma sanitise_name_idem:
  assumes "nfc_laws nfc"
  shows "sanitise_name nfc (sanitise_name nfc v) = sanitise_name nfc v"
proof (rule sanitise_clean [OF sanitise_name_clean [OF assms]])
  show "nfc (sanitise_name nfc v) = sanitise_name nfc v"
    by (rule nfc_sublist [OF assms untruncated_nfc [OF assms, of v]])
      (rule prefix_imp_sublist [OF sanitise_name_prefix])
qed

lemma normalise_idem:
  assumes "lowercase_laws lowercase" "normalise_media_type lowercase t = Inr u"
  shows "normalise_media_type lowercase u = Inr u"
proof -
  have "octet_stream \<noteq> []" by (simp add: octet_stream_def)
  moreover have "lowercase octet_stream = octet_stream"
    using assms(1) by (simp add: lowercase_laws_def octet_stream_def)
  ultimately show ?thesis
    using assms by (auto simp: normalise_media_type_def Let_def lowercase_laws_def split: if_splits)
qed

lemma nfc_laws_id: "nfc_laws (\<lambda>s. s)"
  by (simp add: nfc_laws_def)

text \<open>C14: Sealed names are canonical. Whatever name the caller gives, the stored one is a single
  path component of at most 180 UTF-16 units, without controls, separators or reserved
  punctuation and without leading dots or surrounding white space; storing it again changes nothing,
  so the decoder's fixed-point check accepts it.\<close>

theorem sanitise_name_canonical:
  assumes "nfc_laws nfc"
  shows "clean_name (sanitise_name nfc v)
    \<and> sanitise_name nfc (sanitise_name nfc v) = sanitise_name nfc v"
  using sanitise_name_clean [OF assms] sanitise_name_idem [OF assms] by blast

theorem sanitise_name_canonical_witness:
  "clean_name (sanitise_name (\<lambda>s. s) [0x2E, 0x2F, 0x2E, 0x20, 0x61, 0x3F, 0x7F, 0x20])
    \<and> sanitise_name (\<lambda>s. s) (sanitise_name (\<lambda>s. s) [0x2E, 0x2F, 0x2E, 0x20, 0x61, 0x3F, 0x7F, 0x20])
      = [0x61, 0x5F]"
proof -
  have "sanitise_name (\<lambda>s. s) [0x2E, 0x2F, 0x2E, 0x20, 0x61, 0x3F, 0x7F, 0x20] = [0x61, 0x5F]"
    by (simp add: sanitise_name_def leaf_def is_separator_def is_control_def trim_start_def trim_end_def
        is_js_whitespace_def replace_forbidden_def is_forbidden_def utf16_count_def len_utf16_def
        MAX_NAME_UTF16_def)
  then show ?thesis
    using sanitise_name_canonical [OF nfc_laws_id, of "[0x2E, 0x2F, 0x2E, 0x20, 0x61, 0x3F, 0x7F, 0x20]"]
    by simp
qed

end
