(* ===== verification/Envelope_Stream.thy ===== *)
theory Envelope_Stream
  imports Envelope_Name
begin

text \<open>
  The record loops of \<open>crates/envelope/src/stream.rs\<close>: sealing a source of known length into an
  \<open>FSWNENC2\<close> envelope and opening one. The crates the codec calls are the fields of
  \<open>libs\<close>; the operating system's random source is \<open>rng\<close>; readers and writers are explicit
  and can fail, and a progress callback can cancel after every record.
\<close>

section \<open>The crates the codec calls\<close>

record libs =
  lib_nfc :: "utext \<Rightarrow> utext"
  lib_lowercase :: "utext \<Rightarrow> utext"
  lib_json :: "metadata \<Rightarrow> bytes option"
  lib_from_json :: "bytes \<Rightarrow> metadata option"
  lib_hkdf :: "bytes \<Rightarrow> bytes \<Rightarrow> bytes \<Rightarrow> nat \<Rightarrow> bytes"
  lib_seal :: "bytes \<Rightarrow> bytes \<Rightarrow> bytes \<Rightarrow> bytes \<Rightarrow> (bytes \<times> bytes) option"
  lib_open :: "bytes \<Rightarrow> bytes \<Rightarrow> bytes \<Rightarrow> bytes \<Rightarrow> bytes \<Rightarrow> bytes option"
  lib_sha256 :: "bytes \<Rightarrow> bytes"

text \<open>The \<open>n\<close>-th request for random bytes succeeds or fails; its \<open>i\<close>-th byte is \<open>rng_byte n i\<close>.\<close>

record rng =
  rng_ok :: "nat \<Rightarrow> bool"
  rng_byte :: "nat \<Rightarrow> nat \<Rightarrow> u8"

definition rng_fill :: "rng \<Rightarrow> nat \<Rightarrow> nat \<Rightarrow> envelope_error + bytes" where
  "rng_fill r call len =
     (if rng_ok r call then Inr (map (rng_byte r call) [0..<len]) else Inl E_Random)"

section \<open>Readers and writers\<close>

text \<open>
  A reader gives its bytes and then either the end of the stream or, when \<open>rd_fault\<close> is set, an
  I/O error; an interrupted read is retried by the code and is not visible. A writer takes
  bytes until its room is used up.
\<close>

record reader =
  rd_bytes :: bytes
  rd_fault :: bool

record writer =
  w_bytes :: bytes
  w_room :: "nat option"
  w_flush_ok :: bool

datatype io_kind = UnexpectedEof | OtherIo

definition rd_exact :: "nat \<Rightarrow> reader \<Rightarrow> io_kind + (bytes \<times> reader)" where
  "rd_exact n r =
     (if n \<le> length (rd_bytes r) then Inr (take n (rd_bytes r), r\<lparr>rd_bytes := drop n (rd_bytes r)\<rparr>)
      else Inl (if rd_fault r then OtherIo else UnexpectedEof))"

definition read_some :: "reader \<Rightarrow> envelope_error + nat" where
  "read_some r =
     (if rd_bytes r \<noteq> [] then Inr 1 else if rd_fault r then Inl E_Io else Inr 0)"

definition w_all :: "bytes \<Rightarrow> writer \<Rightarrow> writer \<times> (envelope_error + unit)" where
  "w_all bs w =
     (case w_room w of
        None \<Rightarrow> (w\<lparr>w_bytes := w_bytes w @ bs\<rparr>, Inr ())
      | Some n \<Rightarrow>
          (let put = take n bs; w' = w\<lparr>w_bytes := w_bytes w @ put, w_room := Some (n - length put)\<rparr>
           in if length bs \<le> n then (w', Inr ()) else (w', Inl E_Io)))"

definition w_flush :: "writer \<Rightarrow> envelope_error + unit" where
  "w_flush w = (if w_flush_ok w then Inr () else Inl E_Io)"

definition splice_at :: "bytes \<Rightarrow> nat \<Rightarrow> bytes \<Rightarrow> bytes" where
  "splice_at buf from xs = take from buf @ xs @ drop (from + length xs) buf"

type_synonym progress = "nat \<Rightarrow> nat \<Rightarrow> bool"

definition report :: "progress \<Rightarrow> nat \<Rightarrow> nat \<Rightarrow> envelope_error + unit" where
  "report progress completed whole = (if progress completed whole then Inr () else Inl E_Cancelled)"

section \<open>Layout\<close>

definition canonical_metadata :: "libs \<Rightarrow> metadata \<Rightarrow> envelope_error + bytes" where
  "canonical_metadata L md =
     try_then (ok_or (E_Metadata ''encode'') (lib_json L md)) (\<lambda>json.
       if length json > MAX_METADATA_BYTES then Inl E_MetadataTooLarge else Inr json)"

record layout =
  ly_metadata :: metadata
  ly_prefix :: bytes
  ly_plaintext_len :: nat
  ly_record_count :: nat

definition layout_of :: "libs \<Rightarrow> utext \<Rightarrow> utext \<Rightarrow> nat \<Rightarrow> limits \<Rightarrow> envelope_error + layout" where
  "layout_of L name media_type source_bytes lim =
     (if source_bytes > max_source_bytes lim then Inl E_TooLarge
      else try_then (normalise_media_type (lib_lowercase L) media_type) (\<lambda>ty.
        let md = \<lparr>md_name = sanitise_name (lib_nfc L) name, md_size = source_bytes, md_type = ty\<rparr>
        in try_then (canonical_metadata L md) (\<lambda>json.
          let pre = be32 (length json) @ json
          in try_then (ok_or E_TooLarge (checked_add (length pre) source_bytes)) (\<lambda>logical.
            let plaintext_len = padded_length logical;
                records = div_ceil plaintext_len CHUNK_BYTES
            in if records > u32_max \<or> records = 0 \<or> records > max_records lim then Inl E_TooLarge
               else Inr \<lparr>ly_metadata = md, ly_prefix = pre, ly_plaintext_len = plaintext_len,
                         ly_record_count = records\<rparr>))))"

definition envelope_bytes :: "libs \<Rightarrow> utext \<Rightarrow> utext \<Rightarrow> nat \<Rightarrow> envelope_error + nat" where
  "envelope_bytes L name media_type source_bytes =
     try_then (layout_of L name media_type source_bytes \<lparr>max_source_bytes = u64_max\<rparr>) (\<lambda>ly.
       Inr (envelope_len_for (ly_plaintext_len ly)))"

definition derive_envelope_key :: "libs \<Rightarrow> bytes \<Rightarrow> bytes \<Rightarrow> bytes" where
  "derive_envelope_key L input_key salt = lib_hkdf L salt input_key HKDF_INFO KEY_BYTES"

section \<open>Sealing\<close>

record fresh =
  fr_nonce_prefix :: bytes
  fr_salt :: bytes

definition draw_fresh :: "rng \<Rightarrow> envelope_error + fresh" where
  "draw_fresh r =
     try_then (rng_fill r 0 8) (\<lambda>nonce_prefix.
       try_then (rng_fill r 1 32) (\<lambda>salt.
         Inr \<lparr>fr_nonce_prefix = nonce_prefix, fr_salt = salt\<rparr>))"

text \<open>Requests 0 and 1 draw the nonce prefix and the salt; record \<open>c\<close> uses request \<open>c + 2\<close>.\<close>

definition fill_padding :: "rng \<Rightarrow> nat \<Rightarrow> nat \<Rightarrow> envelope_error + bytes" where
  "fill_padding r counter len = rng_fill r (counter + 2) len"

record enc_state =
  es_source :: reader
  es_out :: writer
  es_hashed :: bytes
  es_written :: nat

definition copy_prefix :: "bytes \<Rightarrow> nat \<Rightarrow> nat \<Rightarrow> bytes \<Rightarrow> bytes" where
  "copy_prefix pre offset len buffer =
     (case overlap offset len 0 (length pre) of
        None \<Rightarrow> buffer
      | Some (from, to) \<Rightarrow> splice_at buffer from (take (to - from) (drop (offset + from) pre)))"

definition read_source ::
  "nat \<Rightarrow> nat \<Rightarrow> nat \<Rightarrow> nat \<Rightarrow> bytes \<Rightarrow> reader \<Rightarrow> envelope_error + (bytes \<times> reader)" where
  "read_source prefix_len source_bytes offset len buffer source =
     (case overlap offset len prefix_len source_bytes of
        None \<Rightarrow> Inr (buffer, source)
      | Some (from, to) \<Rightarrow>
          (case rd_exact (to - from) source of
             Inl UnexpectedEof \<Rightarrow> Inl E_SourceChanged
           | Inl OtherIo \<Rightarrow> Inl E_Io
           | Inr (got, source') \<Rightarrow> Inr (splice_at buffer from got, source')))"

definition encrypt_record ::
  "libs \<Rightarrow> rng \<Rightarrow> bytes \<Rightarrow> bytes \<Rightarrow> bytes \<Rightarrow> layout \<Rightarrow> nat \<Rightarrow> progress \<Rightarrow> nat \<Rightarrow> enc_state
     \<Rightarrow> enc_state \<times> (envelope_error + unit)" where
  "encrypt_record L r key nonce_prefix header ly source_bytes progress counter st =
     (let offset = counter * CHUNK_BYTES;
          len = min (ly_plaintext_len ly - offset) CHUNK_BYTES
      in case try_then (fill_padding r counter len) (\<lambda>buffer.
                read_source (length (ly_prefix ly)) source_bytes offset len
                  (copy_prefix (ly_prefix ly) offset len buffer) (es_source st)) of
           Inl e \<Rightarrow> (st, Inl e)
         | Inr (buffer, source) \<Rightarrow>
             (case lib_seal L key (nonce_bytes nonce_prefix counter) (aad_bytes header counter) buffer of
                None \<Rightarrow> (st, Inl E_TooLarge)
              | Some (ct, tag) \<Rightarrow>
                  (case st_then (w_all ct (es_out st)) (\<lambda>_. w_all tag) of
                     (w, Inl e) \<Rightarrow> (st\<lparr>es_out := w\<rparr>, Inl e)
                   | (w, Inr u) \<Rightarrow>
                       (let st' = \<lparr>es_source = source, es_out = w, es_hashed = es_hashed st @ ct @ tag,
                                    es_written = es_written st + (len + TAG_BYTES)\<rparr>
                        in (st', report progress (es_written st') (envelope_len_for (ly_plaintext_len ly)))))))"

fun encrypt_records ::
  "libs \<Rightarrow> rng \<Rightarrow> bytes \<Rightarrow> bytes \<Rightarrow> bytes \<Rightarrow> layout \<Rightarrow> nat \<Rightarrow> progress \<Rightarrow> nat list \<Rightarrow> enc_state
     \<Rightarrow> enc_state \<times> (envelope_error + unit)" where
  "encrypt_records L r key np header ly source_bytes progress [] st = (st, Inr ())"
| "encrypt_records L r key np header ly source_bytes progress (counter # counters) st =
     st_then (encrypt_record L r key np header ly source_bytes progress counter st)
       (\<lambda>_. encrypt_records L r key np header ly source_bytes progress counters)"

record sealed =
  sl_metadata :: metadata
  sl_envelope_bytes :: nat
  sl_sha256 :: bytes

definition encrypt_finish :: "libs \<Rightarrow> layout \<Rightarrow> enc_state \<Rightarrow> envelope_error + sealed" where
  "encrypt_finish L ly st =
     try_then (read_some (es_source st)) (\<lambda>n.
       if n \<noteq> 0 then Inl E_SourceChanged
       else try_then (w_flush (es_out st)) (\<lambda>_.
         Inr \<lparr>sl_metadata = ly_metadata ly, sl_envelope_bytes = es_written st,
              sl_sha256 = lib_sha256 L (es_hashed st)\<rparr>))"

definition encrypt_with ::
  "libs \<Rightarrow> rng \<Rightarrow> bytes \<Rightarrow> reader \<Rightarrow> nat \<Rightarrow> utext \<Rightarrow> utext \<Rightarrow> limits \<Rightarrow> fresh \<Rightarrow> writer \<Rightarrow> progress
     \<Rightarrow> writer \<times> (envelope_error + sealed)" where
  "encrypt_with L r input_key source source_bytes name media_type lim fr out progress =
     (case layout_of L name media_type source_bytes lim of
        Inl e \<Rightarrow> (out, Inl e)
      | Inr ly \<Rightarrow>
          (let header = header_bytes (ly_record_count ly) (fr_nonce_prefix fr) (fr_salt fr);
               key = derive_envelope_key L input_key (fr_salt fr)
           in st_then (w_all header out) (\<lambda>_ w.
                case encrypt_records L r key (fr_nonce_prefix fr) header ly source_bytes progress
                       [0..<ly_record_count ly]
                       \<lparr>es_source = source, es_out = w, es_hashed = header, es_written = HEADER_BYTES\<rparr> of
                  (st, Inl e) \<Rightarrow> (es_out st, Inl e)
                | (st, Inr u) \<Rightarrow> (es_out st, encrypt_finish L ly st))))"

definition encrypt ::
  "libs \<Rightarrow> rng \<Rightarrow> bytes \<Rightarrow> reader \<Rightarrow> nat \<Rightarrow> utext \<Rightarrow> utext \<Rightarrow> limits \<Rightarrow> writer \<Rightarrow> progress
     \<Rightarrow> writer \<times> (envelope_error + sealed)" where
  "encrypt L r input_key source source_bytes name media_type lim out progress =
     (case draw_fresh r of
        Inl e \<Rightarrow> (out, Inl e)
      | Inr fr \<Rightarrow> encrypt_with L r input_key source source_bytes name media_type lim fr out progress)"

section \<open>Opening\<close>

text \<open>\<open>std::str::from_utf8\<close> accepts exactly the well-formed UTF-8 sequences.\<close>

definition in_range :: "nat \<Rightarrow> nat \<Rightarrow> u8 \<Rightarrow> bool" where
  "in_range lo hi b \<longleftrightarrow> lo \<le> unat b \<and> unat b \<le> hi"

definition utf8_second :: "u8 \<Rightarrow> u8 \<Rightarrow> bool" where
  "utf8_second a b \<longleftrightarrow>
     (if unat a = 0xE0 then in_range 0xA0 0xBF b
      else if unat a = 0xED then in_range 0x80 0x9F b
      else if unat a = 0xF0 then in_range 0x90 0xBF b
      else if unat a = 0xF4 then in_range 0x80 0x8F b
      else in_range 0x80 0xBF b)"

fun utf8_valid :: "bytes \<Rightarrow> bool" where
  "utf8_valid [] = True"
| "utf8_valid (a # r) =
     (if in_range 0 0x7F a then utf8_valid r
      else case r of
        [] \<Rightarrow> False
      | b # r2 \<Rightarrow>
          if in_range 0xC2 0xDF a then in_range 0x80 0xBF b \<and> utf8_valid r2
          else (case r2 of
            [] \<Rightarrow> False
          | c # r3 \<Rightarrow>
              if in_range 0xE0 0xEF a then utf8_second a b \<and> in_range 0x80 0xBF c \<and> utf8_valid r3
              else (case r3 of
                [] \<Rightarrow> False
              | d # r4 \<Rightarrow>
                  in_range 0xF0 0xF4 a \<and> utf8_second a b \<and> in_range 0x80 0xBF c
                  \<and> in_range 0x80 0xBF d \<and> utf8_valid r4)))"

definition check_metadata :: "libs \<Rightarrow> bytes \<Rightarrow> metadata \<Rightarrow> envelope_error + unit" where
  "check_metadata L txt md =
     try_then (canonical_metadata L md) (\<lambda>json.
       if json \<noteq> txt then Inl (E_Metadata ''canonical form'')
       else if sanitise_name (lib_nfc L) (md_name md) \<noteq> md_name md then Inl (E_Metadata ''name'')
       else if ok_opt (normalise_media_type (lib_lowercase L) (md_type md)) \<noteq> Some (md_type md)
       then Inl (E_Metadata ''type'')
       else Inr ())"

definition parse_metadata :: "libs \<Rightarrow> bytes \<Rightarrow> envelope_error + (metadata \<times> nat)" where
  "parse_metadata L plaintext =
     (if length plaintext < 4 then Inl (E_Metadata ''truncated'')
      else
        (let len = of_be32 (take 4 plaintext); txt = take len (drop 4 plaintext)
         in if len < 2 \<or> MAX_METADATA_BYTES < len \<or> 4 + len > length plaintext
            then Inl (E_Metadata ''length'')
            else if \<not> utf8_valid txt then Inl (E_Metadata ''utf-8'')
            else try_then (ok_or (E_Metadata ''shape'') (lib_from_json L txt)) (\<lambda>md.
              try_then (check_metadata L txt md) (\<lambda>_. Inr (md, 4 + len)))))"

definition short_read :: "io_kind \<Rightarrow> envelope_error" where
  "short_read k = (case k of UnexpectedEof \<Rightarrow> E_Length | OtherIo \<Rightarrow> E_Io)"

record dec_state =
  ds_in :: reader
  ds_out :: writer
  ds_opened :: "(metadata \<times> nat) option"
  ds_read :: nat

definition open_first ::
  "libs \<Rightarrow> limits \<Rightarrow> nat \<Rightarrow> bytes \<Rightarrow> (metadata \<times> nat) option \<Rightarrow> envelope_error + (metadata \<times> nat)" where
  "open_first L lim plaintext_len data opened =
     (case opened of
        Some got \<Rightarrow> Inr got
      | None \<Rightarrow>
          try_then (parse_metadata L data) (\<lambda>(md, prefix_len).
            if md_size md > plaintext_len \<or> padded_length (prefix_len + md_size md) \<noteq> plaintext_len
            then Inl E_Padding
            else if md_size md > max_source_bytes lim then Inl E_TooLarge
            else Inr (md, prefix_len)))"

definition write_source :: "nat \<Rightarrow> nat \<Rightarrow> nat \<Rightarrow> bytes \<Rightarrow> writer \<Rightarrow> writer \<times> (envelope_error + unit)" where
  "write_source prefix_len source_len offset data w =
     (case overlap offset (length data) prefix_len source_len of
        None \<Rightarrow> (w, Inr ())
      | Some (from, to) \<Rightarrow> w_all (take (to - from) (drop from data)) w)"

definition decrypt_record ::
  "libs \<Rightarrow> limits \<Rightarrow> bytes \<Rightarrow> bytes \<Rightarrow> nat \<Rightarrow> nat \<Rightarrow> progress \<Rightarrow> nat \<Rightarrow> dec_state
     \<Rightarrow> dec_state \<times> (envelope_error + unit)" where
  "decrypt_record L lim key header records envelope_len progress counter st =
     (let len = (if counter + 1 = records
                 then envelope_len - HEADER_BYTES - (records - 1) * RECORD_BYTES else RECORD_BYTES);
          plaintext_len = envelope_len - HEADER_BYTES - records * TAG_BYTES
      in case rd_exact len (ds_in st) of
           Inl k \<Rightarrow> (st, Inl (short_read k))
         | Inr (buffer, inp) \<Rightarrow>
             (case lib_open L key (nonce_bytes (take 8 (drop 16 header)) counter) (aad_bytes header counter)
                     (take (len - TAG_BYTES) buffer) (drop (len - TAG_BYTES) buffer) of
                None \<Rightarrow> (st\<lparr>ds_in := inp\<rparr>, Inl E_Authentication)
              | Some data \<Rightarrow>
                  (case open_first L lim plaintext_len data (ds_opened st) of
                     Inl e \<Rightarrow> (st\<lparr>ds_in := inp\<rparr>, Inl e)
                   | Inr (md, prefix_len) \<Rightarrow>
                       (case write_source prefix_len (md_size md) (counter * CHUNK_BYTES) data (ds_out st) of
                          (w, Inl e) \<Rightarrow> (st\<lparr>ds_in := inp, ds_out := w\<rparr>, Inl e)
                        | (w, Inr u) \<Rightarrow>
                            (let st' = \<lparr>ds_in = inp, ds_out = w, ds_opened = Some (md, prefix_len),
                                         ds_read = ds_read st + len\<rparr>
                             in (st', report progress (ds_read st') envelope_len))))))"

fun decrypt_records ::
  "libs \<Rightarrow> limits \<Rightarrow> bytes \<Rightarrow> bytes \<Rightarrow> nat \<Rightarrow> nat \<Rightarrow> progress \<Rightarrow> nat list \<Rightarrow> dec_state
     \<Rightarrow> dec_state \<times> (envelope_error + unit)" where
  "decrypt_records L lim key header records envelope_len progress [] st = (st, Inr ())"
| "decrypt_records L lim key header records envelope_len progress (counter # counters) st =
     st_then (decrypt_record L lim key header records envelope_len progress counter st)
       (\<lambda>_. decrypt_records L lim key header records envelope_len progress counters)"

definition read_header :: "reader \<Rightarrow> nat \<Rightarrow> limits \<Rightarrow> envelope_error + (bytes \<times> nat \<times> reader)" where
  "read_header inp envelope_len lim =
     (if envelope_len < length MAGIC then Inl E_Length
      else try_then (map_err short_read (rd_exact 8 inp)) (\<lambda>(magic, inp1).
        if magic \<noteq> MAGIC then Inl E_Magic
        else if envelope_len < HEADER_BYTES then Inl E_Length
        else try_then (map_err short_read (rd_exact (HEADER_BYTES - 8) inp1)) (\<lambda>(rest, inp2).
          let header = magic @ rest;
              chunk = of_be32 (take 4 (drop 8 header));
              count = of_be32 (take 4 (drop 12 header))
          in if chunk \<noteq> CHUNK_BYTES \<or> count = 0 \<or> count > max_records lim then Inl E_Header
             else if envelope_len < HEADER_BYTES + (count - 1) * RECORD_BYTES + 1 + TAG_BYTES
                  \<or> envelope_len > HEADER_BYTES + count * RECORD_BYTES then Inl E_Length
             else Inr (header, count, inp2))))"

definition decrypt_finish :: "dec_state \<Rightarrow> envelope_error + metadata" where
  "decrypt_finish st =
     try_then (read_some (ds_in st)) (\<lambda>n.
       if n \<noteq> 0 then Inl E_Length
       else try_then (w_flush (ds_out st)) (\<lambda>_. ok_or E_Panic (map_option fst (ds_opened st))))"

definition decrypt ::
  "libs \<Rightarrow> bytes \<Rightarrow> reader \<Rightarrow> nat \<Rightarrow> limits \<Rightarrow> writer \<Rightarrow> progress \<Rightarrow> writer \<times> (envelope_error + metadata)" where
  "decrypt L input_key inp envelope_len lim out progress =
     (case read_header inp envelope_len lim of
        Inl e \<Rightarrow> (out, Inl e)
      | Inr (header, count, inp') \<Rightarrow>
          (case decrypt_records L lim (derive_envelope_key L input_key (drop 24 header)) header count
                  envelope_len progress [0..<count]
                  \<lparr>ds_in = inp', ds_out = out, ds_opened = None, ds_read = HEADER_BYTES\<rparr> of
             (st, Inl e) \<Rightarrow> (ds_out st, Inl e)
           | (st, Inr u) \<Rightarrow> (ds_out st, decrypt_finish st)))"

section \<open>In-memory and file helpers\<close>

definition vec_writer :: writer where
  "vec_writer = \<lparr>w_bytes = [], w_room = None, w_flush_ok = True\<rparr>"

definition seal_bytes :: "libs \<Rightarrow> rng \<Rightarrow> bytes \<Rightarrow> utext \<Rightarrow> utext \<Rightarrow> bytes \<Rightarrow> limits \<Rightarrow> envelope_error + bytes" where
  "seal_bytes L r input_key name media_type bs lim =
     (case encrypt L r input_key \<lparr>rd_bytes = bs, rd_fault = False\<rparr> (length bs) name media_type lim
             vec_writer (\<lambda>_ _. True) of
        (w, Inl e) \<Rightarrow> Inl e
      | (w, Inr sl) \<Rightarrow> Inr (w_bytes w))"

definition open_bytes :: "libs \<Rightarrow> bytes \<Rightarrow> bytes \<Rightarrow> limits \<Rightarrow> envelope_error + (metadata \<times> bytes)" where
  "open_bytes L input_key envelope lim =
     (case decrypt L input_key \<lparr>rd_bytes = envelope, rd_fault = False\<rparr> (length envelope) lim
             vec_writer (\<lambda>_ _. True) of
        (w, Inl e) \<Rightarrow> Inl e
      | (w, Inr md) \<Rightarrow> Inr (md, w_bytes w))"

section \<open>What the crates promise\<close>

text \<open>
  AES-256-GCM seals every message within its length limit into a ciphertext of the same length and
  a 16-byte tag, and opening accepts exactly what sealing the plaintext produces.
\<close>

definition aead_laws :: "libs \<Rightarrow> bool" where
  "aead_laws L \<longleftrightarrow>
     (\<forall>k n a p. length p \<le> CHUNK_BYTES \<longrightarrow> lib_seal L k n a p \<noteq> None)
     \<and> (\<forall>k n a p ct tag. lib_seal L k n a p = Some (ct, tag) \<longrightarrow>
          length ct = length p \<and> length tag = TAG_BYTES)
     \<and> (\<forall>k n a p ct tag. lib_open L k n a ct tag = Some p \<longleftrightarrow> lib_seal L k n a p = Some (ct, tag))"

text \<open>
  The JSON printer never fails on metadata, writes well-formed UTF-8 that is at least an empty
  object, and the parser reads it back.
\<close>

definition json_laws :: "libs \<Rightarrow> bool" where
  "json_laws L \<longleftrightarrow>
     (\<forall>md. \<exists>j. lib_json L md = Some j \<and> lib_from_json L j = Some md \<and> utf8_valid j \<and> 2 \<le> length j)"

definition libs_laws :: "libs \<Rightarrow> bool" where
  "libs_laws L \<longleftrightarrow>
     nfc_laws (lib_nfc L) \<and> lowercase_laws (lib_lowercase L) \<and> json_laws L \<and> aead_laws L"

lemma aead_seal:
  assumes "aead_laws L" "length p \<le> CHUNK_BYTES"
  obtains ct tag where "lib_seal L k n a p = Some (ct, tag)" "length ct = length p"
    "length tag = TAG_BYTES" "lib_open L k n a ct tag = Some p"
proof -
  have "lib_seal L k n a p \<noteq> None" using assms unfolding aead_laws_def by blast
  then obtain ct tag where "lib_seal L k n a p = Some (ct, tag)" by auto
  then show thesis using assms(1) that unfolding aead_laws_def by blast
qed

lemma aead_open:
  "aead_laws L \<Longrightarrow> lib_open L k n a ct tag = Some p \<Longrightarrow>
     lib_seal L k n a p = Some (ct, tag) \<and> length ct = length p \<and> length tag = TAG_BYTES"
  unfolding aead_laws_def by blast

section \<open>The logical plaintext\<close>

text \<open>
  The specification of an envelope: the metadata prefix, the source and the padding form one
  logical stream, which is cut into records of \<open>CHUNK_BYTES\<close>.
\<close>

definition logical :: "rng \<Rightarrow> bytes \<Rightarrow> bytes \<Rightarrow> nat \<Rightarrow> u8" where
  "logical r pre src p =
     (if p < length pre then pre ! p
      else if p < length pre + length src then src ! (p - length pre)
      else rng_byte r (p div CHUNK_BYTES + 2) (p mod CHUNK_BYTES))"

definition record_len :: "nat \<Rightarrow> nat \<Rightarrow> nat" where
  "record_len plaintext_len c = min (plaintext_len - c * CHUNK_BYTES) CHUNK_BYTES"

definition record_plain :: "rng \<Rightarrow> bytes \<Rightarrow> bytes \<Rightarrow> nat \<Rightarrow> nat \<Rightarrow> bytes" where
  "record_plain r pre src plaintext_len c =
     map (\<lambda>p. logical r pre src (c * CHUNK_BYTES + p)) [0..<record_len plaintext_len c]"

lemma splice_at_nth:
  assumes "from + length xs \<le> length buf" "p < length buf"
  shows "splice_at buf from xs ! p
    = (if from \<le> p \<and> p < from + length xs then xs ! (p - from) else buf ! p)"
  using assms by (auto simp: splice_at_def nth_append)

lemma splice_at_length: "from + length xs \<le> length buf \<Longrightarrow> length (splice_at buf from xs) = length buf"
  by (simp add: splice_at_def)

lemma copy_prefix_nth:
  assumes "p < length buf"
  shows "copy_prefix pre offset (length buf) buf ! p
    = (if offset + p < length pre then pre ! (offset + p) else buf ! p)"
    and "length (copy_prefix pre offset (length buf) buf) = length buf"
proof -
  have o: "overlap offset (length buf) 0 (length pre)
      = (if offset < min (length pre) (offset + length buf)
         then Some (0, min (length pre) (offset + length buf) - offset) else None)"
    by (simp add: overlap_def Let_def)
  show "length (copy_prefix pre offset (length buf) buf) = length buf"
    by (auto simp: copy_prefix_def o splice_at_def)
  show "copy_prefix pre offset (length buf) buf ! p
      = (if offset + p < length pre then pre ! (offset + p) else buf ! p)"
    using assms by (auto simp: copy_prefix_def o splice_at_def nth_append)
qed

lemma copy_prefix_length: "length (copy_prefix pre offset (length buf) buf) = length buf"
  using copy_prefix_nth(2) [of 0 buf pre offset] by (cases buf) (auto simp: copy_prefix_def overlap_def)

lemma read_source_spec:
  assumes "n = length buf"
  shows "\<exists>buf'. read_source plen (length src) offset n buf \<lparr>rd_bytes = drop (offset - plen) src, rd_fault = f\<rparr>
      = Inr (buf', \<lparr>rd_bytes = drop (offset + n - plen) src, rd_fault = f\<rparr>)
    \<and> length buf' = n
    \<and> (\<forall>p<n. buf' ! p = (if plen \<le> offset + p \<and> offset + p < plen + length src
           then src ! (offset + p - plen) else buf ! p))"
proof (cases "overlap offset n plen (length src)")
  case None
  then have no: "min (plen + length src) (offset + n) \<le> max plen offset"
    by (auto simp: overlap_def Let_def split: if_splits)
  then have "drop (offset - plen) src = drop (offset + n - plen) src"
    by (cases "offset + n \<le> plen"; cases "n = 0") (auto simp: min_def max_def split: if_splits)
  then show ?thesis using None no assms by (auto simp: read_source_def)
next
  case (Some ft)
  define at where "at = max plen offset - offset"
  define k where "k = min (plen + length src) (offset + n) - max plen offset"
  let ?rd = "drop (offset - plen) src"
  have lt: "max plen offset < min (plen + length src) (offset + n)"
    using Some by (auto simp: overlap_def Let_def split: if_splits)
  then have ft: "ft = (at, at + k)"
    using Some by (auto simp: overlap_def Let_def at_def k_def)
  have k: "k \<le> length ?rd" "at + k \<le> n"
    using lt by (auto simp: k_def at_def min_def max_def split: if_splits)
  have dr: "drop k ?rd = drop (offset + n - plen) src"
    using lt by (auto simp: k_def min_def max_def split: if_splits)
  have inside: "(at \<le> p \<and> p < at + k) = (plen \<le> offset + p \<and> offset + p < plen + length src)"
    if "p < n" for p
    using that lt by (auto simp: at_def k_def min_def max_def split: if_splits)
  have rd: "?rd ! (p - at) = src ! (offset + p - plen)" if "plen \<le> offset + p" "p - at < k" for p
    using that k(1) by (auto simp: at_def max_def intro: arg_cong [where f = "(!) src"])
  have fit: "at + length (take k ?rd) \<le> length buf" using k assms by simp
  have "splice_at buf at (take k ?rd) ! p = (if plen \<le> offset + p \<and> offset + p < plen + length src
      then src ! (offset + p - plen) else buf ! p)" if "p < n" for p
  proof -
    have "splice_at buf at (take k ?rd) ! p = (if at \<le> p \<and> p < at + k then ?rd ! (p - at) else buf ! p)"
      using splice_at_nth [OF fit] that assms k by (auto simp del: take_drop drop_drop)
    moreover have "p - at < k" if "at \<le> p \<and> p < at + k" using that by auto
    ultimately show ?thesis using inside [OF that] rd [of p] by presburger
  qed
  moreover have "length (splice_at buf at (take k ?rd)) = n" using splice_at_length [OF fit] assms by simp
  ultimately show ?thesis
    using Some ft k dr by (simp add: read_source_def rd_exact_def del: take_drop drop_drop)
qed

lemma record_len_le: "record_len plen c \<le> CHUNK_BYTES"
  by (simp add: record_len_def)

lemma length_record_plain [simp]: "length (record_plain r pre src plen c) = record_len plen c"
  by (simp add: record_plain_def)

lemma chunk_pos [simp]: "0 < CHUNK_BYTES"
  by (simp add: CHUNK_BYTES_def)

lemma record_buffer:
  assumes "rng_ok r (c + 2)" "n = record_len plen c"
  shows "try_then (fill_padding r c n) (\<lambda>buffer.
      read_source (length pre) (length src) (c * CHUNK_BYTES) n (copy_prefix pre (c * CHUNK_BYTES) n buffer)
        \<lparr>rd_bytes = drop (c * CHUNK_BYTES - length pre) src, rd_fault = f\<rparr>)
    = Inr (record_plain r pre src plen c, \<lparr>rd_bytes = drop (c * CHUNK_BYTES + n - length pre) src, rd_fault = f\<rparr>)"
proof -
  let ?o = "c * CHUNK_BYTES"
  define pad where "pad = map (rng_byte r (c + 2)) [0..<n]"
  have pad: "length pad = n" by (simp add: pad_def)
  define buf where "buf = copy_prefix pre ?o n pad"
  have buf: "length buf = n" "\<And>p. p < n \<Longrightarrow> buf ! p = (if ?o + p < length pre then pre ! (?o + p) else pad ! p)"
    using copy_prefix_nth [of _ pad pre ?o] pad by (auto simp: buf_def copy_prefix_length)
  obtain buf' where rs: "read_source (length pre) (length src) ?o n buf
        \<lparr>rd_bytes = drop (?o - length pre) src, rd_fault = f\<rparr>
      = Inr (buf', \<lparr>rd_bytes = drop (?o + n - length pre) src, rd_fault = f\<rparr>)"
    and l: "length buf' = n"
    and nth: "\<And>p. p < n \<Longrightarrow> buf' ! p = (if length pre \<le> ?o + p \<and> ?o + p < length pre + length src
           then src ! (?o + p - length pre) else buf ! p)"
    using read_source_spec [OF buf(1) [symmetric], of "length pre" src ?o f] by auto
  have "buf' = record_plain r pre src plen c"
  proof (rule nth_equalityI)
    fix p
    assume "p < length buf'"
    then have p: "p < n" "p < CHUNK_BYTES" using l assms(2) record_len_le [of plen c] by auto
    have "(?o + p) div CHUNK_BYTES = c" "(?o + p) mod CHUNK_BYTES = p" using p(2) by simp_all
    then show "buf' ! p = record_plain r pre src plen c ! p"
      using p(1) nth buf(2) assms(2) by (auto simp: record_plain_def logical_def pad_def)
  qed (simp add: l assms(2))
  then show ?thesis
    using rs assms(1) unfolding fill_padding_def rng_fill_def buf_def pad_def by (simp only: if_True try_then_simps)
qed

text \<open>The sealed form of one record.\<close>

definition sealed_record :: "libs \<Rightarrow> bytes \<Rightarrow> bytes \<Rightarrow> bytes \<Rightarrow> nat \<Rightarrow> bytes \<Rightarrow> bytes" where
  "sealed_record L key np header c plain =
     (case lib_seal L key (nonce_bytes np c) (aad_bytes header c) plain of
        None \<Rightarrow> [] | Some (ct, tag) \<Rightarrow> ct @ tag)"

text \<open>Where the streams stand before record \<open>c\<close> of a plaintext of \<open>plen\<close> bytes.\<close>

definition at_record :: "nat \<Rightarrow> nat \<Rightarrow> nat" where
  "at_record plen c = min (c * CHUNK_BYTES) plen"

lemma at_record_step: "c * CHUNK_BYTES < plen \<Longrightarrow> at_record plen c = c * CHUNK_BYTES
    \<and> at_record plen (Suc c) = c * CHUNK_BYTES + record_len plen c"
  by (auto simp: at_record_def record_len_def min_def)

definition enc_at :: "libs \<Rightarrow> rng \<Rightarrow> bytes \<Rightarrow> bytes \<Rightarrow> bytes \<Rightarrow> bytes \<Rightarrow> bytes \<Rightarrow> nat \<Rightarrow> bool \<Rightarrow> bool \<Rightarrow> nat \<Rightarrow> enc_state" where
  "enc_at L r key np header pre src plen f fl c =
     (let out = header @ concat (map (\<lambda>c. sealed_record L key np header c (record_plain r pre src plen c)) [0..<c])
      in \<lparr>es_source = \<lparr>rd_bytes = drop (at_record plen c - length pre) src, rd_fault = f\<rparr>,
          es_out = \<lparr>w_bytes = out, w_room = None, w_flush_ok = fl\<rparr>,
          es_hashed = out, es_written = HEADER_BYTES + at_record plen c + c * TAG_BYTES\<rparr>)"

lemma encrypt_record_spec:
  assumes "aead_laws L" "rng_ok r (c + 2)" "c * CHUNK_BYTES < plen"
  shows "encrypt_record L r key np header \<lparr>ly_metadata = md, ly_prefix = pre, ly_plaintext_len = plen, ly_record_count = k\<rparr>
      (length src) (\<lambda>_ _. True) c (enc_at L r key np header pre src plen f fl c)
    = (enc_at L r key np header pre src plen f fl (Suc c), Inr ())"
proof -
  let ?n = "record_len plen c"
  obtain ct tag where s: "lib_seal L key (nonce_bytes np c) (aad_bytes header c) (record_plain r pre src plen c) = Some (ct, tag)"
    using aead_seal [OF assms(1), of "record_plain r pre src plen c"] record_len_le by (metis length_record_plain)
  have at: "at_record plen c = c * CHUNK_BYTES" "at_record plen (Suc c) = c * CHUNK_BYTES + ?n"
    using at_record_step [OF assms(3)] by simp_all
  note rb = record_buffer [OF assms(2) refl [of "record_len plen c"], of pre src f]
  show ?thesis
    using rb s at
    by (simp add: encrypt_record_def enc_at_def Let_def record_len_def [symmetric] w_all_def report_def
        sealed_record_def)
qed

end
