(* ===== verification/Envelope_Roundtrip.thy ===== *)
theory Envelope_Roundtrip
  imports Envelope_Stream
begin

text \<open>
  What the envelope codec guarantees: a sealed source opens to the same bytes and metadata, the
  envelope has exactly the announced length, and whatever opens was sealed under the same key
  from the plaintext that is returned.
\<close>

section \<open>Sealing\<close>

lemma encrypt_records_spec:
  assumes "aead_laws L" "\<And>i. c \<le> i \<Longrightarrow> i < k \<Longrightarrow> rng_ok r (i + 2)" "(k - 1) * CHUNK_BYTES < plen" "c \<le> k"
  shows "encrypt_records L r key np header \<lparr>ly_metadata = md, ly_prefix = pre, ly_plaintext_len = plen, ly_record_count = kk\<rparr>
      (length src) (\<lambda>_ _. True) [c..<k] (enc_at L r key np header pre src plen f fl c)
    = (enc_at L r key np header pre src plen f fl k, Inr ())"
  using assms(2,4)
proof (induction "k - c" arbitrary: c)
  case (Suc d)
  then have c: "c < k" by simp
  then have "c * CHUNK_BYTES \<le> (k - 1) * CHUNK_BYTES" by simp
  then have "c * CHUNK_BYTES < plen" using assms(3) by linarith
  then have "encrypt_record L r key np header \<lparr>ly_metadata = md, ly_prefix = pre, ly_plaintext_len = plen, ly_record_count = kk\<rparr>
      (length src) (\<lambda>_ _. True) c (enc_at L r key np header pre src plen f fl c)
    = (enc_at L r key np header pre src plen f fl (Suc c), Inr ())"
    using encrypt_record_spec assms(1) Suc.prems(1) c by blast
  moreover have "[c..<k] = c # [Suc c..<k]" using c by (simp add: upt_conv_Cons)
  moreover have "d = k - Suc c" "Suc c \<le> k" using Suc.hyps(2) c by auto
  ultimately show ?case using Suc.hyps(1) Suc.prems(1) by simp
qed simp

text \<open>A layout is the plaintext of the canonical metadata and the source, padded.\<close>

lemma layout_of_Inr:
  assumes "layout_of L name ty n lim = Inr ly"
  obtains t json where "normalise_media_type (lib_lowercase L) ty = Inr t"
    "ly_metadata ly = \<lparr>md_name = sanitise_name (lib_nfc L) name, md_size = n, md_type = t\<rparr>"
    "canonical_metadata L (ly_metadata ly) = Inr json" "ly_prefix ly = be32 (length json) @ json"
    "ly_plaintext_len ly = padded_length (4 + length json + n)"
    "ly_record_count ly = div_ceil (ly_plaintext_len ly) CHUNK_BYTES"
    "n \<le> max_source_bytes lim" "0 < ly_record_count ly" "ly_record_count ly \<le> u32_max"
    "ly_record_count ly \<le> max_records lim"
  using assms
  by (auto simp: layout_of_def try_then_Inr Let_def checked_add_Some split: if_splits)

lemma canonical_metadata_Inr:
  "canonical_metadata L md = Inr json \<longleftrightarrow> lib_json L md = Some json \<and> length json \<le> MAX_METADATA_BYTES"
  by (cases "lib_json L md") (auto simp: canonical_metadata_def)

lemma div_ceil_less_mult:
  assumes "0 < b" "0 < a"
  shows "(div_ceil a b - 1) * b < a"
  using div_ceil_less [OF assms(1), of a] div_ceil_pos [OF assms(2,1)] by (cases "div_ceil a b") auto

lemma layout_of_bounds:
  assumes "layout_of L name ty n lim = Inr ly" "n \<le> 2 ^ 51"
  shows "length (ly_prefix ly) \<le> 4100" "length (ly_prefix ly) + n \<le> ly_plaintext_len ly"
    "MIN_PADDING_BUCKET \<le> ly_plaintext_len ly"
    "(ly_record_count ly - 1) * CHUNK_BYTES < ly_plaintext_len ly"
    "ly_plaintext_len ly \<le> ly_record_count ly * CHUNK_BYTES"
proof -
  from assms(1) obtain json where j: "canonical_metadata L (ly_metadata ly) = Inr json"
    "ly_prefix ly = be32 (length json) @ json" "ly_plaintext_len ly = padded_length (4 + length json + n)"
    "ly_record_count ly = div_ceil (ly_plaintext_len ly) CHUNK_BYTES"
    by (elim layout_of_Inr)
  have l: "length json \<le> 4096" using j(1) by (simp add: canonical_metadata_Inr MAX_METADATA_BYTES_def)
  then have s: "4 + length json + n \<le> 2 ^ 63" using assms(2) by simp
  show "length (ly_prefix ly) \<le> 4100" using j(2) l by simp
  show "length (ly_prefix ly) + n \<le> ly_plaintext_len ly" using padded_length_ge [OF s] j(2,3) by simp
  show m: "MIN_PADDING_BUCKET \<le> ly_plaintext_len ly" using padded_length_min [OF s] j(3) by simp
  then have p: "0 < ly_plaintext_len ly" by (simp add: MIN_PADDING_BUCKET_def)
  show "(ly_record_count ly - 1) * CHUNK_BYTES < ly_plaintext_len ly"
    using div_ceil_less_mult [OF chunk_pos p] j(4) by simp
  show "ly_plaintext_len ly \<le> ly_record_count ly * CHUNK_BYTES"
    using div_ceil_ge [OF chunk_pos, of "ly_plaintext_len ly"] j(4) by simp
qed

text \<open>Whenever the limit admits the source, the record count fits: no source within the limit is refused.\<close>

lemma layout_of_ok:
  assumes "n \<le> max_source_bytes lim" "n \<le> 2 ^ 51" "normalise_media_type (lib_lowercase L) ty = Inr t"
    "lib_json L \<lparr>md_name = sanitise_name (lib_nfc L) name, md_size = n, md_type = t\<rparr> = Some json"
    "length json \<le> MAX_METADATA_BYTES"
  shows "\<exists>ly. layout_of L name ty n lim = Inr ly"
proof -
  have l: "length json \<le> 4096" using assms(5) by (simp add: MAX_METADATA_BYTES_def)
  define logical where "logical = 4 + length json + n"
  have s: "logical \<le> 2 ^ 63" "0 < logical" "logical \<le> 3 * 2 ^ 50"
    using assms(2) l by (simp_all add: logical_def)
  have rec: "div_ceil (padded_length logical) CHUNK_BYTES = div_ceil logical CHUNK_BYTES"
    by (rule padded_length_records [OF s(2,1)])
  have "div_ceil logical CHUNK_BYTES \<le> div_ceil (3 * 2 ^ 50) CHUNK_BYTES" by (rule div_ceil_mono [OF s(3)]) simp
  also have "\<dots> \<le> u32_max" by (simp add: div_ceil_def CHUNK_BYTES_def u32_max_def)
  finally have u: "div_ceil logical CHUNK_BYTES \<le> u32_max" .
  have "logical \<le> sat_add (max_source_bytes lim) (4 + MAX_METADATA_BYTES)"
    using assms(1,2) l by (simp add: sat_add_def MAX_METADATA_BYTES_def u64_max_def logical_def)
  then have "div_ceil logical CHUNK_BYTES \<le> div_ceil (sat_add (max_source_bytes lim) (4 + MAX_METADATA_BYTES)) CHUNK_BYTES"
    by (rule div_ceil_mono) simp
  then have m: "div_ceil logical CHUNK_BYTES \<le> max_records lim"
    using u by (simp add: max_records_def Let_def)
  have p: "div_ceil logical CHUNK_BYTES \<noteq> 0" using div_ceil_pos [OF s(2) chunk_pos] by simp
  have ca: "checked_add (length (be32 (length json) @ json)) n = Some logical"
    using s(1) by (simp add: checked_add_def u64_max_def logical_def)
  show ?thesis
    unfolding layout_of_def canonical_metadata_def Let_def ca
    using assms(1,3,4,5) u m p by (simp add: ca rec not_less del: length_append)
qed

text \<open>The envelope as a function of its layout.\<close>

definition envelope_of :: "libs \<Rightarrow> rng \<Rightarrow> bytes \<Rightarrow> fresh \<Rightarrow> layout \<Rightarrow> bytes \<Rightarrow> bytes" where
  "envelope_of L r input_key fr ly src =
     (let header = header_bytes (ly_record_count ly) (fr_nonce_prefix fr) (fr_salt fr);
          key = derive_envelope_key L input_key (fr_salt fr)
      in header @ concat (map (\<lambda>c. sealed_record L key (fr_nonce_prefix fr) header c
            (record_plain r (ly_prefix ly) src (ly_plaintext_len ly) c)) [0..<ly_record_count ly]))"

lemma encrypt_with_spec:
  assumes "aead_laws L" "\<And>i. i < ly_record_count ly \<Longrightarrow> rng_ok r (i + 2)"
    "layout_of L name ty (length src) lim = Inr ly" "length src \<le> 2 ^ 51"
  shows "encrypt_with L r input_key \<lparr>rd_bytes = src, rd_fault = False\<rparr> (length src) name ty lim fr vec_writer (\<lambda>_ _. True)
    = (vec_writer\<lparr>w_bytes := envelope_of L r input_key fr ly src\<rparr>,
       Inr \<lparr>sl_metadata = ly_metadata ly, sl_envelope_bytes = envelope_len_for (ly_plaintext_len ly),
            sl_sha256 = lib_sha256 L (envelope_of L r input_key fr ly src)\<rparr>)"
proof -
  obtain md pre plen k where ly: "ly = \<lparr>ly_metadata = md, ly_prefix = pre, ly_plaintext_len = plen, ly_record_count = k\<rparr>"
    by (cases ly)
  note b = layout_of_bounds [OF assms(3,4)]
  have k: "k = div_ceil plen CHUNK_BYTES" using assms(3) by (elim layout_of_Inr) (simp add: ly)
  let ?header = "header_bytes k (fr_nonce_prefix fr) (fr_salt fr)"
  let ?key = "derive_envelope_key L input_key (fr_salt fr)"
  let ?at = "enc_at L r ?key (fr_nonce_prefix fr) ?header pre src plen False True"
  have recs: "encrypt_records L r ?key (fr_nonce_prefix fr) ?header ly (length src) (\<lambda>_ _. True) [0..<k] (?at 0)
      = (?at k, Inr ())"
    unfolding ly by (rule encrypt_records_spec) (use assms(1,2) b(4) in \<open>simp_all add: ly\<close>)
  have start: "?at 0 = \<lparr>es_source = \<lparr>rd_bytes = src, rd_fault = False\<rparr>,
      es_out = vec_writer\<lparr>w_bytes := ?header\<rparr>, es_hashed = ?header, es_written = HEADER_BYTES\<rparr>"
    by (simp add: enc_at_def at_record_def vec_writer_def Let_def)
  have at: "at_record plen k = plen" using b(5) by (simp add: ly at_record_def)
  have "drop (plen - length pre) src = []" using b(2) by (simp add: ly)
  then have fin: "encrypt_finish L ly (?at k) = Inr \<lparr>sl_metadata = md, sl_envelope_bytes = envelope_len_for plen,
      sl_sha256 = lib_sha256 L (envelope_of L r input_key fr ly src)\<rparr>"
    using at k by (simp add: encrypt_finish_def enc_at_def read_some_def w_flush_def envelope_len_for_def
        envelope_of_def ly Let_def)
  have out: "es_out (?at k) = vec_writer\<lparr>w_bytes := envelope_of L r input_key fr ly src\<rparr>"
    by (simp add: enc_at_def envelope_of_def vec_writer_def ly Let_def)
  have w: "w_all ?header vec_writer = (vec_writer\<lparr>w_bytes := ?header\<rparr>, Inr ())"
    by (simp add: w_all_def vec_writer_def)
  show ?thesis
    using recs fin out w start assms(3) by (simp add: encrypt_with_def Let_def ly)
qed

section \<open>Opening\<close>

lemma header_parts:
  assumes "length np = 8" "length salt = 32"
  shows "length (header_bytes k np salt) = HEADER_BYTES" "take 8 (header_bytes k np salt) = MAGIC"
    "take 4 (drop 8 (header_bytes k np salt)) = be32 CHUNK_BYTES"
    "take 4 (drop 12 (header_bytes k np salt)) = be32 k"
    "take 8 (drop 16 (header_bytes k np salt)) = np" "drop 24 (header_bytes k np salt) = salt"
  using assms by (simp_all add: header_bytes_def HEADER_BYTES_def)

lemma read_header_spec:
  assumes "length np = 8" "length salt = 32" "0 < k" "k \<le> max_records lim" "k \<le> u32_max"
    "(k - 1) * CHUNK_BYTES < plen" "plen \<le> k * CHUNK_BYTES"
    "elen = HEADER_BYTES + plen + k * TAG_BYTES"
  shows "read_header \<lparr>rd_bytes = header_bytes k np salt @ rest, rd_fault = f\<rparr> elen lim
    = Inr (header_bytes k np salt, k, \<lparr>rd_bytes = rest, rd_fault = f\<rparr>)"
proof -
  let ?h = "header_bytes k np salt"
  note hp = header_parts [OF assms(1,2), of k]
  have split: "?h = MAGIC @ drop 8 ?h" by (metis append_take_drop_id hp(2))
  have l: "length (drop 8 ?h) = 48" using hp(1) by (simp add: HEADER_BYTES_def)
  have r1: "rd_exact 8 \<lparr>rd_bytes = ?h @ rest, rd_fault = f\<rparr>
      = Inr (MAGIC, \<lparr>rd_bytes = drop 8 ?h @ rest, rd_fault = f\<rparr>)"
    by (subst split) (simp add: rd_exact_def)
  have r2: "rd_exact (HEADER_BYTES - 8) \<lparr>rd_bytes = drop 8 ?h @ rest, rd_fault = f\<rparr>
      = Inr (drop 8 ?h, \<lparr>rd_bytes = rest, rd_fault = f\<rparr>)"
    using l by (simp add: rd_exact_def HEADER_BYTES_def)
  have chunk: "of_be32 (be32 CHUNK_BYTES) = CHUNK_BYTES" and cnt: "of_be32 (be32 k) = k"
    using assms(5) by (simp_all add: of_be32_be32 CHUNK_BYTES_def u32_max_def)
  obtain j where j: "k = Suc j" using assms(3) by (cases k) auto
  have range: "\<not> (elen < HEADER_BYTES + (k - 1) * RECORD_BYTES + 1 + TAG_BYTES
      \<or> elen > HEADER_BYTES + k * RECORD_BYTES)"
    using assms(6-8) by (simp add: j RECORD_BYTES_def distrib_left)
  have "\<not> elen < length MAGIC" "\<not> elen < HEADER_BYTES" using assms(8) by (simp_all add: HEADER_BYTES_def)
  then show ?thesis
    unfolding read_header_def Let_def
    using r1 r2 range chunk cnt hp(3,4) split assms(3,4) by simp
qed

lemma write_source_spec:
  assumes "length data = n"
    "\<And>p. p < n \<Longrightarrow> plen \<le> offset + p \<Longrightarrow> offset + p < plen + length src \<Longrightarrow> data ! p = src ! (offset + p - plen)"
  shows "write_source plen (length src) offset data \<lparr>w_bytes = take (offset - plen) src, w_room = None, w_flush_ok = fl\<rparr>
    = (\<lparr>w_bytes = take (offset + n - plen) src, w_room = None, w_flush_ok = fl\<rparr>, Inr ())"
proof (cases "overlap offset n plen (length src)")
  case None
  then have no: "min (plen + length src) (offset + n) \<le> max plen offset"
    by (auto simp: overlap_def Let_def split: if_splits)
  then have "take (offset - plen) src = take (offset + n - plen) src"
    by (cases "offset + n \<le> plen"; cases "n = 0") (auto simp: min_def max_def split: if_splits)
  then show ?thesis using None assms(1) by (simp add: write_source_def)
next
  case (Some ft)
  define at where "at = max plen offset - offset"
  define k where "k = min (plen + length src) (offset + n) - max plen offset"
  have lt: "max plen offset < min (plen + length src) (offset + n)"
    using Some by (auto simp: overlap_def Let_def split: if_splits)
  then have ft: "ft = (at, at + k)" using Some by (auto simp: overlap_def Let_def at_def k_def)
  have "take k (drop at data) = take k (drop (offset - plen) src)"
  proof (rule nth_equalityI)
    show "length (take k (drop at data)) = length (take k (drop (offset - plen) src))"
      using assms(1) lt by (auto simp: at_def k_def min_def max_def split: if_splits)
    fix i
    assume "i < length (take k (drop at data))"
    then have i: "i < k" "at + i < n" using assms(1) by auto
    then have "data ! (at + i) = src ! (offset + (at + i) - plen)"
      using lt by (intro assms(2)) (auto simp: at_def k_def min_def max_def split: if_splits)
    moreover have "offset + (at + i) - plen = offset - plen + i" by (auto simp: at_def max_def)
    moreover have "offset - plen + i < length src"
      using i lt by (auto simp: k_def min_def max_def split: if_splits)
    ultimately show "take k (drop at data) ! i = take k (drop (offset - plen) src) ! i"
      using i assms(1) by simp
  qed
  moreover have "take (offset - plen) src @ take k (drop (offset - plen) src) = take (offset - plen + k) src"
    by (simp add: take_add)
  moreover have "take (offset - plen + k) src = take (offset + n - plen) src"
    using lt by (auto simp: k_def min_def max_def split: if_splits)
  ultimately show ?thesis using Some ft assms(1) by (simp add: write_source_def w_all_def)
qed

lemma parse_prefix:
  assumes "json_laws L" "canonical_metadata L md = Inr json"
    "sanitise_name (lib_nfc L) (md_name md) = md_name md"
    "normalise_media_type (lib_lowercase L) (md_type md) = Inr (md_type md)"
  shows "parse_metadata L ((be32 (length json) @ json) @ rest) = Inr (md, 4 + length json)"
proof -
  from assms(2) have j: "lib_json L md = Some json" "length json \<le> 4096"
    by (simp_all add: canonical_metadata_Inr MAX_METADATA_BYTES_def)
  then have jl: "lib_from_json L json = Some md" "utf8_valid json" "2 \<le> length json"
    using assms(1) unfolding json_laws_def by (metis option.inject)+
  have n: "of_be32 (be32 (length json)) = length json" using j(2) by (simp add: of_be32_be32)
  show ?thesis
    using assms(2-4) j(2) jl n
    by (simp add: parse_metadata_def Let_def check_metadata_def ok_opt_def MAX_METADATA_BYTES_def)
qed

lemma record_plain_prefix:
  assumes "length pre \<le> record_len plen 0"
  shows "record_plain r pre src plen 0 = pre @ drop (length pre) (record_plain r pre src plen 0)"
proof -
  have "take (length pre) (record_plain r pre src plen 0) = pre"
    by (rule nth_equalityI) (use assms in \<open>auto simp: record_plain_def logical_def\<close>)
  then show ?thesis by (metis append_take_drop_id)
qed

lemma sealed_record_split:
  assumes "aead_laws L" "length plain \<le> CHUNK_BYTES"
  shows "length (sealed_record L key np header c plain) = length plain + TAG_BYTES"
    "lib_open L key (nonce_bytes np c) (aad_bytes header c)
       (take (length plain) (sealed_record L key np header c plain))
       (drop (length plain) (sealed_record L key np header c plain)) = Some plain"
  by (rule aead_seal [OF assms, of key "nonce_bytes np c" "aad_bytes header c"];
      simp add: sealed_record_def)+

text \<open>The state of the opening loop before record \<open>c\<close> of an envelope of \<open>k\<close> records.\<close>

definition dec_at ::
  "libs \<Rightarrow> rng \<Rightarrow> bytes \<Rightarrow> bytes \<Rightarrow> bytes \<Rightarrow> bytes \<Rightarrow> bytes \<Rightarrow> metadata \<Rightarrow> nat \<Rightarrow> nat \<Rightarrow> nat \<Rightarrow> dec_state" where
  "dec_at L r key np header pre src md plen k c =
     \<lparr>ds_in = \<lparr>rd_bytes = concat (map (\<lambda>c. sealed_record L key np header c (record_plain r pre src plen c)) [c..<k]),
               rd_fault = False\<rparr>,
      ds_out = \<lparr>w_bytes = take (at_record plen c - length pre) src, w_room = None, w_flush_ok = True\<rparr>,
      ds_opened = (if c = 0 then None else Some (md, length pre)),
      ds_read = HEADER_BYTES + at_record plen c + c * TAG_BYTES\<rparr>"

text \<open>What a layout owes the decoder.\<close>

definition opens_as :: "libs \<Rightarrow> limits \<Rightarrow> metadata \<Rightarrow> bytes \<Rightarrow> bytes \<Rightarrow> nat \<Rightarrow> bool" where
  "opens_as L lim md pre src plen \<longleftrightarrow>
     (\<forall>rest. parse_metadata L (pre @ rest) = Inr (md, length pre)) \<and> length pre \<le> 4100
     \<and> md_size md = length src \<and> length src \<le> max_source_bytes lim
     \<and> length pre + length src \<le> plen \<and> padded_length (length pre + length src) = plen
     \<and> MIN_PADDING_BUCKET \<le> plen"

lemma open_first_spec:
  assumes "opens_as L lim md pre src plen"
  shows "open_first L lim plen (record_plain r pre src plen c) (if c = 0 then None else Some (md, length pre))
    = Inr (md, length pre)"
proof (cases "c = 0")
  case True
  have "length pre \<le> record_len plen 0"
    using assms by (simp add: opens_as_def record_len_def CHUNK_BYTES_def MIN_PADDING_BUCKET_def)
  then obtain rest where "record_plain r pre src plen 0 = pre @ rest" using record_plain_prefix by blast
  then show ?thesis using assms True by (simp add: open_first_def opens_as_def)
qed (simp add: open_first_def)

lemma record_size:
  assumes "c < k" "(k - 1) * CHUNK_BYTES < plen" "plen \<le> k * CHUNK_BYTES" "elen = HEADER_BYTES + plen + k * TAG_BYTES"
  shows "(if c + 1 = k then elen - HEADER_BYTES - (k - 1) * RECORD_BYTES else RECORD_BYTES) = record_len plen c + TAG_BYTES"
    "c * CHUNK_BYTES < plen"
proof -
  obtain j where j: "k = Suc j" using assms(1) by (cases k) auto
  have "c * CHUNK_BYTES \<le> j * CHUNK_BYTES" using assms(1) j by simp
  then show "c * CHUNK_BYTES < plen" by (rule le_less_trans) (use assms(2) j in simp)
  show "(if c + 1 = k then elen - HEADER_BYTES - (k - 1) * RECORD_BYTES else RECORD_BYTES) = record_len plen c + TAG_BYTES"
  proof (cases "c + 1 = k")
    case True
    then show ?thesis using assms j by (simp add: record_len_def RECORD_BYTES_def distrib_left min_def)
  next
    case False
    then have "Suc c * CHUNK_BYTES \<le> j * CHUNK_BYTES" using assms(1) j by (intro mult_le_mono1) simp
    then have "CHUNK_BYTES + c * CHUNK_BYTES < plen"
      by (simp only: mult_Suc) (rule le_less_trans, use assms(2) j in simp_all)
    then have "CHUNK_BYTES \<le> plen - c * CHUNK_BYTES" by linarith
    then show ?thesis using False by (simp add: record_len_def RECORD_BYTES_def)
  qed
qed

lemma decrypt_record_spec:
  assumes "aead_laws L" "opens_as L lim md pre src plen" "take 8 (drop 16 header) = np"
    "c < k" "(k - 1) * CHUNK_BYTES < plen" "plen \<le> k * CHUNK_BYTES"
    "elen = HEADER_BYTES + plen + k * TAG_BYTES"
  shows "decrypt_record L lim key header k elen (\<lambda>_ _. True) c (dec_at L r key np header pre src md plen k c)
    = (dec_at L r key np header pre src md plen k (Suc c), Inr ())"
proof -
  let ?plain = "record_plain r pre src plen c" and ?n = "record_len plen c"
  let ?sealed = "sealed_record L key np header c ?plain"
  note len = record_size(1) [OF assms(4-7)] and c = record_size(2) [OF assms(4-7)]
  have plen: "elen - HEADER_BYTES - k * TAG_BYTES = plen" using assms(7) by simp
  have sl: "length ?sealed = ?n + TAG_BYTES" "lib_open L key (nonce_bytes np c) (aad_bytes header c)
      (take ?n ?sealed) (drop ?n ?sealed) = Some ?plain"
    using sealed_record_split [OF assms(1), of ?plain] record_len_le by auto
  have "[c..<k] = c # [Suc c..<k]" using assms(4) by (simp add: upt_conv_Cons)
  then have rd: "rd_exact (?n + TAG_BYTES) (ds_in (dec_at L r key np header pre src md plen k c))
      = Inr (?sealed, ds_in (dec_at L r key np header pre src md plen k (Suc c)))"
    using sl(1) by (simp add: rd_exact_def dec_at_def)
  have at: "at_record plen c = c * CHUNK_BYTES" "at_record plen (Suc c) = c * CHUNK_BYTES + ?n"
    using at_record_step [OF c] by simp_all
  have "write_source (length pre) (length src) (c * CHUNK_BYTES) ?plain
      \<lparr>w_bytes = take (c * CHUNK_BYTES - length pre) src, w_room = None, w_flush_ok = True\<rparr>
    = (\<lparr>w_bytes = take (c * CHUNK_BYTES + ?n - length pre) src, w_room = None, w_flush_ok = True\<rparr>, Inr ())"
    by (rule write_source_spec) (auto simp: record_plain_def logical_def)
  then have ws: "write_source (length pre) (md_size md) (c * CHUNK_BYTES) ?plain (ds_out (dec_at L r key np header pre src md plen k c))
      = (ds_out (dec_at L r key np header pre src md plen k (Suc c)), Inr ())"
    using at assms(2) by (simp add: dec_at_def opens_as_def)
  have of: "open_first L lim plen ?plain (ds_opened (dec_at L r key np header pre src md plen k c)) = Inr (md, length pre)"
    using open_first_spec [OF assms(2)] by (simp add: dec_at_def)
  show ?thesis
    unfolding decrypt_record_def Let_def len plen rd assms(3)
    using sl(2) ws of at by (simp add: report_def) (simp add: dec_at_def)
qed

lemma decrypt_records_spec:
  assumes "aead_laws L" "opens_as L lim md pre src plen" "take 8 (drop 16 header) = np"
    "(k - 1) * CHUNK_BYTES < plen" "plen \<le> k * CHUNK_BYTES"
    "elen = HEADER_BYTES + plen + k * TAG_BYTES" "c \<le> k"
  shows "decrypt_records L lim key header k elen (\<lambda>_ _. True) [c..<k] (dec_at L r key np header pre src md plen k c)
    = (dec_at L r key np header pre src md plen k k, Inr ())"
  using assms(7)
proof (induction "k - c" arbitrary: c)
  case (Suc d)
  then have c: "c < k" by simp
  then have "[c..<k] = c # [Suc c..<k]" "d = k - Suc c" "Suc c \<le> k"
    using Suc.hyps(2) by (auto simp: upt_conv_Cons)
  then show ?case
    using Suc.hyps(1) decrypt_record_spec [OF assms(1-3) c assms(4-6), of key r] by simp
qed simp

lemma open_envelope:
  assumes "aead_laws L" "opens_as L lim md pre src plen" "length np = 8" "length salt = 32"
    "0 < k" "k \<le> max_records lim" "k \<le> u32_max" "(k - 1) * CHUNK_BYTES < plen" "plen \<le> k * CHUNK_BYTES"
    and env: "env = header_bytes k np salt @ concat (map (\<lambda>c. sealed_record L (derive_envelope_key L input_key salt) np
        (header_bytes k np salt) c (record_plain r pre src plen c)) [0..<k])"
      "length env = HEADER_BYTES + plen + k * TAG_BYTES"
  shows "open_bytes L input_key env lim = Inr (md, src)"
proof -
  let ?h = "header_bytes k np salt" and ?key = "derive_envelope_key L input_key salt"
  let ?at = "dec_at L r ?key np ?h pre src md plen k"
  have h: "read_header \<lparr>rd_bytes = env, rd_fault = False\<rparr> (length env) lim = Inr (?h, k, ds_in (?at 0))"
    using read_header_spec [OF assms(3-9) env(2)] by (simp add: env(1) dec_at_def)
  have hd: "take 8 (drop 16 ?h) = np" "drop 24 ?h = salt" using header_parts [OF assms(3,4)] by simp_all
  have run: "decrypt_records L lim ?key ?h k (length env) (\<lambda>_ _. True) [0..<k] (?at 0) = (?at k, Inr ())"
    using decrypt_records_spec [OF assms(1,2) hd(1) assms(8,9) env(2)] by simp
  have start: "?at 0 = \<lparr>ds_in = ds_in (?at 0), ds_out = vec_writer, ds_opened = None, ds_read = HEADER_BYTES\<rparr>"
    by (simp add: dec_at_def at_record_def vec_writer_def)
  have "at_record plen k = plen" using assms(9) by (simp add: at_record_def)
  moreover have "length src \<le> plen - length pre" using assms(2) by (auto simp: opens_as_def)
  ultimately have out: "w_bytes (ds_out (?at k)) = src" "decrypt_finish (?at k) = Inr md"
    using assms(5) by (simp_all add: dec_at_def decrypt_finish_def read_some_def w_flush_def)
  show ?thesis
    using h run start hd(2) out by (simp add: open_bytes_def decrypt_def)
qed

lemma sum_record_lens:
  assumes "(k - 1) * CHUNK_BYTES < plen" "plen \<le> k * CHUNK_BYTES" "c \<le> k"
  shows "(\<Sum>i<c. record_len plen i) = at_record plen c"
  using assms(3)
proof (induction c)
  case (Suc c)
  then have "c * CHUNK_BYTES \<le> (k - 1) * CHUNK_BYTES" by (intro mult_le_mono1) simp
  then have "c * CHUNK_BYTES < plen" using assms(1) by linarith
  then show ?case using Suc at_record_step by simp
qed (simp add: at_record_def)

lemma envelope_length:
  assumes "aead_laws L" "length np = 8" "length salt = 32" "(k - 1) * CHUNK_BYTES < plen" "plen \<le> k * CHUNK_BYTES"
  shows "length (header_bytes k np salt @ concat (map (\<lambda>c. sealed_record L key np header c (record_plain r pre src plen c)) [0..<k]))
    = HEADER_BYTES + plen + k * TAG_BYTES"
proof -
  have "length (sealed_record L key np header c (record_plain r pre src plen c)) = record_len plen c + TAG_BYTES" for c
    using sealed_record_split(1) [OF assms(1), of "record_plain r pre src plen c"] record_len_le by simp
  then have "length (concat (map (\<lambda>c. sealed_record L key np header c (record_plain r pre src plen c)) [0..<k]))
      = (\<Sum>c<k. record_len plen c + TAG_BYTES)"
    by (simp add: length_concat comp_def interv_sum_list_conv_sum_set_nat atLeast0LessThan)
  also have "\<dots> = plen + k * TAG_BYTES"
    using sum_record_lens [OF assms(4,5) order_refl] assms(5) by (simp add: sum.distrib at_record_def)
  finally show ?thesis using header_parts(1) [OF assms(2,3)] by simp
qed

section \<open>Round trip\<close>

lemma layout_of_plaintext:
  "layout_of L name ty n lim = Inr ly \<Longrightarrow>
     \<exists>t json. normalise_media_type (lib_lowercase L) ty = Inr t
       \<and> canonical_metadata L \<lparr>md_name = sanitise_name (lib_nfc L) name, md_size = n, md_type = t\<rparr> = Inr json
       \<and> ly_plaintext_len ly = padded_length (4 + length json + n)"
  by (elim layout_of_Inr) auto

lemma div_ceil_unique:
  assumes "0 < b" "0 < k" "(k - 1) * b < a" "a \<le> k * b"
  shows "div_ceil a b = k"
proof -
  have "(k - 1) * b < div_ceil a b * b" using assms(3) div_ceil_ge [OF assms(1)] by (rule less_le_trans)
  then have "k - 1 < div_ceil a b" unfolding mult_less_cancel2 by simp
  moreover have "0 < a" using assms(3) by (cases a) auto
  then have "(div_ceil a b - 1) * b < k * b"
    using div_ceil_less_mult [OF assms(1)] assms(4) less_le_trans by blast
  then have "div_ceil a b - 1 < k" unfolding mult_less_cancel2 by simp
  ultimately show ?thesis using assms(2) by simp
qed

lemma max_records_le: "max_records lim \<le> u32_max"
  by (simp add: max_records_def Let_def)

lemma plen_bound: "k \<le> max_records lim \<Longrightarrow> plen \<le> k * CHUNK_BYTES \<Longrightarrow> plen \<le> 2 ^ 52"
proof -
  assume "k \<le> max_records lim" "plen \<le> k * CHUNK_BYTES"
  then have "k \<le> 2 ^ 32" using max_records_le [of lim] by (simp add: u32_max_def)
  then have "k * CHUNK_BYTES \<le> 2 ^ 32 * CHUNK_BYTES" by (rule mult_le_mono1)
  then show ?thesis using \<open>plen \<le> k * CHUNK_BYTES\<close> by (simp add: CHUNK_BYTES_def)
qed

lemma encrypt_record_rng: "encrypt_record L r key np header ly n progress c st = (st', Inr u) \<Longrightarrow> rng_ok r (c + 2)"
  by (auto simp: encrypt_record_def Let_def fill_padding_def rng_fill_def split: if_splits)

lemma encrypt_records_rng:
  "encrypt_records L r key np header ly n progress cs st = (st', Inr u) \<Longrightarrow> \<forall>c \<in> set cs. rng_ok r (c + 2)"
  by (induction L r key np header ly n progress cs st rule: encrypt_records.induct)
    (auto simp: st_then_Inr dest!: encrypt_record_rng)

lemma draw_fresh_Inr:
  "draw_fresh r = Inr fr \<Longrightarrow> length (fr_nonce_prefix fr) = 8 \<and> length (fr_salt fr) = 32"
  by (auto simp: draw_fresh_def try_then_Inr rng_fill_def split: if_splits)

lemma seal_bytes_Inr:
  assumes "aead_laws L" "length src \<le> 2 ^ 51" "seal_bytes L r input_key name ty src lim = Inr env"
  obtains fr ly where "draw_fresh r = Inr fr" "layout_of L name ty (length src) lim = Inr ly"
    "env = envelope_of L r input_key fr ly src"
proof -
  from assms(3) obtain fr ly where fr: "draw_fresh r = Inr fr" and ly: "layout_of L name ty (length src) lim = Inr ly"
    by (auto simp: seal_bytes_def encrypt_def encrypt_with_def split: sum.splits prod.splits)
  have "rng_ok r (i + 2)" if "i < ly_record_count ly" for i
    using assms(3) fr ly that encrypt_records_rng
    by (fastforce simp: seal_bytes_def encrypt_def encrypt_with_def Let_def w_all_def vec_writer_def
        split: sum.splits prod.splits)
  then have "encrypt_with L r input_key \<lparr>rd_bytes = src, rd_fault = False\<rparr> (length src) name ty lim fr vec_writer (\<lambda>_ _. True)
    = (vec_writer\<lparr>w_bytes := envelope_of L r input_key fr ly src\<rparr>,
       Inr \<lparr>sl_metadata = ly_metadata ly, sl_envelope_bytes = envelope_len_for (ly_plaintext_len ly),
            sl_sha256 = lib_sha256 L (envelope_of L r input_key fr ly src)\<rparr>)"
    using encrypt_with_spec [OF assms(1) _ ly assms(2)] by blast
  then have "env = envelope_of L r input_key fr ly src"
    using assms(3) fr by (simp add: seal_bytes_def encrypt_def)
  then show thesis using that fr ly by blast
qed

lemma layout_opens:
  assumes "libs_laws L" "layout_of L name ty (length src) lim = Inr ly" "length src \<le> 2 ^ 51"
  shows "opens_as L lim (ly_metadata ly) (ly_prefix ly) src (ly_plaintext_len ly)"
proof -
  from assms(2) obtain t json where ly: "normalise_media_type (lib_lowercase L) ty = Inr t"
    "ly_metadata ly = \<lparr>md_name = sanitise_name (lib_nfc L) name, md_size = length src, md_type = t\<rparr>"
    "canonical_metadata L (ly_metadata ly) = Inr json" "ly_prefix ly = be32 (length json) @ json"
    "ly_plaintext_len ly = padded_length (4 + length json + length src)" "length src \<le> max_source_bytes lim"
    by (elim layout_of_Inr)
  have laws: "nfc_laws (lib_nfc L)" "lowercase_laws (lib_lowercase L)" "json_laws L"
    using assms(1) by (simp_all add: libs_laws_def)
  have "parse_metadata L ((be32 (length json) @ json) @ rest) = Inr (ly_metadata ly, 4 + length json)" for rest
    by (rule parse_prefix [OF laws(3) ly(3)])
      (use sanitise_name_idem [OF laws(1)] normalise_idem [OF laws(2) ly(1)] in \<open>simp_all add: ly(2)\<close>)
  then show ?thesis
    using layout_of_bounds [OF assms(2,3)] ly(2,4-6) by (simp add: opens_as_def)
qed

lemma open_sealed:
  assumes "libs_laws L" "length src \<le> 2 ^ 51" "draw_fresh r = Inr fr"
    "layout_of L name ty (length src) lim = Inr ly" "env = envelope_of L r input_key fr ly src"
  shows "open_bytes L input_key env lim = Inr (ly_metadata ly, src)"
    "length env = envelope_len_for (ly_plaintext_len ly)"
proof -
  have laws: "aead_laws L" using assms(1) by (simp add: libs_laws_def)
  note b = layout_of_bounds [OF assms(4,2)] and f = draw_fresh_Inr [OF assms(3)]
  have k: "0 < ly_record_count ly" "ly_record_count ly \<le> max_records lim" "ly_record_count ly \<le> u32_max"
    "ly_record_count ly = div_ceil (ly_plaintext_len ly) CHUNK_BYTES"
    using assms(4) by (elim layout_of_Inr, simp)+
  have len: "length env = HEADER_BYTES + ly_plaintext_len ly + ly_record_count ly * TAG_BYTES"
    using envelope_length [OF laws _ _ b(4,5)] f by (simp add: assms(5) envelope_of_def Let_def)
  then show "length env = envelope_len_for (ly_plaintext_len ly)" using k(4) by (simp add: envelope_len_for_def)
  show "open_bytes L input_key env lim = Inr (ly_metadata ly, src)"
    by (rule open_envelope [OF laws layout_opens [OF assms(1,4,2)] _ _ k(1-3) b(4,5) _ len])
      (use f in \<open>simp_all add: assms(5) envelope_of_def Let_def\<close>)
qed

section \<open>Authenticity\<close>

text \<open>The state after \<open>c\<close> records have been opened: the plaintext so far, the bytes it was sealed as, and what was written.\<close>

definition opened_at ::
  "libs \<Rightarrow> bytes \<Rightarrow> bytes \<Rightarrow> bytes \<Rightarrow> bytes \<Rightarrow> nat \<Rightarrow> nat \<Rightarrow> bytes \<Rightarrow> dec_state \<Rightarrow> bool" where
  "opened_at L key np header input plen c d st \<longleftrightarrow>
     length d = at_record plen c
     \<and> input = concat (map (\<lambda>i. sealed_record L key np header i (take CHUNK_BYTES (drop (i * CHUNK_BYTES) d))) [0..<c])
         @ rd_bytes (ds_in st)
     \<and> w_room (ds_out st) = None
     \<and> (if c = 0 then ds_opened st = None \<and> w_bytes (ds_out st) = []
        else \<exists>md pl. ds_opened st = Some (md, pl) \<and> parse_metadata L (take CHUNK_BYTES d) = Inr (md, pl)
               \<and> w_bytes (ds_out st) = take (md_size md) (drop pl d))"

lemma write_source_take:
  assumes "w_room w = None" "w_bytes w = take n (drop pl d)" "length d = offset"
    "write_source pl n offset data w = (w', Inr u)"
  shows "w_room w' = None" "w_bytes w' = take n (drop pl (d @ data))"
proof -
  let ?len = "length data"
  have t: "take n (drop pl (d @ data)) = take n (drop pl d) @ take (n - (offset - pl)) (drop (pl - offset) data)"
    using assms(3) by simp
  show "w_room w' = None"
    using assms(1,4) by (auto simp: write_source_def w_all_def split: option.splits prod.splits)
  show "w_bytes w' = take n (drop pl (d @ data))"
  proof (cases "overlap offset ?len pl n")
    case None
    then have "min (pl + n) (offset + ?len) \<le> max pl offset"
      by (auto simp: overlap_def Let_def split: if_splits)
    then have "take (n - (offset - pl)) (drop (pl - offset) data) = []"
      by (auto simp: min_def max_def split: if_splits)
    then show ?thesis using None assms(2,4) t by (simp add: write_source_def)
  next
    case (Some ft)
    then have ft: "ft = (max pl offset - offset, min (pl + n) (offset + ?len) - offset)"
      and lt: "max pl offset < min (pl + n) (offset + ?len)"
      by (auto simp: overlap_def Let_def split: if_splits)
    have "take (snd ft - fst ft) (drop (fst ft) data) = take (n - (offset - pl)) (drop (pl - offset) data)"
      using lt by (auto simp: ft min_def max_def add.commute)
    then show ?thesis
      using Some assms(1,2,4) t by (auto simp: write_source_def w_all_def split: prod.splits)
  qed
qed

lemma slice_append:
  "length d = c * n \<Longrightarrow> i < c \<Longrightarrow> take n (drop (i * n) (d @ e)) = take n (drop (i * n) d)"
proof -
  assume d: "length d = c * n" and "i < c"
  then have "Suc i * n \<le> c * n" by (intro mult_le_mono1) simp
  then show ?thesis using d by simp
qed

lemma decrypt_record_authentic:
  assumes laws: "aead_laws L" and np: "take 8 (drop 16 header) = np"
    and k: "c < k" "(k - 1) * CHUNK_BYTES < plen" "plen \<le> k * CHUNK_BYTES" "elen = HEADER_BYTES + plen + k * TAG_BYTES"
    and st: "opened_at L key np header input plen c d st"
    and run: "decrypt_record L lim key header k elen progress c st = (st', Inr u)"
  shows "\<exists>data. opened_at L key np header input plen (Suc c) (d @ data) st'"
    "c = 0 \<Longrightarrow> \<exists>md pl. ds_opened st' = Some (md, pl) \<and> md_size md \<le> plen
       \<and> padded_length (pl + md_size md) = plen \<and> md_size md \<le> max_source_bytes lim"
    "c \<noteq> 0 \<Longrightarrow> ds_opened st' = ds_opened st"
proof -
  note rs = record_size [OF k]
  let ?n = "record_len plen c"
  have "elen - HEADER_BYTES - k * TAG_BYTES = plen" using k(4) by simp
  then obtain buffer inp data md pl w where r: "rd_exact (?n + TAG_BYTES) (ds_in st) = Inr (buffer, inp)"
    "lib_open L key (nonce_bytes np c) (aad_bytes header c) (take ?n buffer) (drop ?n buffer) = Some data"
    "open_first L lim plen data (ds_opened st) = Inr (md, pl)"
    "write_source pl (md_size md) (c * CHUNK_BYTES) data (ds_out st) = (w, Inr ())"
    "st' = \<lparr>ds_in = inp, ds_out = w, ds_opened = Some (md, pl), ds_read = ds_read st + (?n + TAG_BYTES)\<rparr>"
    using run unfolding decrypt_record_def Let_def rs(1) np
    by (auto split: sum.splits option.splits prod.splits)
  have b: "length buffer = ?n + TAG_BYTES" "rd_bytes (ds_in st) = buffer @ rd_bytes inp"
    using r(1) by (auto simp: rd_exact_def split: if_splits)
  note ao = aead_open [OF laws r(2)]
  have data: "length data = ?n" using ao b(1) by simp
  have sealed: "sealed_record L key np header c data = buffer" using ao by (simp add: sealed_record_def)
  have at: "length d = c * CHUNK_BYTES" "at_record plen (Suc c) = c * CHUNK_BYTES + ?n"
    using st at_record_step [OF rs(2)] by (simp_all add: opened_at_def)
  have first: "c = 0 \<Longrightarrow> parse_metadata L data = Inr (md, pl) \<and> md_size md \<le> plen
      \<and> padded_length (pl + md_size md) = plen \<and> md_size md \<le> max_source_bytes lim"
    using r(3) st by (auto simp: open_first_def opened_at_def try_then_Inr split: if_splits prod.splits)
  have later: "c \<noteq> 0 \<Longrightarrow> ds_opened st = Some (md, pl)"
    using r(3) st by (auto simp: open_first_def opened_at_def split: option.splits)
  then show "c \<noteq> 0 \<Longrightarrow> ds_opened st' = ds_opened st" using r(5) by simp
  show "c = 0 \<Longrightarrow> \<exists>md pl. ds_opened st' = Some (md, pl) \<and> md_size md \<le> plen
      \<and> padded_length (pl + md_size md) = plen \<and> md_size md \<le> max_source_bytes lim"
    using first r(5) by simp
  have wb: "w_room (ds_out st) = None" "w_bytes (ds_out st) = take (md_size md) (drop pl d)"
    using st later at(1) by (auto simp: opened_at_def split: if_splits)
  note ws = write_source_take [OF wb at(1) r(4)]
  have pm: "parse_metadata L (take CHUNK_BYTES (d @ data)) = Inr (md, pl)"
  proof (cases "c = 0")
    case True
    then have "d = []" using at(1) by simp
    then show ?thesis using first True data record_len_le [of plen c] by simp
  next
    case False
    then have "CHUNK_BYTES \<le> length d" using at(1) by (cases c) auto
    then show ?thesis using st later [OF False] False by (auto simp: opened_at_def)
  qed
  let ?sealed = "\<lambda>d i. sealed_record L key np header i (take CHUNK_BYTES (drop (i * CHUNK_BYTES) d))"
  have old: "map (?sealed (d @ data)) [0..<c] = map (?sealed d) [0..<c]"
    by (rule map_cong [OF refl]) (simp only: slice_append [OF at(1)] set_upt atLeastLessThan_iff)
  have new: "?sealed (d @ data) c = buffer"
    using sealed at(1) data record_len_le [of plen c] by simp
  have "concat (map (?sealed (d @ data)) [0..<Suc c]) = concat (map (?sealed d) [0..<c]) @ buffer"
    using old new by (simp del: drop_append take_append map_eq_conv)
  then have "input = concat (map (?sealed (d @ data)) [0..<Suc c]) @ rd_bytes inp"
    using st b(2) unfolding opened_at_def by (simp del: drop_append take_append upt_Suc)
  then have "opened_at L key np header input plen (Suc c) (d @ data) st'"
    using at data r(5) ws pm by (simp add: opened_at_def del: drop_append take_append upt_Suc)
  then show "\<exists>data. opened_at L key np header input plen (Suc c) (d @ data) st'" by blast
qed

lemma decrypt_records_authentic:
  assumes laws: "aead_laws L" and np: "take 8 (drop 16 header) = np"
    and k: "(k - 1) * CHUNK_BYTES < plen" "plen \<le> k * CHUNK_BYTES" "elen = HEADER_BYTES + plen + k * TAG_BYTES"
    and run: "decrypt_records L lim key header k elen progress [c..<k] st = (st', Inr u)" "c \<le> k"
    and st: "opened_at L key np header input plen c d st"
      "c \<noteq> 0 \<Longrightarrow> (\<exists>md pl. ds_opened st = Some (md, pl) \<and> md_size md \<le> plen
         \<and> padded_length (pl + md_size md) = plen \<and> md_size md \<le> max_source_bytes lim)"
  shows "\<exists>e. opened_at L key np header input plen k (d @ e) st'
    \<and> (k \<noteq> 0 \<longrightarrow> (\<exists>md pl. ds_opened st' = Some (md, pl) \<and> md_size md \<le> plen
         \<and> padded_length (pl + md_size md) = plen \<and> md_size md \<le> max_source_bytes lim))"
  using run st
proof (induction "k - c" arbitrary: c d st)
  case 0
  then have "c = k" "st' = st" by simp_all
  then show ?case using 0 by (intro exI [of _ "[]"]) simp
next
  case (Suc n)
  then have c: "c < k" by simp
  then have "[c..<k] = c # [Suc c..<k]" by (simp add: upt_conv_Cons)
  then obtain st1 where s: "decrypt_record L lim key header k elen progress c st = (st1, Inr ())"
    "decrypt_records L lim key header k elen progress [Suc c..<k] st1 = (st', Inr u)"
    using Suc.prems(1) by (auto simp: st_then_Inr)
  note au = decrypt_record_authentic [OF laws np c k Suc.prems(3) s(1)]
  obtain data where d: "opened_at L key np header input plen (Suc c) (d @ data) st1" using au(1) by blast
  have "\<exists>md pl. ds_opened st1 = Some (md, pl) \<and> md_size md \<le> plen
      \<and> padded_length (pl + md_size md) = plen \<and> md_size md \<le> max_source_bytes lim"
    using au(2,3) Suc.prems(4) by (cases "c = 0") auto
  moreover have "n = k - Suc c" "Suc c \<le> k" using Suc.hyps(2) c by auto
  ultimately show ?case using Suc.hyps(1) [of "Suc c" st1 "d @ data"] s(2) d by auto
qed

lemma rd_exact_split: "rd_exact n rd = Inr (got, rd') \<Longrightarrow> rd_bytes rd = got @ rd_bytes rd' \<and> length got = n"
  by (auto simp: rd_exact_def split: if_splits)

lemma read_header_Inr:
  assumes "read_header \<lparr>rd_bytes = env, rd_fault = f\<rparr> (length env) lim = Inr (header, k, inp)"
  obtains np salt plen where "header = header_bytes k np salt" "length np = 8" "length salt = 32"
    "env = header @ rd_bytes inp" "0 < k" "k \<le> max_records lim"
    "(k - 1) * CHUNK_BYTES < plen" "plen \<le> k * CHUNK_BYTES" "length env = HEADER_BYTES + plen + k * TAG_BYTES"
proof -
  from assms obtain rest inp1 where h: "rd_exact 8 \<lparr>rd_bytes = env, rd_fault = f\<rparr> = Inr (MAGIC, inp1)"
    "rd_exact (HEADER_BYTES - 8) inp1 = Inr (rest, inp)" "header = MAGIC @ rest"
    "of_be32 (take 4 (drop 8 header)) = CHUNK_BYTES" "k = of_be32 (take 4 (drop 12 header))" "0 < k" "k \<le> max_records lim"
    "\<not> length env < HEADER_BYTES + (k - 1) * RECORD_BYTES + 1 + TAG_BYTES" "\<not> HEADER_BYTES + k * RECORD_BYTES < length env"
    unfolding read_header_def Let_def by (auto simp: try_then_Inr split: if_splits)
  have env: "env = MAGIC @ rest @ rd_bytes inp" and len: "length rest = 48"
    using rd_exact_split [OF h(1)] rd_exact_split [OF h(2)] by (simp_all add: HEADER_BYTES_def)
  have b: "take 4 rest = be32 CHUNK_BYTES" "take 4 (drop 4 rest) = be32 k"
    using h(3-5) len be32_of_be32 [of "take 4 rest"] be32_of_be32 [of "take 4 (drop 4 rest)"] by simp_all
  have s1: "take 8 (drop 8 rest) @ drop 16 rest = drop 8 rest"
    using append_take_drop_id [of 8 "drop 8 rest"] by simp
  have s2: "take 4 (drop 4 rest) @ drop 8 rest = drop 4 rest"
    using append_take_drop_id [of 4 "drop 4 rest"] by simp
  have "rest = take 4 rest @ take 4 (drop 4 rest) @ take 8 (drop 8 rest) @ drop 16 rest"
    by (simp only: s1 s2 append_take_drop_id)
  then have hb: "header = header_bytes k (take 8 (drop 8 rest)) (drop 16 rest)"
    unfolding header_bytes_def h(3) b by simp
  obtain j where j: "k = Suc j" using h(6) by (cases k) auto
  define plen where "plen = length env - HEADER_BYTES - k * TAG_BYTES"
  have "length env = HEADER_BYTES + plen + k * TAG_BYTES" "(k - 1) * CHUNK_BYTES < plen" "plen \<le> k * CHUNK_BYTES"
    using h(8,9) by (simp_all add: plen_def j RECORD_BYTES_def distrib_left)
  then show thesis using that [OF hb _ _ _ h(6,7)] len env h(3) by simp
qed

lemma parse_metadata_Inr:
  assumes "parse_metadata L plain = Inr (md, pl)"
  obtains json where "canonical_metadata L md = Inr json" "pl = 4 + length json" "pl \<le> length plain"
    "take pl plain = be32 (length json) @ json" "sanitise_name (lib_nfc L) (md_name md) = md_name md"
    "normalise_media_type (lib_lowercase L) (md_type md) = Inr (md_type md)"
proof -
  define len where "len = of_be32 (take 4 plain)"
  define tx where "tx = take len (drop 4 plain)"
  from assms have h: "4 \<le> length plain" "4 + len \<le> length plain" "check_metadata L tx md = Inr ()" "pl = 4 + len"
    by (auto simp: parse_metadata_def Let_def len_def [symmetric] tx_def [symmetric] try_then_Inr split: if_splits)
  have l: "length tx = len" using h(2) by (simp add: tx_def)
  from h(3) have c: "canonical_metadata L md = Inr tx" "sanitise_name (lib_nfc L) (md_name md) = md_name md"
    "normalise_media_type (lib_lowercase L) (md_type md) = Inr (md_type md)"
    by (auto simp: check_metadata_def try_then_Inr ok_opt_def split: if_splits sum.splits)
  have "take pl plain = take 4 plain @ tx" by (simp add: h(4) tx_def take_add)
  also have "take 4 plain = be32 len" using be32_of_be32 [of "take 4 plain"] h(1) by (simp add: len_def)
  finally show thesis using that c l h(2,4) by simp
qed

lemma open_bytes_opened:
  assumes laws: "aead_laws L" and op: "open_bytes L input_key env lim = Inr (md, out)"
  obtains k np salt plen pl d where
    "0 < k" "k \<le> max_records lim" "(k - 1) * CHUNK_BYTES < plen" "plen \<le> k * CHUNK_BYTES"
    "md_size md \<le> plen" "padded_length (pl + md_size md) = plen" "md_size md \<le> max_source_bytes lim"
    "length d = plen" "parse_metadata L (take CHUNK_BYTES d) = Inr (md, pl)" "out = take (md_size md) (drop pl d)"
    "env = header_bytes k np salt @ concat (map (\<lambda>i. sealed_record L (derive_envelope_key L input_key salt) np
        (header_bytes k np salt) i (take CHUNK_BYTES (drop (i * CHUNK_BYTES) d))) [0..<k])"
proof -
  from op obtain header k inp st where
    rh: "read_header \<lparr>rd_bytes = env, rd_fault = False\<rparr> (length env) lim = Inr (header, k, inp)"
    and run: "decrypt_records L lim (derive_envelope_key L input_key (drop 24 header)) header k (length env)
        (\<lambda>_ _. True) [0..<k] \<lparr>ds_in = inp, ds_out = vec_writer, ds_opened = None, ds_read = HEADER_BYTES\<rparr> = (st, Inr ())"
    and fin: "decrypt_finish st = Inr md" "out = w_bytes (ds_out st)"
    by (auto simp: open_bytes_def decrypt_def split: sum.splits prod.splits)
  from rh obtain np salt plen where h: "header = header_bytes k np salt" "length np = 8" "length salt = 32"
    "env = header @ rd_bytes inp" "0 < k" "k \<le> max_records lim"
    "(k - 1) * CHUNK_BYTES < plen" "plen \<le> k * CHUNK_BYTES" "length env = HEADER_BYTES + plen + k * TAG_BYTES"
    by (elim read_header_Inr)
  let ?key = "derive_envelope_key L input_key salt"
  have hd: "take 8 (drop 16 header) = np" "drop 24 header = salt" using header_parts [OF h(2,3)] h(1) by simp_all
  have st0: "opened_at L ?key np header (rd_bytes inp) plen 0 []
      \<lparr>ds_in = inp, ds_out = vec_writer, ds_opened = None, ds_read = HEADER_BYTES\<rparr>"
    by (simp add: opened_at_def at_record_def vec_writer_def)
  obtain d where d: "opened_at L ?key np header (rd_bytes inp) plen k d st"
    "\<exists>md pl. ds_opened st = Some (md, pl) \<and> md_size md \<le> plen
       \<and> padded_length (pl + md_size md) = plen \<and> md_size md \<le> max_source_bytes lim"
    using decrypt_records_authentic [OF laws hd(1) h(7-9) run [unfolded hd(2)] _ st0] h(5) by auto
  from fin(1) obtain pl where od: "ds_opened st = Some (md, pl)" "rd_bytes (ds_in st) = []"
    by (auto simp: decrypt_finish_def try_then_Inr read_some_def split: if_splits)
  have sz: "md_size md \<le> plen" "padded_length (pl + md_size md) = plen" "md_size md \<le> max_source_bytes lim"
    using d(2) od(1) by auto
  have dl: "length d = plen" using d(1) h(8) by (simp add: opened_at_def at_record_def)
  have pm: "parse_metadata L (take CHUNK_BYTES d) = Inr (md, pl)" and out: "out = take (md_size md) (drop pl d)"
    and input: "rd_bytes inp = concat (map (\<lambda>i. sealed_record L ?key np header i
        (take CHUNK_BYTES (drop (i * CHUNK_BYTES) d))) [0..<k])"
    using d(1) h(5) od fin(2) by (auto simp: opened_at_def)
  show thesis
    by (rule that [OF h(5-8) sz dl pm out]) (use h(1,4) input in simp)
qed

section \<open>A sample instance of the crates\<close>

text \<open>
  Concrete functions that satisfy the laws: a self-delimiting unary encoding in place of JSON, the
  identity cipher with a fixed tag, ASCII lower-casing and no normalisation.
\<close>

fun nats_enc :: "nat list \<Rightarrow> bytes" where
  "nats_enc [] = []"
| "nats_enc (n # ns) = replicate n 1 @ 2 # nats_enc ns"

fun nats_dec :: "nat \<Rightarrow> bytes \<Rightarrow> nat list" where
  "nats_dec acc [] = []"
| "nats_dec acc (b # bs) = (if b = 1 then nats_dec (Suc acc) bs else acc # nats_dec 0 bs)"

definition sample_json :: "metadata \<Rightarrow> bytes" where
  "sample_json md = [3, 3] @ nats_enc (length (md_name md) # md_name md @ md_size md # md_type md)"

definition sample_from_json :: "bytes \<Rightarrow> metadata option" where
  "sample_from_json bs =
     (case nats_dec 0 (drop 2 bs) of
        [] \<Rightarrow> None
      | n # ns \<Rightarrow> (case drop n ns of [] \<Rightarrow> None
          | k # ty \<Rightarrow> Some \<lparr>md_name = take n ns, md_size = k, md_type = ty\<rparr>))"

definition ascii_lower :: "nat \<Rightarrow> nat" where
  "ascii_lower c = (if 0x41 \<le> c \<and> c \<le> 0x5A then c + 0x20 else c)"

definition sample_libs :: libs where
  "sample_libs = \<lparr>lib_nfc = (\<lambda>s. s), lib_lowercase = map ascii_lower,
     lib_json = (\<lambda>md. Some (sample_json md)), lib_from_json = sample_from_json,
     lib_hkdf = (\<lambda>salt ikm info n. replicate n 0),
     lib_seal = (\<lambda>k n a p. Some (p, replicate 16 0)),
     lib_open = (\<lambda>k n a ct tag. if tag = replicate 16 0 then Some ct else None),
     lib_sha256 = (\<lambda>bs. bs)\<rparr>"

definition sample_rng :: rng where
  "sample_rng = \<lparr>rng_ok = (\<lambda>_. True), rng_byte = (\<lambda>_ _. 0)\<rparr>"

definition sample_src :: bytes where
  "sample_src = [7, 8, 9]"

definition sample_lim :: limits where
  "sample_lim = \<lparr>max_source_bytes = 3\<rparr>"

lemma sample_libs_fields [simp]: "length sample_src = 3" "max_source_bytes sample_lim = 3" "rng_ok sample_rng i"
  "lib_json sample_libs md = Some (sample_json md)"
  by (simp_all add: sample_src_def sample_lim_def sample_rng_def sample_libs_def)

lemma nats_dec_replicate: "nats_dec acc (replicate n 1 @ 2 # bs) = (acc + n) # nats_dec 0 bs"
  by (induction n arbitrary: acc) simp_all

lemma nats_dec_enc: "nats_dec 0 (nats_enc ns) = ns"
  by (induction ns) (simp_all add: nats_dec_replicate)

lemma utf8_ascii: "\<forall>b \<in> set bs. in_range 0 0x7F b \<Longrightarrow> utf8_valid bs"
  by (induction bs rule: utf8_valid.induct) auto

lemma nats_enc_set: "set (nats_enc ns) \<subseteq> {1, 2}"
  by (induction ns) auto

lemma sample_json_laws: "json_laws sample_libs"
  unfolding json_laws_def
proof (intro allI exI conjI)
  fix md :: metadata
  show "lib_json sample_libs md = Some (sample_json md)" by (simp add: sample_libs_def)
  show "lib_from_json sample_libs (sample_json md) = Some md"
    by (simp add: sample_libs_def sample_from_json_def sample_json_def nats_dec_enc del: nats_enc.simps)
  have "set (sample_json md) \<subseteq> {1, 2, 3}"
    using nats_enc_set by (auto simp: sample_json_def simp del: nats_enc.simps)
  then show "utf8_valid (sample_json md)" by (intro utf8_ascii) (auto simp: in_range_def)
  show "2 \<le> length (sample_json md)" by (simp add: sample_json_def)
qed

lemma sample_lowercase_laws: "lowercase_laws (map ascii_lower)"
  by (auto simp: lowercase_laws_def ascii_lower_def map_idI)

lemma sample_laws: "libs_laws sample_libs"
proof -
  have "aead_laws sample_libs" by (auto simp: aead_laws_def sample_libs_def TAG_BYTES_def)
  moreover have "nfc_laws (lib_nfc sample_libs)" "lowercase_laws (lib_lowercase sample_libs)"
    using nfc_laws_id sample_lowercase_laws by (simp_all add: sample_libs_def)
  ultimately show ?thesis using sample_json_laws by (simp add: libs_laws_def)
qed

lemma sample_type: "normalise_media_type (lib_lowercase sample_libs) [0x61] = Inr [0x61]"
  by (simp add: normalise_media_type_def sample_libs_def ascii_lower_def utf16_count_def len_utf16_def
      MAX_MEDIA_TYPE_UTF16_def is_control_def)

lemma sample_name: "sanitise_name (lib_nfc sample_libs) [0x61] = [0x61]"
  by (rule sanitise_clean)
    (simp_all add: clean_name_def sample_libs_def utf16_count_def len_utf16_def MAX_NAME_UTF16_def
      is_control_def is_separator_def is_forbidden_def is_js_whitespace_def)

lemma sample_json_length: "length (sample_json \<lparr>md_name = [0x61], md_size = 3, md_type = [0x61]\<rparr>) \<le> MAX_METADATA_BYTES"
  by (simp add: sample_json_def MAX_METADATA_BYTES_def)

section \<open>Properties\<close>

lemma seal_succeeds:
  assumes "libs_laws L" "length src \<le> 2 ^ 51" "length src \<le> max_source_bytes lim" "\<And>i. rng_ok r i"
    "normalise_media_type (lib_lowercase L) ty = Inr t"
    "lib_json L \<lparr>md_name = sanitise_name (lib_nfc L) name, md_size = length src, md_type = t\<rparr> = Some json"
    "length json \<le> MAX_METADATA_BYTES"
  shows "\<exists>env. seal_bytes L r input_key name ty src lim = Inr env
    \<and> envelope_bytes L name ty (length src) = Inr (length env)"
proof -
  have laws: "aead_laws L" using assms(1) by (simp add: libs_laws_def)
  obtain ly where ly: "layout_of L name ty (length src) lim = Inr ly"
    using layout_of_ok [OF assms(3,2,5-7)] by blast
  have "length src \<le> max_source_bytes \<lparr>max_source_bytes = u64_max\<rparr>" using assms(2) by (simp add: u64_max_def)
  then obtain ly2 where ly2: "layout_of L name ty (length src) \<lparr>max_source_bytes = u64_max\<rparr> = Inr ly2"
    using layout_of_ok [OF _ assms(2,5-7)] by blast
  have eq: "ly_plaintext_len ly2 = ly_plaintext_len ly"
    using layout_of_plaintext [OF ly] layout_of_plaintext [OF ly2] by auto
  obtain fr where fr: "draw_fresh r = Inr fr" using assms(4) by (simp add: draw_fresh_def rng_fill_def)
  let ?env = "envelope_of L r input_key fr ly src"
  have "seal_bytes L r input_key name ty src lim = Inr ?env"
    using encrypt_with_spec [OF laws _ ly assms(2)] assms(4) fr by (simp add: seal_bytes_def encrypt_def)
  moreover have "envelope_bytes L name ty (length src) = Inr (length ?env)"
    using open_sealed(2) [OF assms(1,2) fr ly refl] ly2 eq by (simp add: envelope_bytes_def)
  ultimately show ?thesis by blast
qed

lemma sample_seals:
  "\<exists>env. seal_bytes sample_libs sample_rng [] [0x61] [0x61] sample_src sample_lim = Inr env"
  using seal_succeeds [OF sample_laws _ _ _ sample_type _ sample_json_length,
      of sample_src sample_lim sample_rng "[0x61]" "[]"]
  by (auto simp: sample_name)

text \<open>C3: What is sealed can be opened. Sealing a source and opening the envelope with the same key
  returns exactly the source bytes together with the canonical metadata.\<close>

theorem seal_open_roundtrip:
  assumes "libs_laws L" "length src \<le> 2 ^ 51" "seal_bytes L r input_key name ty src lim = Inr env"
  shows "\<exists>t. normalise_media_type (lib_lowercase L) ty = Inr t
    \<and> open_bytes L input_key env lim
        = Inr (\<lparr>md_name = sanitise_name (lib_nfc L) name, md_size = length src, md_type = t\<rparr>, src)"
proof -
  have "aead_laws L" using assms(1) by (simp add: libs_laws_def)
  then obtain fr ly where s: "draw_fresh r = Inr fr" "layout_of L name ty (length src) lim = Inr ly"
    "env = envelope_of L r input_key fr ly src"
    by (rule seal_bytes_Inr [OF _ assms(2,3)])
  from s(2) show ?thesis using open_sealed(1) [OF assms(1,2) s] by (elim layout_of_Inr) simp
qed

theorem seal_open_roundtrip_witness:
  "\<exists>env. seal_bytes sample_libs sample_rng [] [0x61] [0x61] sample_src sample_lim = Inr env
    \<and> open_bytes sample_libs [] env sample_lim
        = Inr (\<lparr>md_name = [0x61], md_size = 3, md_type = [0x61]\<rparr>, sample_src)"
  using sample_seals seal_open_roundtrip [OF sample_laws, of sample_src sample_rng "[]" "[0x61]" "[0x61]"]
  by (fastforce simp: sample_type sample_name)



text \<open>C6: What opens was sealed. If an envelope opens, its bytes are exactly the sealing, under the same
  input key, of a padded plaintext made of the canonical metadata, the returned bytes and padding; the
  returned bytes have the declared size, which is within the caller's limit.\<close>

theorem open_authentic:
  assumes "libs_laws L" "open_bytes L input_key env lim = Inr (md, out)"
  shows "\<exists>json pad np salt.
      canonical_metadata L md = Inr json
    \<and> length out = md_size md \<and> md_size md \<le> max_source_bytes lim
    \<and> sanitise_name (lib_nfc L) (md_name md) = md_name md
    \<and> (let plain = be32 (length json) @ json @ out @ pad;
           k = div_ceil (length plain) CHUNK_BYTES;
           header = header_bytes k np salt
       in length plain = padded_length (4 + length json + length out)
        \<and> env = header @ concat (map (\<lambda>c. sealed_record L (derive_envelope_key L input_key salt) np header c
                   (take CHUNK_BYTES (drop (c * CHUNK_BYTES) plain))) [0..<k]))"
proof -
  have laws: "aead_laws L" using assms(1) by (simp add: libs_laws_def)
  obtain k np salt plen pl d where h: "0 < k" "k \<le> max_records lim" "(k - 1) * CHUNK_BYTES < plen"
      "plen \<le> k * CHUNK_BYTES"
    and sz: "md_size md \<le> plen" "padded_length (pl + md_size md) = plen" "md_size md \<le> max_source_bytes lim"
    and dl: "length d = plen" and pm: "parse_metadata L (take CHUNK_BYTES d) = Inr (md, pl)"
    and out: "out = take (md_size md) (drop pl d)"
    and env: "env = header_bytes k np salt @ concat (map (\<lambda>i. sealed_record L (derive_envelope_key L input_key salt) np
        (header_bytes k np salt) i (take CHUNK_BYTES (drop (i * CHUNK_BYTES) d))) [0..<k])"
    by (rule open_bytes_opened [OF laws assms(2)])
  from pm obtain json where j: "canonical_metadata L md = Inr json" "pl = 4 + length json"
    "take pl (take CHUNK_BYTES d) = be32 (length json) @ json" "sanitise_name (lib_nfc L) (md_name md) = md_name md"
    "pl \<le> length (take CHUNK_BYTES d)"
    by (elim parse_metadata_Inr)
  have big: "pl + md_size md \<le> 2 ^ 63"
    using sz(1) j(5) plen_bound [OF h(2,4)] by (simp add: CHUNK_BYTES_def)
  have fits: "pl + md_size md \<le> plen" using padded_length_ge [OF big] sz(2) by simp
  define pad where "pad = drop (pl + md_size md) d"
  have "d = take pl d @ take (md_size md) (drop pl d) @ drop (md_size md) (drop pl d)"
    by (simp only: append_take_drop_id)
  moreover have "take pl d = be32 (length json) @ json" using j(3,5) by simp
  moreover have "drop (md_size md) (drop pl d) = pad" by (simp add: pad_def add.commute)
  ultimately have "d = (be32 (length json) @ json) @ out @ pad" unfolding out by metis
  then have dd: "be32 (length json) @ json @ out @ pad = d" by simp
  have lo: "length out = md_size md" using out fits dl by simp
  have "div_ceil plen CHUNK_BYTES = k" by (rule div_ceil_unique [OF chunk_pos h(1,3,4)])
  then show ?thesis
    using j(1,4) lo sz(2,3) env unfolding Let_def
    by (intro exI [of _ json] exI [of _ pad] exI [of _ np] exI [of _ salt] conjI)
      (simp_all only: dd dl j(2))
qed

theorem open_authentic_witness:
  "\<exists>env json. open_bytes sample_libs [] env sample_lim
        = Inr (\<lparr>md_name = [0x61], md_size = 3, md_type = [0x61]\<rparr>, sample_src)
    \<and> canonical_metadata sample_libs \<lparr>md_name = [0x61], md_size = 3, md_type = [0x61]\<rparr> = Inr json"
proof -
  obtain env where seal: "seal_bytes sample_libs sample_rng [] [0x61] [0x61] sample_src sample_lim = Inr env"
    using sample_seals by blast
  have "aead_laws sample_libs" using sample_laws by (simp add: libs_laws_def)
  then obtain fr ly where s: "draw_fresh sample_rng = Inr fr"
    "layout_of sample_libs [0x61] [0x61] (length sample_src) sample_lim = Inr ly"
    "env = envelope_of sample_libs sample_rng [] fr ly sample_src"
    by (rule seal_bytes_Inr [OF _ _ seal]) simp_all
  have "ly_metadata ly = \<lparr>md_name = [0x61], md_size = 3, md_type = [0x61]\<rparr>"
    using s(2) by (elim layout_of_Inr) (auto simp: sample_type sample_name)
  then have ob: "open_bytes sample_libs [] env sample_lim
      = Inr (\<lparr>md_name = [0x61], md_size = 3, md_type = [0x61]\<rparr>, sample_src)"
    using open_sealed(1) [OF sample_laws _ s] by simp
  show ?thesis using ob open_authentic [OF sample_laws ob] by blast
qed

end
