(* ===== verification/Envelope_Files.thy ===== *)
theory Envelope_Files
  imports Envelope_Roundtrip
begin

text \<open>
  Keys, files and the temp directory of the envelope crate: the \<open>wbk1_\<close> text form of
  \<open>key.rs\<close>, the private temp-file helpers of \<open>stream.rs\<close> and the temp-directory lock and
  start-up sweep of \<open>temp.rs\<close>. Base64 and the private-state checks are parameters.
\<close>

section \<open>Keys\<close>

definition WBK1_PREFIX :: string where "WBK1_PREFIX = ''wbk1_''"
definition WBK1_LEN :: nat where "WBK1_LEN = 5 + 43"

definition random_key :: "rng \<Rightarrow> nat \<Rightarrow> envelope_error + bytes" where
  "random_key r call = rng_fill r call KEY_BYTES"

definition to_wbk1 :: "(bytes \<Rightarrow> string) \<Rightarrow> bytes \<Rightarrow> string" where
  "to_wbk1 b64 key = WBK1_PREFIX @ b64 key"

text \<open>\<open>None\<close> is the single error \<open>KeyError::Encoding\<close>.\<close>

definition parse_wbk1 :: "(bytes \<Rightarrow> string) \<Rightarrow> (string \<Rightarrow> bytes option) \<Rightarrow> string \<Rightarrow> bytes option" where
  "parse_wbk1 b64 unb64 t =
     (case strip_prefix WBK1_PREFIX t of
        None \<Rightarrow> None
      | Some body \<Rightarrow>
          if length t \<noteq> WBK1_LEN then None
          else (case unb64 body of
            None \<Rightarrow> None
          | Some decoded \<Rightarrow>
              if length decoded \<noteq> KEY_BYTES then None
              else if to_wbk1 b64 decoded \<noteq> t then None else Some decoded))"

section \<open>Private temp files\<close>

text \<open>
  A file on disk opens or fails and is an ordinary file or something else; the temp directory is
  private or not; a temp file is created, written and synced, and is deleted when the call
  fails.
\<close>

datatype file_node = Missing | NotRegular | Regular reader

definition open_regular :: "file_node \<Rightarrow> envelope_error + (reader \<times> nat)" where
  "open_regular f =
     (case f of Missing \<Rightarrow> Inl E_Io | NotRegular \<Rightarrow> Inl E_Io
      | Regular rd \<Rightarrow> Inr (rd, length (rd_bytes rd)))"

record temp_dir =
  td_private :: bool
  td_creates :: bool
  td_file_private :: bool
  td_room :: "nat option"
  td_flushes :: bool
  td_syncs :: bool

definition private_temp :: "temp_dir \<Rightarrow> envelope_error + writer" where
  "private_temp d =
     (if \<not> td_private d then Inl E_PrivateState
      else if \<not> td_creates d then Inl E_Io
      else if \<not> td_file_private d then Inl E_PrivateState
      else Inr \<lparr>w_bytes = [], w_room = td_room d, w_flush_ok = td_flushes d\<rparr>)"

text \<open>The result carries the bytes of the temp file only when it is handed to the caller.\<close>

definition encrypt_file_to_private_temp ::
  "libs \<Rightarrow> rng \<Rightarrow> bytes \<Rightarrow> file_node \<Rightarrow> utext \<Rightarrow> utext \<Rightarrow> limits \<Rightarrow> temp_dir \<Rightarrow> progress
     \<Rightarrow> envelope_error + (sealed \<times> bytes)" where
  "encrypt_file_to_private_temp L r key source name media_type lim d progress =
     try_then (open_regular source) (\<lambda>(rd, len).
       try_then (private_temp d) (\<lambda>temp.
         case encrypt L r key rd len name media_type lim temp progress of
           (w, Inl e) \<Rightarrow> Inl e
         | (w, Inr sl) \<Rightarrow>
             try_then (w_flush w) (\<lambda>_. if td_syncs d then Inr (sl, w_bytes w) else Inl E_Io)))"

definition decrypt_file_to_private_temp ::
  "libs \<Rightarrow> bytes \<Rightarrow> file_node \<Rightarrow> limits \<Rightarrow> temp_dir \<Rightarrow> progress \<Rightarrow> envelope_error + (metadata \<times> bytes)" where
  "decrypt_file_to_private_temp L key envelope lim d progress =
     try_then (open_regular envelope) (\<lambda>(rd, len).
       try_then (private_temp d) (\<lambda>temp.
         case decrypt L key rd len lim temp progress of
           (w, Inl e) \<Rightarrow> Inl e
         | (w, Inr md) \<Rightarrow> if td_syncs d then Inr (md, w_bytes w) else Inl E_Io))"

section \<open>The temp directory\<close>

definition TEMP_PREFIX :: string where "TEMP_PREFIX = ''.wildbloom-''"
definition TEMP_SUFFIX :: string where "TEMP_SUFFIX = ''.part''"
definition TEMP_LOCK_FILE :: string where "TEMP_LOCK_FILE = ''.wildbloom-temp.lock''"

record temp_lock =
  tl_private :: bool
  tl_opens :: bool
  tl_file_private :: bool
  tl_held :: bool

definition acquire :: "temp_lock \<Rightarrow> temp_lock \<times> (envelope_error + unit)" where
  "acquire l =
     (if \<not> tl_private l then (l, Inl E_PrivateState)
      else if \<not> tl_opens l then (l, Inl E_Io)
      else if \<not> tl_file_private l then (l, Inl E_PrivateState)
      else if tl_held l then (l, Inl E_TempDirInUse)
      else (l\<lparr>tl_held := True\<rparr>, Inr ()))"

datatype entry_kind = EkFile | EkOther | EkGone | EkError

record dir_entry =
  de_readable :: bool
  de_name :: "string option"
  de_kind :: entry_kind
  de_remove :: "entry_kind"

record sweep_report =
  sr_removed :: nat
  sr_failed :: "string list"

definition sweeps :: "string \<Rightarrow> bool" where
  "sweeps name \<longleftrightarrow> strip_prefix TEMP_PREFIX name \<noteq> None \<and> strip_suffix TEMP_SUFFIX name \<noteq> None"

text \<open>
  One directory entry: the entry that remains afterwards (if any) and the report. An entry whose
  removal reports \<open>EkFile\<close> was removed; \<open>EkGone\<close> is \<open>NotFound\<close>.
\<close>

definition sweep_entry :: "dir_entry \<Rightarrow> sweep_report \<Rightarrow> dir_entry option \<times> sweep_report" where
  "sweep_entry e rep =
     (if \<not> de_readable e then (Some e, rep\<lparr>sr_failed := sr_failed rep @ ['''']\<rparr>)
      else case de_name e of
        None \<Rightarrow> (Some e, rep)
      | Some name \<Rightarrow>
          if \<not> sweeps name then (Some e, rep)
          else (case de_kind e of
              EkOther \<Rightarrow> (Some e, rep)
            | EkGone \<Rightarrow> (None, rep)
            | EkError \<Rightarrow> (Some e, rep\<lparr>sr_failed := sr_failed rep @ [name]\<rparr>)
            | EkFile \<Rightarrow>
                (case de_remove e of
                   EkFile \<Rightarrow> (None, rep\<lparr>sr_removed := sr_removed rep + 1\<rparr>)
                 | EkGone \<Rightarrow> (None, rep)
                 | _ \<Rightarrow> (Some e, rep\<lparr>sr_failed := sr_failed rep @ [name]\<rparr>))))"

fun sweep_entries :: "dir_entry list \<Rightarrow> sweep_report \<Rightarrow> dir_entry list \<times> sweep_report" where
  "sweep_entries [] rep = ([], rep)"
| "sweep_entries (e # es) rep =
     (let (kept, rep1) = sweep_entry e rep; (rest, rep2) = sweep_entries es rep1
      in (case kept of None \<Rightarrow> rest | Some e' \<Rightarrow> e' # rest, rep2))"

definition sweep_stale_temp_files ::
  "bool \<Rightarrow> dir_entry list option \<Rightarrow> dir_entry list option \<times> (envelope_error + sweep_report)" where
  "sweep_stale_temp_files private_dir entries =
     (if \<not> private_dir then (entries, Inl E_PrivateState)
      else case entries of
        None \<Rightarrow> (None, Inl E_Io)
      | Some es \<Rightarrow>
          (let (kept, rep) = sweep_entries es \<lparr>sr_removed = 0, sr_failed = []\<rparr> in (Some kept, Inr rep)))"

section \<open>Properties\<close>

lemma strip_prefix_append [simp]: "strip_prefix p (p @ s) = Some s"
  by (simp add: strip_prefix_def)

definition sample_b64 :: "bytes \<Rightarrow> string" where
  "sample_b64 bs = replicate 11 (CHR ''A'') @ map (\<lambda>b. char_of (unat b)) bs"

definition sample_unb64 :: "string \<Rightarrow> bytes option" where
  "sample_unb64 s = Some (map (\<lambda>c. of_nat (of_char c)) (drop 11 s))"

lemma sample_b64_laws: "sample_unb64 (sample_b64 bs) = Some bs"
  "length bs = KEY_BYTES \<Longrightarrow> length (sample_b64 bs) = 43"
  using unat_byte_less
  by (simp_all add: sample_unb64_def sample_b64_def KEY_BYTES_def map_idI of_char_of)

text \<open>C16: Key texts are canonical. Every 32-byte key that prints to 43 characters parses back, and a text
  that parses is the one and only text of its key: no alternative spelling is accepted.\<close>

theorem wbk1_canonical:
  assumes "\<And>bs. unb64 (b64 bs) = Some bs" "\<And>bs. length bs = KEY_BYTES \<Longrightarrow> length (b64 bs) = 43"
  shows "(length key = KEY_BYTES \<longrightarrow> parse_wbk1 b64 unb64 (to_wbk1 b64 key) = Some key)
    \<and> (parse_wbk1 b64 unb64 t = Some key \<longrightarrow> t = to_wbk1 b64 key \<and> length key = KEY_BYTES)"
proof (intro conjI impI)
  assume "length key = KEY_BYTES"
  then show "parse_wbk1 b64 unb64 (to_wbk1 b64 key) = Some key"
    using assms by (simp add: parse_wbk1_def to_wbk1_def WBK1_LEN_def) (simp add: WBK1_PREFIX_def)
next
  assume "parse_wbk1 b64 unb64 t = Some key"
  then show "t = to_wbk1 b64 key" "length key = KEY_BYTES"
    by (auto simp: parse_wbk1_def split: option.splits if_splits)
qed

theorem wbk1_canonical_witness:
  "parse_wbk1 sample_b64 sample_unb64 (to_wbk1 sample_b64 (replicate 32 5)) = Some (replicate 32 5)"
  using wbk1_canonical [OF sample_b64_laws, of "replicate 32 5"] by (simp add: KEY_BYTES_def)



text \<open>What the sweep takes away.\<close>

definition swept :: "dir_entry \<Rightarrow> bool" where
  "swept e \<longleftrightarrow>
     de_readable e \<and> (case de_name e of None \<Rightarrow> False | Some n \<Rightarrow> sweeps n)
     \<and> (de_kind e = EkGone \<or> de_kind e = EkFile \<and> de_remove e \<in> {EkFile, EkGone})"

lemma sweep_entry_kept: "fst (sweep_entry e rep) = (if swept e then None else Some e)"
  by (auto simp: sweep_entry_def swept_def split: option.splits entry_kind.splits)

lemma sweep_entry_removed:
  "sr_removed (snd (sweep_entry e rep))
     = sr_removed rep + (if swept e \<and> de_kind e = EkFile \<and> de_remove e = EkFile then 1 else 0)"
  by (auto simp: sweep_entry_def swept_def split: option.splits entry_kind.splits)

text \<open>C17: The start-up sweep removes the stale temp files and nothing else: what remains is, in order, every
  entry that is not a matching ordinary file (or one that could not be removed), symlinks and
  directories included, the count is the number of files removed, and the lock file never matches.\<close>

theorem sweep_exact:
  "fst (sweep_entries es rep) = filter (\<lambda>e. \<not> swept e) es
    \<and> sr_removed (snd (sweep_entries es rep))
        = sr_removed rep + length (filter (\<lambda>e. swept e \<and> de_kind e = EkFile \<and> de_remove e = EkFile) es)
    \<and> \<not> sweeps TEMP_LOCK_FILE"
proof (intro conjI)
  show "fst (sweep_entries es rep) = filter (\<lambda>e. \<not> swept e) es"
    by (induction es arbitrary: rep) (simp_all add: Let_def split_beta sweep_entry_kept sweep_entry_removed)
  show "sr_removed (snd (sweep_entries es rep))
      = sr_removed rep + length (filter (\<lambda>e. swept e \<and> de_kind e = EkFile \<and> de_remove e = EkFile) es)"
    by (induction es arbitrary: rep) (simp_all add: Let_def split_beta sweep_entry_kept sweep_entry_removed)
  show "\<not> sweeps TEMP_LOCK_FILE"
    by (simp add: sweeps_def strip_suffix_def strip_prefix_def TEMP_LOCK_FILE_def TEMP_SUFFIX_def TEMP_PREFIX_def)
qed

end
