(* ===== verification/Replica_Policy.thy ===== *)
theory Replica_Policy
  imports Replica_Types
begin

text \<open>
  Signed replica policies: \<open>crates/wildbloomd/src/replicas/policy.rs\<close> and the origin rules
  of \<open>transport.rs\<close>. The Nostr, URL, JSON, base64, SHA-3 and Blossom authorisation libraries
  are the fields of \<open>rlibs\<close>.
\<close>

section \<open>Libraries\<close>

record url =
  u_str :: string
  u_scheme :: string
  u_host :: "string option"
  u_path :: string
  u_query :: "string option"
  u_fragment :: "string option"
  u_username :: string
  u_password :: "string option"
  u_port :: "nat option"

record strict_event =
  se_id :: string
  se_pubkey :: string
  se_created_at :: nat
  se_kind :: nat
  se_tags :: "string list list"
  se_content :: string
  se_sig :: string

record unsigned_event =
  ue_pubkey :: string
  ue_created_at :: nat
  ue_kind :: nat
  ue_tags :: "string list list"
  ue_content :: string

record event =
  ev_id :: string
  ev_pubkey :: string
  ev_created_at :: nat
  ev_kind :: nat
  ev_tags :: "string list list"
  ev_content :: string

record rlibs =
  url_parse :: "string \<Rightarrow> url option"
  sha3_256 :: "bytes \<Rightarrow> bytes"
  strict_from_json :: "bytes \<Rightarrow> strict_event option"
  event_from_json :: "bytes \<Rightarrow> event option"
  event_verify :: "event \<Rightarrow> bool"
  event_to_json :: "event \<Rightarrow> bytes"
  pubkey_from_hex :: "string \<Rightarrow> string option"
  compute_id :: "unsigned_event \<Rightarrow> string"
  policy_to_json :: "policy \<Rightarrow> string option"
  policy_from_json :: "string \<Rightarrow> policy option"
  b64url :: "bytes \<Rightarrow> string"
  verify_upload :: "string \<Rightarrow> string \<Rightarrow> string \<Rightarrow> string \<Rightarrow> nat \<Rightarrow> bool"

section \<open>Origins\<close>

fun split_on :: "char \<Rightarrow> string \<Rightarrow> string list" where
  "split_on c [] = [[]]"
| "split_on c (x # s) =
     (if x = c then [] # split_on c s
      else case split_on c s of [] \<Rightarrow> [[x]] | l # ls \<Rightarrow> (x # l) # ls)"

definition valid_label :: "string \<Rightarrow> bool" where
  "valid_label label \<longleftrightarrow>
     label \<noteq> [] \<and> length label \<le> 63 \<and> ascii_alphanumeric (hd label) \<and> ascii_alphanumeric (last label)
     \<and> (\<forall>b \<in> set label. ascii_lowercase b \<or> ascii_digit b \<or> b = CHR ''-'')"

definition valid_domain :: "string \<Rightarrow> bool" where
  "valid_domain host \<longleftrightarrow>
     length host \<le> 253 \<and> CHR ''.'' \<in> set host \<and> (\<forall>label \<in> set (split_on (CHR ''.'') host). valid_label label)"

definition ipv4_octet :: "string \<Rightarrow> nat option" where
  "ipv4_octet s =
     (if s \<noteq> [] \<and> length s \<le> 3 \<and> (\<forall>b \<in> set s. ascii_digit b) \<and> (hd s \<noteq> CHR ''0'' \<or> length s = 1)
         \<and> read_nat_acc 0 s \<le> 255
      then Some (read_nat_acc 0 s) else None)"

definition parse_ipv4 :: "string \<Rightarrow> (nat list) option" where
  "parse_ipv4 host =
     (let octets = map ipv4_octet (split_on (CHR ''.'') host)
      in if length octets = 4 \<and> None \<notin> set octets then Some (map the octets) else None)"

definition base32_value :: "char \<Rightarrow> 32 word option" where
  "base32_value b =
     (if ascii_lowercase b then Some (of_nat (of_char b - of_char CHR ''a''))
      else if byte_between 0x32 0x37 b then Some (of_nat (of_char b - of_char CHR ''2'' + 26))
      else None)"

fun base32_decode :: "string \<Rightarrow> 32 word \<Rightarrow> nat \<Rightarrow> bytes \<Rightarrow> (bytes \<times> nat) option" where
  "base32_decode [] acc bits decoded = Some (decoded, bits)"
| "base32_decode (b # label) acc bits decoded =
     (case base32_value b of
        None \<Rightarrow> None
      | Some v \<Rightarrow>
          (let acc' = and (or (push_bit 5 acc) v) 0xFFFF; bits' = bits + 5
           in if bits' \<ge> 8
              then base32_decode label acc' (bits' - 8) (decoded @ [ucast (drop_bit (bits' - 8) acc')])
              else base32_decode label acc' bits' decoded))"

definition onion_checksum :: "(bytes \<Rightarrow> bytes) \<Rightarrow> bytes \<Rightarrow> bytes" where
  "onion_checksum sha3 key = take 2 (sha3 (map (\<lambda>c. of_nat (of_char c)) ''.onion checksum'' @ key @ [3]))"

definition valid_onion :: "(bytes \<Rightarrow> bytes) \<Rightarrow> string \<Rightarrow> bool" where
  "valid_onion sha3 host =
     (case strip_suffix ''.onion'' host of
        None \<Rightarrow> False
      | Some label \<Rightarrow>
          if length label \<noteq> 56 then False
          else (case base32_decode label 0 0 [] of
            None \<Rightarrow> False
          | Some (decoded, bits) \<Rightarrow>
              if length decoded \<noteq> 35 \<or> bits \<noteq> 0 \<or> decoded ! 34 \<noteq> 3 then False
              else take 2 (drop 32 decoded) = onion_checksum sha3 (take 32 decoded)))"

text \<open>
  An IPv6 address always contains a colon, which \<open>valid_domain\<close> has already refused, so the
  \<open>IpAddr\<close> test of the direct profile is the IPv4 test.
\<close>

definition profile_accepts :: "(bytes \<Rightarrow> bytes) \<Rightarrow> profile \<Rightarrow> url \<Rightarrow> bool" where
  "profile_accepts sha3 p u =
     (if u_path u \<noteq> ''/'' \<or> u_query u \<noteq> None \<or> u_fragment u \<noteq> None \<or> u_username u \<noteq> []
         \<or> u_password u \<noteq> None \<or> u_port u = Some 0
      then False
      else case u_host u of
        None \<Rightarrow> False
      | Some host \<Rightarrow>
          (case p of
             DirectHttps \<Rightarrow> u_scheme u = ''https'' \<and> valid_domain host
               \<and> strip_suffix ''.onion'' host = None \<and> parse_ipv4 host = None
           | TorOnly \<Rightarrow> (u_scheme u = ''http'' \<or> u_scheme u = ''https'') \<and> valid_onion sha3 host
           | LoopbackDevelopment \<Rightarrow> u_scheme u = ''http''
               \<and> (case parse_ipv4 host of None \<Rightarrow> False | Some octets \<Rightarrow> hd octets = 127)))"

section \<open>Identifiers and signed events\<close>

definition MAX_POLICY_BYTES :: nat where "MAX_POLICY_BYTES = 256 * 1024"
definition MAX_EVENT_BYTES :: nat where "MAX_EVENT_BYTES = 16 * 1024"
definition MAX_BLOB_BYTES :: nat where "MAX_BLOB_BYTES = 1024 * 1024 * 1024"

definition canonical_hex :: "string \<Rightarrow> nat \<Rightarrow> bool" where
  "canonical_hex v n \<longleftrightarrow> length v = n * 2 \<and> (\<forall>b \<in> set v. lower_hex b)"

definition identifier_ok :: "string \<Rightarrow> bool" where
  "identifier_ok v \<longleftrightarrow>
     v \<noteq> [] \<and> length v \<le> 64
     \<and> (\<forall>b \<in> set v. ascii_lowercase b \<or> ascii_digit b \<or> b = CHR ''-'' \<or> b = CHR ''_'')"

definition signed_event :: "rlibs \<Rightarrow> bytes \<Rightarrow> string \<Rightarrow> nat \<Rightarrow> policy_error + event" where
  "signed_event R bs own limit =
     (if length bs > limit then Inl P_Size
      else try_then (ok_or P_Schema (strict_from_json R bs)) (\<lambda>raw.
        if \<not> canonical_hex (se_id raw) 32 \<or> \<not> canonical_hex (se_pubkey raw) 32
           \<or> \<not> canonical_hex (se_sig raw) 64 \<or> se_pubkey raw \<noteq> own
        then Inl P_Signature
        else if length (se_content raw) > 128 * 1024 \<or> length (se_tags raw) > 8
           \<or> (\<exists>tag \<in> set (se_tags raw). length tag > 3 \<or> (\<exists>part \<in> set tag. length part > 256))
        then Inl P_Bounds
        else try_then (ok_or P_Schema (event_from_json R bs)) (\<lambda>ev.
          if \<not> event_verify R ev then Inl P_Signature
          else if ev_kind ev \<noteq> se_kind raw \<or> ev_created_at ev \<noteq> se_created_at raw then Inl P_Schema
          else Inr ev)))"

section \<open>Policies\<close>

text \<open>The loop over the targets carries the three sets of \<open>validate\<close>.\<close>

fun validate_targets ::
  "rlibs \<Rightarrow> profile \<Rightarrow> target list \<Rightarrow> string set \<Rightarrow> string set \<Rightarrow> string set \<Rightarrow> policy_error + string set" where
  "validate_targets R p [] ids origins gs = Inr gs"
| "validate_targets R p (t # ts) ids origins gs =
     (if \<not> identifier_ok (t_id t) \<or> \<not> identifier_ok (t_failure_group t) \<or> t_id t \<in> ids \<or> t_origin t \<in> origins
      then Inl P_Bounds
      else case url_parse R (t_origin t) of
        None \<Rightarrow> Inl P_Origin
      | Some u \<Rightarrow>
          if u_str u \<noteq> t_origin t \<or> \<not> profile_accepts (sha3_256 R) p u then Inl P_Origin
          else validate_targets R p ts (insert (t_id t) ids) (insert (t_origin t) origins)
                 (if t_retention t = Owner then insert (t_failure_group t) gs else gs))"

fun validate_blobs :: "blob list \<Rightarrow> string set \<Rightarrow> policy_error + unit" where
  "validate_blobs [] hashes = Inr ()"
| "validate_blobs (b # bs) hashes =
     (if \<not> canonical_hex (b_sha256 b) 32 \<or> b_size b = 0 \<or> b_size b > MAX_BLOB_BYTES \<or> b_sha256 b \<in> hashes
      then Inl P_Bounds else validate_blobs bs (insert (b_sha256 b) hashes))"

definition validate_policy :: "rlibs \<Rightarrow> policy \<Rightarrow> policy_error + unit" where
  "validate_policy R p =
     (if policy_type p \<noteq> ''wildbloom.replica-policy'' \<or> p_version p \<noteq> 1 \<or> \<not> identifier_ok (p_id p)
         \<or> p_revision p = 0 \<or> p_expires_at p = 0 \<or> length (targets p) > 16 \<or> length (blobs p) > 128
      then Inl P_Bounds
      else try_then (validate_targets R (p_profile p) (targets p) {} {} {}) (\<lambda>gs.
        try_then (validate_blobs (blobs p) {}) (\<lambda>_.
          if desired_groups p > card gs \<or> (desired_groups p > 0 \<and> blobs p = []) then Inl P_Bounds
          else Inr ())))"

definition policy_tags :: "policy \<Rightarrow> string list list" where
  "policy_tags p = [[''d'', ''wildbloom.replica-policy.v1:'' @ p_id p], [''expiration'', show_nat (p_expires_at p)]]"

definition policy_template :: "rlibs \<Rightarrow> policy \<Rightarrow> string \<Rightarrow> nat \<Rightarrow> policy_error + unsigned_event" where
  "policy_template R p own now =
     try_then (validate_policy R p) (\<lambda>_.
       if p_expires_at p \<le> now then Inl P_Time
       else if \<not> canonical_hex own 32 then Inl P_Signature
       else try_then (ok_or P_Signature (pubkey_from_hex R own)) (\<lambda>key.
         try_then (ok_or P_Schema (policy_to_json R p)) (\<lambda>content.
           Inr \<lparr>ue_pubkey = key, ue_created_at = now, ue_kind = 30078, ue_tags = policy_tags p,
                ue_content = content\<rparr>)))"

definition verify_policy :: "rlibs \<Rightarrow> bytes \<Rightarrow> string \<Rightarrow> nat \<Rightarrow> policy_error + verified_policy" where
  "verify_policy R bs own now =
     try_then (signed_event R bs own MAX_POLICY_BYTES) (\<lambda>ev.
       if ev_kind ev \<noteq> 30078 then Inl P_Schema
       else try_then (ok_or P_Schema (policy_from_json R (ev_content ev))) (\<lambda>p.
         try_then (validate_policy R p) (\<lambda>_.
           if p_expires_at p \<le> now \<or> ev_created_at ev > sat_add now 30 \<or> ev_created_at ev \<ge> p_expires_at p
           then Inl P_Time
           else try_then (policy_template R p own (ev_created_at ev)) (\<lambda>expected.
             if ev_tags ev \<noteq> ue_tags expected \<or> ev_content ev \<noteq> ue_content expected then Inl P_Schema
             else Inr \<lparr>vp_policy = p, vp_event_id = ev_id ev, vp_owner = own\<rparr>))))"

definition repair_tags :: "verified_policy \<Rightarrow> blob \<Rightarrow> string \<Rightarrow> nat \<Rightarrow> string list list" where
  "repair_tags vp b server now =
     [[''t'', ''upload''], [''x'', b_sha256 b], [''server'', server],
      [''expiration'', show_nat (min (sat_add now 120) (p_expires_at (vp_policy vp)))]]"

definition repair_template :: "rlibs \<Rightarrow> verified_policy \<Rightarrow> blob \<Rightarrow> target \<Rightarrow> nat \<Rightarrow> policy_error + unsigned_event" where
  "repair_template R vp b t now =
     try_then (ok_or P_Origin (url_parse R (t_origin t))) (\<lambda>origin.
       try_then (ok_or P_Origin (u_host origin)) (\<lambda>server.
         try_then (ok_or P_Signature (pubkey_from_hex R (vp_owner vp))) (\<lambda>key.
           Inr \<lparr>ue_pubkey = key, ue_created_at = sat_sub now 1, ue_kind = 24242,
                ue_tags = repair_tags vp b server now,
                ue_content = ''Mirror one configured blob; policy event '' @ vp_event_id vp
                  @ ''; destination '' @ t_origin t\<rparr>)))"

definition find_tag :: "string \<Rightarrow> string list list \<Rightarrow> string option" where
  "find_tag name tags =
     (case List.find (\<lambda>tag. tag \<noteq> [] \<and> hd tag = name) tags of
        None \<Rightarrow> None
      | Some tag \<Rightarrow> if length tag > 1 then Some (tag ! 1) else None)"

definition nostr_header :: "rlibs \<Rightarrow> bytes \<Rightarrow> string" where
  "nostr_header R bs = ''Nostr '' @ b64url R bs"

definition verify_return :: "rlibs \<Rightarrow> bytes \<Rightarrow> unsigned_event \<Rightarrow> nat \<Rightarrow> policy_error + event" where
  "verify_return R bs request now =
     try_then (signed_event R bs (ue_pubkey request) MAX_EVENT_BYTES) (\<lambda>ev.
       if ev_id ev \<noteq> compute_id R request then Inl P_ChangedRequest
       else try_then (ok_or P_Schema (find_tag ''server'' (ue_tags request))) (\<lambda>origin_tag.
         try_then (ok_or P_Schema (find_tag ''x'' (ue_tags request))) (\<lambda>hash.
           if verify_upload R origin_tag (ue_pubkey request) (nostr_header R bs) hash now then Inr ev
           else Inl P_Time)))"

section \<open>Well-formed policies\<close>

definition owner_groups :: "target list \<Rightarrow> string set" where
  "owner_groups ts = t_failure_group ` {t \<in> set ts. t_retention t = Owner}"

definition wf_target :: "rlibs \<Rightarrow> profile \<Rightarrow> target \<Rightarrow> bool" where
  "wf_target R p t \<longleftrightarrow>
     identifier_ok (t_id t) \<and> identifier_ok (t_failure_group t)
     \<and> (\<exists>u. url_parse R (t_origin t) = Some u \<and> u_str u = t_origin t \<and> profile_accepts (sha3_256 R) p u)"

definition wf_blob :: "blob \<Rightarrow> bool" where
  "wf_blob b \<longleftrightarrow> canonical_hex (b_sha256 b) 32 \<and> 0 < b_size b \<and> b_size b \<le> MAX_BLOB_BYTES"

definition wf_policy :: "rlibs \<Rightarrow> policy \<Rightarrow> bool" where
  "wf_policy R p \<longleftrightarrow>
     policy_type p = ''wildbloom.replica-policy'' \<and> p_version p = 1 \<and> identifier_ok (p_id p)
     \<and> 0 < p_revision p \<and> 0 < p_expires_at p \<and> length (targets p) \<le> 16 \<and> length (blobs p) \<le> 128
     \<and> (\<forall>t \<in> set (targets p). wf_target R (p_profile p) t)
     \<and> distinct (map t_id (targets p)) \<and> distinct (map t_origin (targets p))
     \<and> (\<forall>b \<in> set (blobs p). wf_blob b) \<and> distinct (map b_sha256 (blobs p))
     \<and> desired_groups p \<le> card (owner_groups (targets p))
     \<and> (0 < desired_groups p \<longrightarrow> blobs p \<noteq> [])"

lemma validate_targets_Inr:
  "validate_targets R p ts ids origins gs = Inr gs'
     \<longleftrightarrow> (\<forall>t \<in> set ts. wf_target R p t) \<and> distinct (map t_id ts) \<and> distinct (map t_origin ts)
       \<and> t_id ` set ts \<inter> ids = {} \<and> t_origin ` set ts \<inter> origins = {} \<and> gs' = gs \<union> owner_groups ts"
proof (induction R p ts ids origins gs rule: validate_targets.induct)
  case (2 R p t ts ids origins gs)
  have g: "owner_groups (t # ts) = (if t_retention t = Owner then insert (t_failure_group t) (owner_groups ts)
      else owner_groups ts)"
    by (auto simp: owner_groups_def)
  show ?case
  proof (cases "identifier_ok (t_id t) \<and> identifier_ok (t_failure_group t) \<and> t_id t \<notin> ids \<and> t_origin t \<notin> origins")
    case False
    then show ?thesis by (auto simp: wf_target_def)
  next
    case True
    show ?thesis
    proof (cases "\<exists>u. url_parse R (t_origin t) = Some u \<and> u_str u = t_origin t \<and> profile_accepts (sha3_256 R) p u")
      case False
      then show ?thesis using True by (auto simp: wf_target_def split: option.splits if_splits)
    next
      case ok: True
      then obtain u where "url_parse R (t_origin t) = Some u" "u_str u = t_origin t" "profile_accepts (sha3_256 R) p u"
        by blast
      moreover from this have "wf_target R p t" using True by (auto simp: wf_target_def)
      ultimately show ?thesis using 2 True g by auto
    qed
  qed
qed (auto simp: owner_groups_def)

lemma validate_blobs_Inr:
  "validate_blobs bs hashes = Inr u
     \<longleftrightarrow> (\<forall>b \<in> set bs. wf_blob b) \<and> distinct (map b_sha256 bs) \<and> b_sha256 ` set bs \<inter> hashes = {}"
  by (induction bs hashes rule: validate_blobs.induct) (auto simp: wf_blob_def)

lemma validate_policy_Inr: "validate_policy R p = Inr u \<longleftrightarrow> wf_policy R p"
  by (auto simp: validate_policy_def wf_policy_def try_then_Inr validate_targets_Inr validate_blobs_Inr
      not_less split: if_splits)

text \<open>C24: Validation accepts exactly the well-formed policies: bounded, with distinct target ids, origins
  and blob hashes, origins the profile accepts in canonical form, and no more desired groups than
  owner-retention failure groups.\<close>

theorem validate_policy_exact: "validate_policy R p = Inr () \<longleftrightarrow> wf_policy R p"
  by (rule validate_policy_Inr)

lemma signed_event_Inr:
  assumes "signed_event R bs own limit = Inr ev"
  shows "length bs \<le> limit" "event_from_json R bs = Some ev" "event_verify R ev"
    "\<exists>raw. strict_from_json R bs = Some raw \<and> se_pubkey raw = own \<and> canonical_hex own 32
       \<and> se_kind raw = ev_kind ev \<and> se_created_at raw = ev_created_at ev \<and> length (se_tags raw) \<le> 8"
  using assms by (auto simp: signed_event_def try_then_Inr split: if_splits)

lemma policy_template_Inr:
  "policy_template R p own now = Inr u
     \<longleftrightarrow> wf_policy R p \<and> now < p_expires_at p \<and> canonical_hex own 32
       \<and> (\<exists>key content. pubkey_from_hex R own = Some key \<and> policy_to_json R p = Some content
            \<and> u = \<lparr>ue_pubkey = key, ue_created_at = now, ue_kind = 30078, ue_tags = policy_tags p, ue_content = content\<rparr>)"
  by (auto simp: policy_template_def try_then_Inr validate_policy_Inr not_le split: if_splits)

text \<open>C22: An accepted policy is exactly what its owner signed. It is well-formed, unexpired and not dated more
  than thirty seconds ahead; the event carries a verified signature under the expected key and its
  content and tags are the canonical encoding of the returned policy, so nothing unsigned is used.\<close>

theorem verify_policy_sound:
  assumes "verify_policy R bs own now = Inr vp"
  shows "wf_policy R (vp_policy vp) \<and> vp_owner vp = own \<and> now < p_expires_at (vp_policy vp)
    \<and> length bs \<le> MAX_POLICY_BYTES
    \<and> (\<exists>ev raw. event_from_json R bs = Some ev \<and> event_verify R ev \<and> vp_event_id vp = ev_id ev
         \<and> strict_from_json R bs = Some raw \<and> se_pubkey raw = own \<and> ev_kind ev = 30078
         \<and> policy_to_json R (vp_policy vp) = Some (ev_content ev) \<and> ev_tags ev = policy_tags (vp_policy vp)
         \<and> ev_created_at ev \<le> sat_add now 30 \<and> ev_created_at ev < p_expires_at (vp_policy vp))"
proof -
  from assms obtain ev p u where s: "signed_event R bs own MAX_POLICY_BYTES = Inr ev" "ev_kind ev = 30078"
    "now < p_expires_at p" "ev_created_at ev \<le> sat_add now 30" "ev_created_at ev < p_expires_at p"
    "policy_template R p own (ev_created_at ev) = Inr u" "ev_tags ev = ue_tags u" "ev_content ev = ue_content u"
    "vp = \<lparr>vp_policy = p, vp_event_id = ev_id ev, vp_owner = own\<rparr>"
    by (auto simp: verify_policy_def try_then_Inr not_le not_less split: if_splits)
  show ?thesis
    using s signed_event_Inr [OF s(1)] by (auto simp: policy_template_Inr)
qed

text \<open>\<open>bs\<close> is the wire form of the template \<open>u\<close> signed by \<open>own\<close>, as the Nostr library parses it back.\<close>

definition signed_as :: "rlibs \<Rightarrow> string \<Rightarrow> unsigned_event \<Rightarrow> bytes \<Rightarrow> event \<Rightarrow> bool" where
  "signed_as R own u bs ev \<longleftrightarrow>
     (\<exists>raw. strict_from_json R bs = Some raw \<and> event_from_json R bs = Some ev \<and> event_verify R ev
        \<and> canonical_hex (se_id raw) 32 \<and> canonical_hex (se_sig raw) 64 \<and> se_pubkey raw = own
        \<and> se_kind raw = ue_kind u \<and> se_created_at raw = ue_created_at u \<and> se_tags raw = ue_tags u
        \<and> se_content raw = ue_content u \<and> ev_kind ev = ue_kind u \<and> ev_created_at ev = ue_created_at u
        \<and> ev_tags ev = ue_tags u \<and> ev_content ev = ue_content u)"

lemma policy_tags_small:
  assumes "identifier_ok (p_id p)" "p_expires_at p \<le> u64_max"
  shows "length (policy_tags p) \<le> 8" "\<forall>tag \<in> set (policy_tags p). length tag \<le> 3 \<and> (\<forall>part \<in> set tag. length part \<le> 256)"
proof -
  have "length (show_nat (p_expires_at p)) \<le> 20"
    using assms(2) by (intro length_show_nat) (auto simp: u64_max_def)
  then show "length (policy_tags p) \<le> 8" "\<forall>tag \<in> set (policy_tags p). length tag \<le> 3 \<and> (\<forall>part \<in> set tag. length part \<le> 256)"
    using assms(1) by (auto simp: policy_tags_def identifier_ok_def)
qed

text \<open>C23: A policy made with the template tool and signed unchanged by its owner is accepted, with exactly that
  policy, at every time before it expires, up to thirty seconds before the moment it was made.\<close>

theorem template_verifies:
  assumes "policy_template R p own made = Inr u" "signed_as R own u bs ev" "policy_from_json R (ue_content u) = Some p"
    and "length bs \<le> MAX_POLICY_BYTES" "length (ue_content u) \<le> 128 * 1024" "p_expires_at p \<le> u64_max"
    and "made \<le> sat_add now 30" "now < p_expires_at p"
  shows "verify_policy R bs own now = Inr \<lparr>vp_policy = p, vp_event_id = ev_id ev, vp_owner = own\<rparr>"
proof -
  have u: "wf_policy R p" "made < p_expires_at p" "canonical_hex own 32" "ue_kind u = 30078" "ue_created_at u = made"
    "ue_tags u = policy_tags p"
    using assms(1) by (auto simp: policy_template_Inr)
  then have v: "validate_policy R p = Inr ()" and i: "identifier_ok (p_id p)"
    by (auto simp: validate_policy_Inr wf_policy_def)
  have "signed_event R bs own MAX_POLICY_BYTES = Inr ev"
    using assms(2,4,5) u policy_tags_small [OF i assms(6)]
    by (fastforce simp: signed_event_def signed_as_def)
  then show ?thesis
    using assms(1-3,7,8) u v by (auto simp: verify_policy_def signed_as_def)
qed

end
