(* ===== verification/Btree_Map.thy ===== *)
theory Btree_Map
  imports Prelude "HOL-Library.List_Lexorder" "HOL-Library.Char_ord"
begin

text \<open>
  Rust's \<open>BTreeMap\<close> as an association list in strictly increasing key order, which is the order
  its iterators use. A \<open>BTreeSet\<close> is a HOL set where only membership and size matter. Strings
  compare bytewise, as the lexicographic order on characters does.
\<close>

type_synonym ('k, 'v) btree = "('k \<times> 'v) list"

definition bt_ok :: "('k::linorder, 'v) btree \<Rightarrow> bool" where
  "bt_ok m = sorted_wrt (<) (map fst m)"

definition bt_get :: "'k \<Rightarrow> ('k, 'v) btree \<Rightarrow> 'v option" where
  "bt_get k m = map_of m k"

fun bt_insert :: "'k::linorder \<Rightarrow> 'v \<Rightarrow> ('k, 'v) btree \<Rightarrow> ('k, 'v) btree" where
  "bt_insert k v [] = [(k, v)]"
| "bt_insert k v ((a, b) # m) =
     (if k < a then (k, v) # (a, b) # m
      else if k = a then (k, v) # m
      else (a, b) # bt_insert k v m)"

definition bt_remove :: "'k \<Rightarrow> ('k, 'v) btree \<Rightarrow> ('k, 'v) btree" where
  "bt_remove k m = filter (\<lambda>(a, b). a \<noteq> k) m"

definition bt_retain :: "('k \<Rightarrow> 'v \<Rightarrow> bool) \<Rightarrow> ('k, 'v) btree \<Rightarrow> ('k, 'v) btree" where
  "bt_retain P m = filter (\<lambda>(a, b). P a b) m"

definition bt_collect :: "('k::linorder \<times> 'v) list \<Rightarrow> ('k, 'v) btree" where
  "bt_collect kvs = fold (\<lambda>(k, v). bt_insert k v) kvs []"

definition bt_keys :: "('k, 'v) btree \<Rightarrow> 'k set" where
  "bt_keys m = fst ` set m"

section \<open>The map contract\<close>

text \<open>What the components rely on: lookup after each update, and the keys each update leaves.\<close>

locale key_map =
  fixes ok :: "'m \<Rightarrow> bool"
    and get :: "'k \<Rightarrow> 'm \<Rightarrow> 'v option"
    and ins :: "'k \<Rightarrow> 'v \<Rightarrow> 'm \<Rightarrow> 'm"
    and del :: "'k \<Rightarrow> 'm \<Rightarrow> 'm"
    and ret :: "('k \<Rightarrow> 'v \<Rightarrow> bool) \<Rightarrow> 'm \<Rightarrow> 'm"
  assumes ok_ins: "ok m \<Longrightarrow> ok (ins k v m)"
    and ok_del: "ok m \<Longrightarrow> ok (del k m)"
    and ok_ret: "ok m \<Longrightarrow> ok (ret P m)"
    and get_ins: "ok m \<Longrightarrow> get a (ins k v m) = (if a = k then Some v else get a m)"
    and get_del: "ok m \<Longrightarrow> get a (del k m) = (if a = k then None else get a m)"
    and get_ret: "ok m \<Longrightarrow> get a (ret P m) = (case get a m of None \<Rightarrow> None | Some v \<Rightarrow> if P a v then Some v else None)"
begin

lemma ok_fold_ins: "ok m \<Longrightarrow> ok (fold (\<lambda>(k, v). ins k v) kvs m)"
  by (induction kvs arbitrary: m) (auto simp: ok_ins)

lemma get_fold_ins:
  "ok m \<Longrightarrow> distinct (map fst kvs) \<Longrightarrow>
   get a (fold (\<lambda>(k, v). ins k v) kvs m) = (case map_of kvs a of None \<Rightarrow> get a m | Some v \<Rightarrow> Some v)"
proof (induction kvs arbitrary: m)
  case (Cons kv kvs)
  obtain k v where kv: "kv = (k, v)" by (cases kv)
  have "map_of kvs k = None" using Cons.prems kv by (simp add: map_of_eq_None_iff)
  then show ?case using Cons kv by (auto simp: ok_ins get_ins split: option.splits)
qed simp

lemma ins_del_get: "ok m \<Longrightarrow> get a (del k (ins k v m)) = get a (del k m)"
  by (simp add: ok_ins get_del get_ins)

end

section \<open>Association lists implement it\<close>

lemma bt_keys_insert: "bt_keys (bt_insert k v m) = insert k (bt_keys m)"
  by (induction k v m rule: bt_insert.induct) (auto simp: bt_keys_def)

lemma bt_keys_simps [simp]: "bt_keys [] = {}" "bt_keys ((k, v) # m) = insert k (bt_keys m)"
  by (auto simp: bt_keys_def)

lemma bt_ok_Nil [simp]: "bt_ok []"
  by (simp add: bt_ok_def)

lemma bt_ok_Cons: "bt_ok ((k, v) # m) \<longleftrightarrow> (\<forall>a \<in> bt_keys m. k < a) \<and> bt_ok m"
  by (auto simp: bt_ok_def bt_keys_def)

lemma bt_ok_insert: "bt_ok m \<Longrightarrow> bt_ok (bt_insert k v m)"
  by (induction k v m rule: bt_insert.induct) (auto simp: bt_ok_Cons bt_keys_insert)

lemma bt_get_insert: "bt_get a (bt_insert k v m) = (if a = k then Some v else bt_get a m)"
  by (induction k v m rule: bt_insert.induct) (auto simp: bt_get_def)

lemma bt_keys_filter: "bt_keys (filter P m) \<subseteq> bt_keys m"
  by (auto simp: bt_keys_def)

lemma bt_ok_filter: "bt_ok m \<Longrightarrow> bt_ok (filter P m)"
proof (induction m)
  case (Cons kv m)
  obtain k v where "kv = (k, v)" by (cases kv)
  then show ?case using Cons bt_keys_filter [of P m] by (auto simp: bt_ok_Cons)
qed simp

lemma bt_get_None: "bt_get k m = None \<longleftrightarrow> k \<notin> bt_keys m"
  by (simp add: bt_get_def bt_keys_def map_of_eq_None_iff)

lemma bt_ok_distinct: "bt_ok m \<Longrightarrow> distinct (map fst m)"
  by (simp add: bt_ok_def strict_sorted_iff)

lemma bt_get_filter:
  assumes "bt_ok m"
  shows "bt_get a (filter (\<lambda>(k, v). P k v) m)
    = (case bt_get a m of None \<Rightarrow> None | Some v \<Rightarrow> if P a v then Some v else None)"
  using assms
proof (induction m)
  case (Cons kv m)
  obtain k v where kv: "kv = (k, v)" by (cases kv)
  have "bt_get k m = None" using Cons.prems kv by (auto simp: bt_ok_Cons bt_get_None)
  then show ?case using Cons kv by (auto simp: bt_ok_Cons bt_get_def split: option.splits)
qed (simp add: bt_get_def)

interpretation bt: key_map bt_ok bt_get bt_insert bt_remove bt_retain
proof unfold_locales
  fix m :: "('a, 'b) btree" and a k :: 'a
  assume "bt_ok m"
  then show "bt_get a (bt_remove k m) = (if a = k then None else bt_get a m)"
    using bt_get_filter [of m a "\<lambda>x _. x \<noteq> k"] by (auto simp: bt_remove_def split: option.splits)
qed (auto simp: bt_ok_insert bt_get_insert bt_ok_filter bt_get_filter bt_remove_def bt_retain_def)

lemma bt_ok_collect: "bt_ok (bt_collect kvs)"
  unfolding bt_collect_def by (rule bt.ok_fold_ins) simp

lemma bt_get_collect: "distinct (map fst kvs) \<Longrightarrow> bt_get a (bt_collect kvs) = map_of kvs a"
  unfolding bt_collect_def
  by (subst bt.get_fold_ins) (auto simp: bt_get_def split: option.splits)

lemma bt_keys_fold: "bt_keys (fold (\<lambda>(k, v). bt_insert k v) kvs m) = fst ` set kvs \<union> bt_keys m"
  by (induction kvs arbitrary: m) (auto simp: bt_keys_insert)

lemma bt_keys_collect: "bt_keys (bt_collect kvs) = fst ` set kvs"
  by (simp add: bt_collect_def bt_keys_fold)

lemma bt_keys_remove: "bt_keys (bt_remove k m) = bt_keys m - {k}"
  by (auto simp: bt_keys_def bt_remove_def)

lemma bt_keys_retain: "bt_keys (bt_retain P m) \<subseteq> bt_keys m"
  by (auto simp: bt_keys_def bt_retain_def)

lemma bt_set_insert: "set (bt_insert k v m) \<subseteq> insert (k, v) (set m)"
  by (induction k v m rule: bt_insert.induct) auto

lemma bt_set_remove: "set (bt_remove k m) \<subseteq> set m"
  by (auto simp: bt_remove_def)

lemma bt_set_retain: "set (bt_retain P m) = {(k, v) \<in> set m. P k v}"
  by (auto simp: bt_retain_def)

lemma bt_length: "bt_ok m \<Longrightarrow> length m = card (bt_keys m)"
  using distinct_card [of "map fst m"] by (simp add: bt_keys_def bt_ok_distinct)

lemma bt_get_set: "bt_ok m \<Longrightarrow> bt_get k m = Some v \<longleftrightarrow> (k, v) \<in> set m"
  by (simp add: bt_get_def bt_ok_distinct)

lemma bt_length_le:
  assumes "bt_ok m" "bt_keys m \<subseteq> A" "finite A" "card A \<le> n"
  shows "length m \<le> n"
  using assms bt_length [of m] card_mono [of A "bt_keys m"] by simp

end
