(* ===== verification/Replica_State.thy ===== *)
theory Replica_State
  imports Replica_Policy Btree_Map "HOL-Library.AList"
begin

text \<open>
  The coordinator's private state directory: \<open>crates/wildbloomd/src/replicas/state.rs\<close>. The
  directory is part of a \<open>rworld\<close> together with the in-memory snapshot; what the operating system
  answers, and what other programs do to the directory, is read from the step-indexed functions of
  \<open>renv\<close>, one step per call, so every failure and every interleaving is some environment.
\<close>

section \<open>Data\<close>

definition MAX_STATE_BYTES :: nat where "MAX_STATE_BYTES = 2 * 1024 * 1024"

datatype observation = Verified nat | Failed network_failure | AwaitingAuthorisation
  | SignerUnavailable | Acknowledged | Deferred

record pending =
  requested_at :: nat
  pd_event_id :: string

record snapshot =
  s_version :: nat
  s_owner :: string
  s_policy_id :: string
  s_revision :: nat
  s_event_id :: string
  s_profile :: profile
  observed_at :: "nat option"
  s_cursor :: nat
  repair_cursors :: "(string, nat) btree"
  observations :: "(string, (string, observation) btree) btree"
  s_pending :: "(string, pending) btree"

text \<open>A directory entry is an ordinary file or something else (a link, a directory, a device).\<close>

datatype entry = Regular bytes | Irregular

type_synonym directory = "(string \<times> entry) list"

datatype dir = Root | PendingDir

text \<open>
  \<open>W_Io\<close> fails before the temporary file is renamed over its destination and \<open>W_Unsynced\<close> after.
\<close>

datatype write_outcome = W_Ok | W_Directory | W_Io | W_Unsynced

text \<open>
  The network calls and the successful policy checks of a coordinator, in order. It is the only
  part of the world the program does not read.
\<close>

datatype effect =
    E_Checked
  | E_Verify target blob "network_failure + unit"
  | E_Mirror target target blob string nat "network_failure + unit"
  | E_Sign unsigned_event

record rworld =
  tick :: nat
  root_dir :: directory
  pending_dir :: directory
  snap :: "snapshot option"
  effects :: "effect list"

record renv =
  rl :: rlibs
  snapshot_to_json :: "snapshot \<Rightarrow> bytes option"
  snapshot_from_json :: "bytes \<Rightarrow> snapshot option"
  request_to_json :: "unsigned_event \<Rightarrow> bytes option"
  clock_at :: "nat \<Rightarrow> nat"
  policy_file_at :: "nat \<Rightarrow> entry option"
  private_at :: "nat \<Rightarrow> bool"
  lock_at :: "nat \<Rightarrow> bool"
  io_at :: "nat \<Rightarrow> bool"
  write_at :: "nat \<Rightarrow> write_outcome"
  outside_at :: "nat \<Rightarrow> directory \<Rightarrow> directory"
  verify_at :: "nat \<Rightarrow> target \<Rightarrow> blob \<Rightarrow> network_failure + unit"
  mirror_at :: "nat \<Rightarrow> target \<Rightarrow> target \<Rightarrow> blob \<Rightarrow> string \<Rightarrow> network_failure + unit"
  sign_at :: "nat \<Rightarrow> unsigned_event \<Rightarrow> bytes option"

definition step_tick :: "rworld \<Rightarrow> rworld" where
  "step_tick w = w\<lparr>tick := tick w + 1\<rparr>"

section \<open>Bounded reads and private writes\<close>

definition read_file_bounded :: "entry \<Rightarrow> bool \<Rightarrow> nat \<Rightarrow> state_error + bytes" where
  "read_file_bounded f readable limit =
     (case f of
        Irregular \<Rightarrow> Inl S_Schema
      | Regular bs \<Rightarrow>
          if length bs > limit then Inl S_Schema
          else if \<not> readable then Inl S_Io
          else let got = take (limit + 1) bs in if length got > limit then Inl S_Schema else Inr got)"

text \<open>
  The path is looked at twice: by \<open>symlink_metadata\<close> at step \<open>n\<close> and by \<open>File::open\<close> at
  \<open>n + 1\<close>; it may have been replaced in between.
\<close>

definition read_bounded :: "(nat \<Rightarrow> entry option) \<Rightarrow> (nat \<Rightarrow> bool) \<Rightarrow> nat \<Rightarrow> nat \<Rightarrow> state_error + bytes" where
  "read_bounded look io n limit =
     (case look n of
        None \<Rightarrow> Inl S_Io
      | Some Irregular \<Rightarrow> Inl S_Schema
      | Some (Regular bs) \<Rightarrow>
          if length bs > limit then Inl S_Schema
          else case look (n + 1) of
            None \<Rightarrow> Inl S_Io
          | Some f \<Rightarrow> if \<not> io n then Inl S_Io else read_file_bounded f (io (n + 1)) limit)"

definition dir_of :: "dir \<Rightarrow> rworld \<Rightarrow> directory" where
  "dir_of d w = (case d of Root \<Rightarrow> root_dir w | PendingDir \<Rightarrow> pending_dir w)"

definition set_dir :: "dir \<Rightarrow> directory \<Rightarrow> rworld \<Rightarrow> rworld" where
  "set_dir d fs w = (case d of Root \<Rightarrow> w\<lparr>root_dir := fs\<rparr> | PendingDir \<Rightarrow> w\<lparr>pending_dir := fs\<rparr>)"

definition write_private :: "renv \<Rightarrow> dir \<Rightarrow> string \<Rightarrow> bytes \<Rightarrow> rworld \<Rightarrow> rworld \<times> (state_error + unit)" where
  "write_private E d name bs w =
     (let outcome = write_at E (tick w); w' = step_tick w
      in if outcome = W_Directory then (w', Inl S_Directory)
         else if map_of (dir_of d w) name = Some Irregular then (w', Inl S_Io)
         else if outcome = W_Io then (w', Inl S_Io)
         else let w'' = set_dir d (AList.update name (Regular bs) (dir_of d w')) w'
              in if outcome = W_Unsynced then (w'', Inl S_Io) else (w'', Inr ()))"

section \<open>Opening\<close>

definition pending_key_ok :: "string \<Rightarrow> pending \<Rightarrow> bool" where
  "pending_key_ok key p =
     (case split_once (CHR '':'') key of
        None \<Rightarrow> False
      | Some (hash, target) \<Rightarrow>
          canonical_hex hash 32 \<and> identifier_ok target \<and> requested_at p \<noteq> 0 \<and> canonical_hex (pd_event_id p) 32)"

definition snapshot_ok :: "snapshot \<Rightarrow> bool" where
  "snapshot_ok s \<longleftrightarrow>
     s_version s = 1 \<and> s_revision s \<noteq> 0 \<and> canonical_hex (s_owner s) 32 \<and> canonical_hex (s_event_id s) 32
     \<and> identifier_ok (s_policy_id s) \<and> s_cursor s < 128 \<and> length (s_pending s) \<le> 2048
     \<and> length (observations s) \<le> 128 \<and> length (repair_cursors s) \<le> 128
     \<and> (\<forall>(hash, cursor) \<in> set (repair_cursors s). canonical_hex hash 32 \<and> cursor < 256)
     \<and> (\<forall>(key, p) \<in> set (s_pending s). pending_key_ok key p)
     \<and> (\<forall>(hash, ts) \<in> set (observations s).
          canonical_hex hash 32 \<and> length ts \<le> 16 \<and> (\<forall>(tid, obs) \<in> set ts. identifier_ok tid))"

text \<open>The fallible calls of \<open>open\<close> that only succeed or fail consume one step each.\<close>

definition guard_io :: "bool \<Rightarrow> state_error \<Rightarrow> rworld \<Rightarrow> rworld \<times> (state_error + unit)" where
  "guard_io b e w = (step_tick w, if b then Inr () else Inl e)"

definition load_snapshot :: "renv \<Rightarrow> rworld \<Rightarrow> rworld \<times> (state_error + snapshot option)" where
  "load_snapshot E w =
     st_then (guard_io (io_at E (tick w)) S_Io w) (\<lambda>_ w.
       case map_of (root_dir w) ''state.json'' of
         None \<Rightarrow> (w, Inr None)
       | Some Irregular \<Rightarrow> (w, Inl S_Schema)
       | Some (Regular bs) \<Rightarrow>
           st_then (guard_io (io_at E (tick w)) S_Io w) (\<lambda>_ w.
           st_then (guard_io (io_at E (tick w)) S_Io w) (\<lambda>_ w.
             (step_tick w,
              try_then (read_file_bounded (Regular bs) (io_at E (tick w)) MAX_STATE_BYTES) (\<lambda>got.
              try_then (ok_or S_Schema (snapshot_from_json E got)) (\<lambda>s.
                if snapshot_ok s then Inr (Some s) else Inl S_Schema))))))"

definition state_open :: "renv \<Rightarrow> rworld \<Rightarrow> rworld \<times> (state_error + unit)" where
  "state_open E w =
     st_then (guard_io (private_at E (tick w)) S_Directory w) (\<lambda>_ w.
       if map_of (root_dir w) ''coordinator.lock'' = Some Irregular then (w, Inl S_Io)
       else st_then (guard_io (io_at E (tick w)) S_Io w) (\<lambda>_ w.
         let w = (if map_of (root_dir w) ''coordinator.lock'' = None
                  then w\<lparr>root_dir := AList.update ''coordinator.lock'' (Regular []) (root_dir w)\<rparr> else w)
         in st_then (guard_io (io_at E (tick w)) S_Io w) (\<lambda>_ w.
            st_then (guard_io (lock_at E (tick w)) S_Locked w) (\<lambda>_ w.
            st_then (guard_io (private_at E (tick w)) S_Directory w) (\<lambda>_ w.
            st_then (load_snapshot E w) (\<lambda>s w. (w\<lparr>snap := s\<rparr>, Inr ())))))))"

section \<open>Saving and pending files\<close>

definition save :: "renv \<Rightarrow> rworld \<Rightarrow> rworld \<times> (state_error + unit)" where
  "save E w =
     (case snap w of
        None \<Rightarrow> (w, Inl S_Schema)
      | Some s \<Rightarrow>
          (case snapshot_to_json E s of
             None \<Rightarrow> (w, Inl S_Schema)
           | Some bs \<Rightarrow>
               if length bs > MAX_STATE_BYTES then (w, Inl S_Schema)
               else write_private E Root ''state.json'' bs w))"

definition pending_name :: "string \<Rightarrow> bool \<Rightarrow> string" where
  "pending_name event_id returned = (if returned then ''signed'' else ''request'') @ ''-'' @ event_id @ ''.json''"

definition write_request :: "renv \<Rightarrow> string \<Rightarrow> bytes \<Rightarrow> rworld \<Rightarrow> rworld \<times> (state_error + unit)" where
  "write_request E event_id json w =
     (if \<not> canonical_hex event_id 32 then (w, Inl S_Schema)
      else write_private E PendingDir (''request-'' @ event_id @ ''.json'') json w)"

definition remove_pending :: "renv \<Rightarrow> string \<Rightarrow> rworld \<Rightarrow> rworld \<times> (state_error + unit)" where
  "remove_pending E name w =
     (let w' = step_tick w
      in if map_of (pending_dir w) name = None then (w', Inr ())
         else if io_at E (tick w) then (w'\<lparr>pending_dir := AList.delete name (pending_dir w)\<rparr>, Inr ())
         else (w', Inl S_Io))"

definition remove_request :: "renv \<Rightarrow> string \<Rightarrow> rworld \<Rightarrow> rworld \<times> (state_error + unit)" where
  "remove_request E event_id w =
     (if \<not> canonical_hex event_id 32 then (w, Inl S_Schema)
      else st_then (remove_pending E (pending_name event_id False) w) (\<lambda>_ w.
        remove_pending E (pending_name event_id True) w))"

text \<open>
  The id a pending file name carries. A name that is not UTF-8 is skipped by the source; it never
  reaches the removal here either, because a canonical id is ASCII.
\<close>

definition pending_file_id :: "string \<Rightarrow> string option" where
  "pending_file_id name =
     (case (case strip_prefix ''request-'' name of Some r \<Rightarrow> Some r | None \<Rightarrow> strip_prefix ''signed-'' name) of
        None \<Rightarrow> None
      | Some r \<Rightarrow> strip_suffix ''.json'' r)"

definition stale_name :: "string list \<Rightarrow> string \<Rightarrow> bool" where
  "stale_name keep name =
     (case pending_file_id name of None \<Rightarrow> False | Some i \<Rightarrow> canonical_hex i 32 \<and> i \<notin> set keep)"

fun reconcile_loop :: "renv \<Rightarrow> string list \<Rightarrow> string list \<Rightarrow> rworld \<Rightarrow> rworld \<times> (state_error + unit)" where
  "reconcile_loop E keep [] w = (w, Inr ())"
| "reconcile_loop E keep (name # names) w =
     st_then (guard_io (io_at E (tick w)) S_Io w) (\<lambda>_ w.
       if stale_name keep name
       then st_then (guard_io (io_at E (tick w)) S_Io w) (\<lambda>_ w.
              reconcile_loop E keep names (w\<lparr>pending_dir := AList.delete name (pending_dir w)\<rparr>))
       else reconcile_loop E keep names w)"

definition reconcile_pending_files :: "renv \<Rightarrow> string list \<Rightarrow> rworld \<Rightarrow> rworld \<times> (state_error + unit)" where
  "reconcile_pending_files E keep w =
     (let w = w\<lparr>pending_dir := outside_at E (tick w) (pending_dir w)\<rparr>
      in st_then (guard_io (io_at E (tick w)) S_Io w) (\<lambda>_ w.
           reconcile_loop E keep (map fst (pending_dir w)) w))"

definition clear_pending_files :: "renv \<Rightarrow> rworld \<Rightarrow> rworld \<times> (state_error + unit)" where
  "clear_pending_files E w = reconcile_pending_files E [] w"

section \<open>Accepting and invalidating\<close>

definition fresh_snapshot :: "verified_policy \<Rightarrow> snapshot" where
  "fresh_snapshot vp =
     \<lparr>s_version = 1, s_owner = vp_owner vp, s_policy_id = p_id (vp_policy vp),
      s_revision = p_revision (vp_policy vp), s_event_id = vp_event_id vp, s_profile = p_profile (vp_policy vp),
      observed_at = None, s_cursor = 0, repair_cursors = [], observations = [], s_pending = []\<rparr>"

definition accept :: "renv \<Rightarrow> verified_policy \<Rightarrow> rworld \<Rightarrow> rworld \<times> (state_error + unit)" where
  "accept E vp w =
     (let renew = st_then (save E (w\<lparr>snap := Some (fresh_snapshot vp)\<rparr>)) (\<lambda>_ w. clear_pending_files E w)
      in case snap w of
           None \<Rightarrow> renew
         | Some s \<Rightarrow>
             if s_owner s \<noteq> vp_owner vp \<or> s_policy_id s \<noteq> p_id (vp_policy vp) then (w, Inl S_Identity)
             else if s_revision s > p_revision (vp_policy vp)
               \<or> (s_revision s = p_revision (vp_policy vp) \<and> s_event_id s \<noteq> vp_event_id vp)
             then (w, Inl S_Rollback)
             else if s_event_id s = vp_event_id vp then (w, Inr ())
             else renew)"

definition invalid_snapshot :: "snapshot \<Rightarrow> snapshot" where
  "invalid_snapshot s = s\<lparr>observations := [], observed_at := None, s_pending := []\<rparr>"

definition invalidate :: "renv \<Rightarrow> rworld \<Rightarrow> rworld \<times> (state_error + unit)" where
  "invalidate E w =
     (case snap w of
        None \<Rightarrow> clear_pending_files E w
      | Some s \<Rightarrow> st_then (save E (w\<lparr>snap := Some (invalid_snapshot s)\<rparr>)) (\<lambda>_ w. clear_pending_files E w))"

section \<open>What the operations leave alone\<close>

text \<open>Directory operations move the clock and the directory and nothing else.\<close>

definition same :: "rworld \<Rightarrow> rworld \<Rightarrow> bool" where
  "same w w' \<longleftrightarrow> snap w' = snap w \<and> effects w' = effects w"

lemma same_refl [simp]: "same w w"
  by (simp add: same_def)

lemma same_step [simp]: "snap (step_tick w) = snap w" "effects (step_tick w) = effects w"
    "root_dir (step_tick w) = root_dir w" "pending_dir (step_tick w) = pending_dir w"
    "tick (step_tick w) = tick w + 1"
  by (simp_all add: step_tick_def)

lemma same_trans [trans]: "same a b \<Longrightarrow> same b c \<Longrightarrow> same a c"
  by (simp add: same_def)

lemma wp_guard_io [simp]: "wp Q X (guard_io b e w) = (if b then Q () (step_tick w) else X e (step_tick w))"
  by (simp add: guard_io_def)

lemma write_private_same: "same w (fst (write_private E d name bs w))"
  by (cases d) (simp_all add: write_private_def Let_def same_def set_dir_def)

lemma save_same: "same w (fst (save E w))"
  by (simp add: save_def write_private_same split: option.splits)

lemma write_request_same: "same w (fst (write_request E i json w))"
  by (simp add: write_request_def write_private_same)

lemma remove_pending_same: "same w (fst (remove_pending E name w))"
  by (simp add: remove_pending_def Let_def same_def)

lemma same_st_then:
  "same w (fst r) \<Longrightarrow> (\<And>x s. same w s \<Longrightarrow> same w (fst (f x s))) \<Longrightarrow> same w (fst (st_then r f))"
  by (auto simp: fst_st_then split: sum.splits)

lemma remove_request_same: "same w (fst (remove_request E i w))"
  by (auto simp: remove_request_def intro!: same_st_then remove_pending_same
      intro: same_trans [OF _ remove_pending_same])

lemma guard_io_same: "same w (fst (guard_io b e w))"
  by (simp add: guard_io_def same_def)

lemma reconcile_loop_same: "same w (fst (reconcile_loop E keep names w))"
proof (induction names arbitrary: w)
  case (Cons name names)
  then show ?case
    by (auto simp: guard_io_def fst_st_then same_def split: sum.splits)
qed simp

lemma reconcile_same: "same w (fst (reconcile_pending_files E keep w))"
proof -
  let ?w = "w\<lparr>pending_dir := outside_at E (tick w) (pending_dir w)\<rparr>"
  have "same ?w (fst (st_then (guard_io (io_at E (tick ?w)) S_Io ?w)
      (\<lambda>_ w. reconcile_loop E keep (map fst (pending_dir w)) w)))"
    by (intro same_st_then guard_io_same) (rule same_trans [OF _ reconcile_loop_same])
  then show ?thesis by (simp add: reconcile_pending_files_def same_def)
qed

lemmas clear_same = reconcile_same [where keep = "[]", folded clear_pending_files_def]

text \<open>The same facts as rules for postconditions that only speak of the snapshot and the effects.\<close>

lemma wp_same:
  assumes "same w (fst r)" "\<And>x w'. same w w' \<Longrightarrow> Q x w'" "\<And>e w'. same w w' \<Longrightarrow> X e w'"
  shows "wp Q X r"
  using assms by (cases r; cases "snd r") (auto simp: wp_def)

lemmas save_wp = wp_same [OF save_same]
lemmas write_request_wp = wp_same [OF write_request_same]
lemmas remove_request_wp = wp_same [OF remove_request_same]
lemmas reconcile_wp = wp_same [OF reconcile_same]
lemmas clear_wp = wp_same [OF clear_same]

section \<open>Rollback protection\<close>

lemma fresh_snapshot_simps [simp]:
  "s_version (fresh_snapshot vp) = 1" "s_owner (fresh_snapshot vp) = vp_owner vp"
  "s_policy_id (fresh_snapshot vp) = p_id (vp_policy vp)" "s_revision (fresh_snapshot vp) = p_revision (vp_policy vp)"
  "s_event_id (fresh_snapshot vp) = vp_event_id vp" "observed_at (fresh_snapshot vp) = None"
  "s_cursor (fresh_snapshot vp) = 0" "repair_cursors (fresh_snapshot vp) = []"
  "observations (fresh_snapshot vp) = []" "s_pending (fresh_snapshot vp) = []"
  by (simp_all add: fresh_snapshot_def)

text \<open>\<open>s'\<close> is as new as \<open>s\<close>: the same owner and policy, and a later revision or the same event.\<close>

definition succeeds :: "snapshot \<Rightarrow> snapshot \<Rightarrow> bool" where
  "succeeds s s' \<longleftrightarrow> s_owner s' = s_owner s \<and> s_policy_id s' = s_policy_id s
     \<and> (s_revision s < s_revision s' \<or> s_revision s' = s_revision s \<and> s_event_id s' = s_event_id s)"

lemma accept_wp:
  assumes "\<And>w' s'. snap w' = Some s' \<Longrightarrow> effects w' = effects w \<Longrightarrow>
      s' = fresh_snapshot vp \<and> (\<forall>s. snap w = Some s \<longrightarrow> s_event_id s \<noteq> vp_event_id vp)
        \<or> snap w = Some s' \<and> s_event_id s' = vp_event_id vp \<Longrightarrow>
      s_owner s' = vp_owner vp \<and> s_policy_id s' = p_id (vp_policy vp) \<and> s_event_id s' = vp_event_id vp
        \<and> s_revision s' \<le> p_revision (vp_policy vp) \<Longrightarrow>
      (\<forall>s. snap w = Some s \<longrightarrow> succeeds s s') \<Longrightarrow> Q () w'"
    and "\<And>e w'. effects w' = effects w \<Longrightarrow>
      snap w' = snap w \<or> snap w' = Some (fresh_snapshot vp) \<and> (\<forall>s. snap w = Some s \<longrightarrow> succeeds s (fresh_snapshot vp))
      \<Longrightarrow> X e w'"
  shows "wp Q X (accept E vp w)"
proof -
  let ?w = "w\<lparr>snap := Some (fresh_snapshot vp)\<rparr>"
  have renew: "wp Q X (st_then (save E ?w) (\<lambda>_ w. clear_pending_files E w))"
    if "\<forall>s. snap w = Some s \<longrightarrow> succeeds s (fresh_snapshot vp)" "\<forall>s. snap w = Some s \<longrightarrow> s_event_id s \<noteq> vp_event_id vp"
  proof -
    have "X e w'" if "snap w' = Some (fresh_snapshot vp)" "effects w' = effects w" for e w'
      using assms(2) that \<open>\<forall>s. snap w = Some s \<longrightarrow> succeeds s (fresh_snapshot vp)\<close> by blast
    moreover have "Q () w'" if "snap w' = Some (fresh_snapshot vp)" "effects w' = effects w" for w'
      using assms(1) that \<open>\<forall>s. snap w = Some s \<longrightarrow> succeeds s (fresh_snapshot vp)\<close>
        \<open>\<forall>s. snap w = Some s \<longrightarrow> s_event_id s \<noteq> vp_event_id vp\<close> by simp
    ultimately show ?thesis
      unfolding wp_then by (intro save_wp clear_wp) (auto simp: same_def)
  qed
  show ?thesis
  proof (cases "snap w")
    case None
    then show ?thesis using renew by (simp add: accept_def)
  next
    case (Some s)
    have "X S_Identity w" "X S_Rollback w" by (auto intro: assms(2))
    moreover have "Q () w" if "s_owner s = vp_owner vp" "s_policy_id s = p_id (vp_policy vp)"
      "s_event_id s = vp_event_id vp" "s_revision s \<le> p_revision (vp_policy vp)"
      using that Some by (intro assms(1) [of w s]) (auto simp: succeeds_def)
    ultimately show ?thesis
      using Some renew by (auto simp: accept_def Let_def succeeds_def)
  qed
qed

text \<open>C25: Rollback protection. Whether accepting a policy succeeds or fails, a snapshot that was there is
  replaced only by one of the same owner and policy with a strictly later revision, and success means
  the coordinator now holds exactly this policy event.\<close>

theorem accept_no_rollback:
  assumes "snap w = Some s"
  shows "\<exists>s'. snap (fst (accept E vp w)) = Some s' \<and> (s' = s \<or> succeeds s s' \<and> s_revision s < s_revision s')
    \<and> (snd (accept E vp w) = Inr () \<longrightarrow> s_event_id s' = vp_event_id vp \<and> s_owner s' = vp_owner vp
         \<and> s_policy_id s' = p_id (vp_policy vp))"
proof -
  let ?P = "\<lambda>w'. \<exists>s'. snap w' = Some s' \<and> (s' = s \<or> succeeds s s' \<and> s_revision s < s_revision s')"
  have "wp (\<lambda>_ w'. \<exists>s'. snap w' = Some s' \<and> (s' = s \<or> succeeds s s' \<and> s_revision s < s_revision s')
      \<and> s_event_id s' = vp_event_id vp \<and> s_owner s' = vp_owner vp \<and> s_policy_id s' = p_id (vp_policy vp))
    (\<lambda>_. ?P) (accept E vp w)"
  proof (cases "s_event_id s = vp_event_id vp \<or> s_revision s \<ge> p_revision (vp_policy vp)")
    case True
    then show ?thesis using assms by (auto simp: accept_def)
  next
    case False
    then show ?thesis
      using assms by (intro accept_wp) (auto simp: succeeds_def)
  qed
  then show ?thesis by (cases "accept E vp w"; cases "snd (accept E vp w)") auto
qed

section \<open>Persistence\<close>

text \<open>A system that answers every call and a lock nobody else holds.\<close>

definition calm :: "renv \<Rightarrow> bool" where
  "calm E \<longleftrightarrow> (\<forall>n. private_at E n \<and> lock_at E n \<and> io_at E n)"

lemma save_Inr:
  assumes "save E w = (w', Inr ())" "snap w = Some s"
  obtains bs where "snapshot_to_json E s = Some bs" "length bs \<le> MAX_STATE_BYTES"
    "root_dir w' = AList.update ''state.json'' (Regular bs) (root_dir w)" "pending_dir w' = pending_dir w"
  using assms by (auto simp: save_def write_private_def Let_def dir_of_def set_dir_def split: option.splits if_splits)

lemma map_of_AList_update: "map_of (AList.update k v al) a = (if a = k then Some v else map_of al a)"
  by (simp add: AList.update_conv)

text \<open>C26: What was saved is what the next coordinator opens: after a successful save of a loadable snapshot, opening
  the directory with a working disk and a free lock succeeds and restores exactly that snapshot, given
  that the JSON library reads back what it wrote.\<close>

theorem save_open_roundtrip:
  assumes "save E w = (w1, Inr ())" "snap w = Some s" "snapshot_ok s"
    and "\<And>bs. snapshot_to_json E s = Some bs \<Longrightarrow> snapshot_from_json E' bs = Some s"
    and "calm E'" "map_of (root_dir w) ''coordinator.lock'' \<noteq> Some Irregular" "root_dir w2 = root_dir w1"
  shows "snd (state_open E' w2) = Inr () \<and> snap (fst (state_open E' w2)) = Some s"
proof -
  obtain bs where bs: "snapshot_to_json E s = Some bs" "length bs \<le> MAX_STATE_BYTES"
    "root_dir w1 = AList.update ''state.json'' (Regular bs) (root_dir w)"
    using save_Inr [OF assms(1,2)] by metis
  have lock: "map_of (root_dir w2) ''coordinator.lock'' \<noteq> Some Irregular"
    "map_of (root_dir w2) ''state.json'' = Some (Regular bs)"
    using assms(6,7) bs(3) by (simp_all add: map_of_AList_update)
  have read: "read_file_bounded (Regular bs) True MAX_STATE_BYTES = Inr bs"
    using bs(2) by (simp add: read_file_bounded_def)
  have parse: "snapshot_from_json E' bs = Some s" using assms(4) bs(1) by blast
  have load: "load_snapshot E' w' = (step_tick (step_tick (step_tick (step_tick w'))), Inr (Some s))"
    if "map_of (root_dir w') ''state.json'' = Some (Regular bs)" for w'
    using that assms(3,5) read parse by (simp add: load_snapshot_def guard_io_def calm_def)
  show ?thesis
    using assms(5) lock
    by (simp add: state_open_def guard_io_def calm_def Let_def load map_of_AList_update)
qed

text \<open>What remains of a directory listing after reconciliation.\<close>

lemma reconcile_loop_Inr:
  "reconcile_loop E keep names w = (w', Inr ()) \<Longrightarrow>
   pending_dir w' = filter (\<lambda>(name, f). \<not> (name \<in> set names \<and> stale_name keep name)) (pending_dir w)"
proof (induction names arbitrary: w)
  case (Cons name names)
  then show ?case
    by (auto simp: guard_io_def AList.delete_eq intro!: filter_cong split: if_splits)
qed simp

text \<open>C27: Reconciling the pending directory removes every request and signed file whose id is not to be kept and
  nothing else: other names, and names that do not carry a canonical event id, are left alone.\<close>

theorem reconcile_exact:
  assumes "reconcile_pending_files E keep w = (w', Inr ())"
  shows "pending_dir w' = filter (\<lambda>(name, f). \<not> stale_name keep name) (outside_at E (tick w) (pending_dir w))"
proof -
  let ?d = "outside_at E (tick w) (pending_dir w)"
  have "pending_dir w' = filter (\<lambda>(name, f). \<not> (name \<in> set (map fst ?d) \<and> stale_name keep name)) ?d"
    using assms reconcile_loop_Inr [of E keep "map fst ?d" "step_tick (w\<lparr>pending_dir := ?d\<rparr>)" w']
    by (simp add: reconcile_pending_files_def Let_def guard_io_def split: if_splits)
  also have "\<dots> = filter (\<lambda>(name, f). \<not> stale_name keep name) ?d"
    by (rule filter_cong) force+
  finally show ?thesis .
qed

end
