(* ===== verification/Http_Transport.thy ===== *)
theory Http_Transport
  imports Replica_Policy Disk
begin

text \<open>
  The HTTP transport of \<open>crates/wildbloomd/src/replicas/transport.rs\<close>: which client a profile
  may use, the four operations of the \<open>Transport\<close> trait over the answers of the HTTP client, and
  the filter for public addresses. The client (\<open>reqwest\<close>), the URL library and the digest are the
  fields of \<open>http\<close>; a response body is the list of chunks still to come, \<open>None\<close> being a chunk that
  fails.
\<close>

section \<open>Data\<close>

record response =
  rs_status :: nat
  rs_length :: "nat option"
  rs_body :: "bytes option list"

record descriptor =
  d_url :: string
  d_sha256 :: string
  d_size :: nat
  d_media_type :: string
  d_uploaded :: nat

text \<open>
  \<open>http_put\<close> receives the pieces of a streamed body and also answers how many of them it pulled;
  \<open>split_reads\<close> is how the reads of a file cut it into buffers.
\<close>

record http =
  hl :: rlibs
  url_join :: "url \<Rightarrow> string \<Rightarrow> url option"
  header_ok :: "string \<Rightarrow> bool"
  http_get :: "url \<Rightarrow> response option"
  http_put :: "url \<Rightarrow> string \<Rightarrow> string \<Rightarrow> nat \<Rightarrow> bytes list \<Rightarrow> response option \<times> nat"
  http_put_json :: "url \<Rightarrow> string \<Rightarrow> string \<Rightarrow> response option"
  descriptor_from_json :: "bytes \<Rightarrow> descriptor option"
  digest_hex :: "bytes \<Rightarrow> string"
  split_reads :: "bytes \<Rightarrow> bytes list"
  flush_ok :: "string \<Rightarrow> bool"

datatype download_error = Remote network_failure | LocalStorage

section \<open>Choosing a client\<close>

text \<open>An IP literal as the standard library parses it: four octets, or eight 16-bit segments.\<close>

datatype ip_addr = V4 u8 u8 u8 u8 | V6 "16 word list"

fun is_loopback :: "ip_addr \<Rightarrow> bool" where
  "is_loopback (V4 a b c d) = (a = 127)"
| "is_loopback (V6 s) = (s = [0, 0, 0, 0, 0, 0, 0, 1])"

definition trim_brackets :: "string \<Rightarrow> string" where
  "trim_brackets h = rev (dropWhile (\<lambda>c. c = CHR '']'') (rev (dropWhile (\<lambda>c. c = CHR ''['') h)))"

definition proxy_bare :: "(string \<Rightarrow> ip_addr option) \<Rightarrow> url \<Rightarrow> bool" where
  "proxy_bare parse_ip p \<longleftrightarrow>
     u_scheme p = ''socks5h''
     \<and> (case u_host p of None \<Rightarrow> False | Some h \<Rightarrow>
          (case parse_ip (trim_brackets h) of None \<Rightarrow> False | Some ip \<Rightarrow> is_loopback ip))
     \<and> u_port p \<noteq> None \<and> u_port p \<noteq> Some 0 \<and> (u_path p = ''/'' \<or> u_path p = []) \<and> u_username p = []
     \<and> u_password p = None \<and> u_query p = None \<and> u_fragment p = None"

text \<open>What the client is built with; \<open>built\<close> says whether the library could build it.\<close>

record client =
  c_https_only :: bool
  c_public_dns :: bool
  c_proxy :: "url option"

definition transport_new ::
  "(string \<Rightarrow> ip_addr option) \<Rightarrow> (url \<Rightarrow> bool) \<Rightarrow> bool \<Rightarrow> profile \<Rightarrow> url option \<Rightarrow> bool \<Rightarrow> string + client" where
  "transport_new parse_ip proxy_ok built p proxy permit_loopback =
     try_then
       (case p of
          DirectHttps \<Rightarrow>
            if proxy = None then Inr \<lparr>c_https_only = True, c_public_dns = True, c_proxy = None\<rparr>
            else Inl ''selected transport conflicts with the supplied proxy or development consent''
        | TorOnly \<Rightarrow>
            (case proxy of
               None \<Rightarrow> Inl ''Tor-only maintenance needs an explicit loopback socks5h proxy''
             | Some u \<Rightarrow>
                 if \<not> proxy_bare parse_ip u then Inl ''Tor-only maintenance needs a bare loopback socks5h proxy''
                 else if \<not> proxy_ok u then Inl ''invalid Tor proxy''
                 else Inr \<lparr>c_https_only = False, c_public_dns = False, c_proxy = Some u\<rparr>)
        | LoopbackDevelopment \<Rightarrow>
            if permit_loopback \<and> proxy = None
            then Inr \<lparr>c_https_only = False, c_public_dns = False, c_proxy = None\<rparr>
            else Inl ''selected transport conflicts with the supplied proxy or development consent'')
       (\<lambda>c. if built then Inr c else Inl ''could not configure replica client'')"

definition http_origin :: "http \<Rightarrow> profile \<Rightarrow> target \<Rightarrow> network_failure + url" where
  "http_origin H p t =
     try_then (ok_or Refused (url_parse (hl H) (t_origin t))) (\<lambda>origin.
       if \<not> profile_accepts (sha3_256 (hl H)) p origin then Inl Refused else Inr origin)"

section \<open>Operations\<close>

fun recv_chunks :: "nat \<Rightarrow> bytes option list \<Rightarrow> nat \<Rightarrow> bytes \<Rightarrow> network_failure + (nat \<times> bytes)" where
  "recv_chunks limit [] received hashed = Inr (received, hashed)"
| "recv_chunks limit (None # rest) received hashed = Inl InvalidBytes"
| "recv_chunks limit (Some chunk # rest) received hashed =
     (case checked_add received (length chunk) of
        None \<Rightarrow> Inl InvalidBytes
      | Some r \<Rightarrow> if r > limit then Inl InvalidBytes else recv_chunks limit rest r (hashed @ chunk))"

definition http_verify :: "http \<Rightarrow> profile \<Rightarrow> target \<Rightarrow> blob \<Rightarrow> network_failure + unit" where
  "http_verify H p t b =
     try_then (http_origin H p t) (\<lambda>origin.
     try_then (ok_or Refused (url_join H origin (b_sha256 b))) (\<lambda>u.
     try_then (ok_or Unreachable (http_get H u)) (\<lambda>resp.
       if rs_status resp \<noteq> 200 then Inl Unavailable
       else if rs_length resp \<noteq> Some (b_size b) then Inl InvalidBytes
       else try_then (recv_chunks (b_size b) (rs_body resp) 0 []) (\<lambda>(received, hashed).
         if received \<noteq> b_size b \<or> digest_hex H hashed \<noteq> b_sha256 b then Inl InvalidBytes else Inr ()))))"

fun save_chunks ::
  "nat \<Rightarrow> string \<Rightarrow> bytes option list \<Rightarrow> nat \<Rightarrow> bytes \<Rightarrow> disk \<Rightarrow> disk \<times> (download_error + (nat \<times> bytes))" where
  "save_chunks limit path [] received hashed d = (d, Inr (received, hashed))"
| "save_chunks limit path (None # rest) received hashed d = (d, Inl (Remote InvalidBytes))"
| "save_chunks limit path (Some chunk # rest) received hashed d =
     (case checked_add received (length chunk) of
        None \<Rightarrow> (d, Inl (Remote InvalidBytes))
      | Some r \<Rightarrow>
          if r > limit then (d, Inl (Remote InvalidBytes))
          else st_then (st_map_err (\<lambda>_. LocalStorage) (write_all path chunk d)) (\<lambda>_ d.
            save_chunks limit path rest r (hashed @ chunk) d))"

definition open_truncate :: "string \<Rightarrow> disk \<Rightarrow> disk \<times> (download_error + unit)" where
  "open_truncate path d =
     (if files d path = None \<or> refused d path then (d, Inl LocalStorage)
      else (d\<lparr>files := (files d)(path \<mapsto> [])\<rparr>, Inr ()))"

definition http_download :: "http \<Rightarrow> profile \<Rightarrow> target \<Rightarrow> blob \<Rightarrow> string \<Rightarrow> disk \<Rightarrow> disk \<times> (download_error + unit)" where
  "http_download H p t b path d =
     st_then (d, map_err Remote (http_origin H p t)) (\<lambda>origin d.
     st_then (d, map_err Remote (ok_or Refused (url_join H origin (b_sha256 b)))) (\<lambda>u d.
     st_then (d, map_err Remote (ok_or Unreachable (http_get H u))) (\<lambda>resp d.
       if rs_status resp \<noteq> 200 \<or> rs_length resp \<noteq> Some (b_size b) then (d, Inl (Remote InvalidBytes))
       else st_then (open_truncate path d) (\<lambda>_ d.
         st_then (save_chunks (b_size b) path (rs_body resp) 0 [] d) (\<lambda>(received, hashed) d.
           if \<not> flush_ok H path then (d, Inl LocalStorage)
           else if received \<noteq> b_size b \<or> digest_hex H hashed \<noteq> b_sha256 b then (d, Inl (Remote InvalidBytes))
           else (d, Inr ()))))))"

definition http_upload :: "http \<Rightarrow> profile \<Rightarrow> target \<Rightarrow> blob \<Rightarrow> string \<Rightarrow> string \<Rightarrow> disk \<Rightarrow> network_failure + unit" where
  "http_upload H p t b path authorization d =
     try_then (http_origin H p t) (\<lambda>origin.
     try_then (ok_or Refused (url_join H origin ''upload'')) (\<lambda>endpoint.
     try_then (ok_or Refused (files d path)) (\<lambda>f.
       if length f \<noteq> b_size b then Inl InvalidBytes
       else if \<not> header_ok H authorization then Inl Refused
       else let pieces = split_reads H f;
                (answer, pulled) = http_put H endpoint authorization (b_sha256 b) (b_size b) pieces
            in try_then (ok_or Unreachable answer) (\<lambda>resp.
                 if rs_status resp \<noteq> 200 \<and> rs_status resp \<noteq> 201 then Inl Refused
                 else if digest_hex H (concat (take pulled pieces)) \<noteq> b_sha256 b then Inl InvalidBytes
                 else Inr ()))))"

fun small_body :: "bytes option list \<Rightarrow> bytes \<Rightarrow> network_failure + bytes" where
  "small_body [] body = Inr body"
| "small_body (None # rest) body = Inl InvalidResponse"
| "small_body (Some chunk # rest) body =
     (if sat_add (length body) (length chunk) > 16 * 1024 then Inl InvalidResponse
      else small_body rest (body @ chunk))"

definition descriptor_ok :: "http \<Rightarrow> blob \<Rightarrow> descriptor \<Rightarrow> network_failure + unit" where
  "descriptor_ok H b dsc =
     try_then (ok_or InvalidResponse (url_parse (hl H) (d_url dsc))) (\<lambda>u.
       if d_sha256 dsc \<noteq> b_sha256 b \<or> d_size dsc \<noteq> b_size b \<or> length (d_url dsc) > 2048
          \<or> length (d_media_type dsc) > 255 \<or> d_uploaded dsc = 0
          \<or> (u_scheme u \<noteq> ''http'' \<and> u_scheme u \<noteq> ''https'') \<or> u_host u = None \<or> u_username u \<noteq> []
          \<or> u_password u \<noteq> None
       then Inl InvalidResponse else Inr ())"

definition http_mirror :: "http \<Rightarrow> profile \<Rightarrow> target \<Rightarrow> target \<Rightarrow> blob \<Rightarrow> string \<Rightarrow> network_failure + unit" where
  "http_mirror H p t source b authorization =
     try_then (http_origin H p t) (\<lambda>origin.
     try_then (ok_or Refused (url_join H origin ''mirror'')) (\<lambda>endpoint.
     try_then (http_origin H p source) (\<lambda>src_origin.
     try_then (ok_or Refused (url_join H src_origin (b_sha256 b))) (\<lambda>src.
       if \<not> header_ok H authorization then Inl Refused
       else try_then (ok_or Unreachable (http_put_json H endpoint authorization (u_str src))) (\<lambda>resp.
         if rs_status resp \<noteq> 200 \<and> rs_status resp \<noteq> 201 then Inl Refused
         else try_then (small_body (rs_body resp) []) (\<lambda>body.
              try_then (ok_or InvalidResponse (descriptor_from_json H body)) (\<lambda>dsc. descriptor_ok H b dsc)))))))"

section \<open>Public addresses\<close>

definition public_v4 :: "u8 \<Rightarrow> u8 \<Rightarrow> u8 \<Rightarrow> bool" where
  "public_v4 a b c \<longleftrightarrow>
     \<not> (a = 0 \<or> a = 10 \<or> a = 127 \<or> a \<ge> 224 \<or> (a = 100 \<and> 64 \<le> b \<and> b \<le> 127) \<or> (a = 169 \<and> b = 254)
        \<or> (a = 172 \<and> 16 \<le> b \<and> b \<le> 31) \<or> (a = 192 \<and> b = 0 \<and> (c = 0 \<or> c = 2))
        \<or> (a = 192 \<and> b = 88 \<and> c = 99) \<or> (a = 192 \<and> b = 168)
        \<or> (a = 198 \<and> (b = 18 \<or> b = 19 \<or> b = 51 \<and> c = 100)) \<or> (a = 203 \<and> b = 0 \<and> c = 113))"

definition to_ipv4_mapped :: "16 word list \<Rightarrow> (u8 \<times> u8 \<times> u8 \<times> u8) option" where
  "to_ipv4_mapped s =
     (if length s = 8 \<and> take 6 s = [0, 0, 0, 0, 0, 0xFFFF]
      then Some (ucast (drop_bit 8 (s ! 6)), ucast (s ! 6), ucast (drop_bit 8 (s ! 7)), ucast (s ! 7))
      else None)"

definition public_ipv6 :: "16 word list \<Rightarrow> bool" where
  "public_ipv6 s =
     (case to_ipv4_mapped s of
        Some (a, b, c, d) \<Rightarrow> public_v4 a b c
      | None \<Rightarrow>
          and (s ! 0) 0xE000 = 0x2000
          \<and> \<not> (s ! 0 = 0x2001 \<and> (s ! 1 < 0x0200 \<or> s ! 1 = 0x0DB8)) \<and> s ! 0 \<noteq> 0x2002
          \<and> \<not> (s ! 0 = 0x3FFF \<and> s ! 1 < 0x1000))"

fun public_ip :: "ip_addr \<Rightarrow> bool" where
  "public_ip (V4 a b c d) = public_v4 a b c"
| "public_ip (V6 s) = public_ipv6 s"

definition resolve_public :: "ip_addr list option \<Rightarrow> ip_addr list option" where
  "resolve_public found =
     (case found of
        None \<Rightarrow> None
      | Some ips \<Rightarrow> let addresses = filter public_ip ips in if addresses = [] then None else Some addresses)"

section \<open>The disabled transport\<close>

definition disabled_verify :: "target \<Rightarrow> blob \<Rightarrow> network_failure + unit" where
  "disabled_verify t b = Inl Refused"

definition disabled_mirror :: "target \<Rightarrow> target \<Rightarrow> blob \<Rightarrow> string \<Rightarrow> network_failure + unit" where
  "disabled_mirror t source b authorization = Inl Refused"

definition disabled_download :: "target \<Rightarrow> blob \<Rightarrow> string \<Rightarrow> disk \<Rightarrow> disk \<times> (download_error + unit)" where
  "disabled_download t b path d = (d, Inl (Remote Refused))"

definition disabled_upload :: "target \<Rightarrow> blob \<Rightarrow> string \<Rightarrow> string \<Rightarrow> network_failure + unit" where
  "disabled_upload t b path authorization = Inl Refused"

section \<open>Exactness\<close>

lemma recv_chunks_Inr:
  "recv_chunks limit body r0 h0 = Inr (r, h) \<Longrightarrow> r0 \<le> limit \<Longrightarrow>
   \<exists>cs. body = map Some cs \<and> h = h0 @ concat cs \<and> r = r0 + length (concat cs) \<and> r \<le> limit"
proof (induction limit body r0 h0 rule: recv_chunks.induct)
  case (3 limit chunk rest received hashed)
  then obtain cs where "rest = map Some cs" "h = (hashed @ chunk) @ concat cs"
    "r = received + length chunk + length (concat cs)" "r \<le> limit"
    by (auto simp: checked_add_def split: if_splits)
  then show ?case by (intro exI [of _ "chunk # cs"]) auto
qed auto

lemma save_chunks_Inr:
  "save_chunks limit path body r0 h0 d = (d', Inr (r, h)) \<Longrightarrow> files d path = Some old \<Longrightarrow>
   \<exists>cs. h = h0 @ concat cs \<and> r = r0 + length (concat cs) \<and> files d' = (files d)(path \<mapsto> old @ concat cs)"
proof (induction body arbitrary: r0 h0 d old)
  case Nil
  then show ?case by (intro exI [of _ "[]"]) (simp add: fun_upd_idem)
next
  case (Cons c rest)
  then obtain chunk where c: "c = Some chunk" by (cases c) auto
  let ?d = "d\<lparr>files := (files d)(path \<mapsto> old @ chunk), room := room d - length chunk\<rparr>"
  have run: "save_chunks limit path rest (r0 + length chunk) (h0 @ chunk) ?d = (d', Inr (r, h))"
    using Cons.prems c by (auto simp: checked_add_def write_all_def Let_def split: if_splits)
  have "\<exists>cs. h = (h0 @ chunk) @ concat cs \<and> r = r0 + length chunk + length (concat cs)
      \<and> files d' = (files ?d)(path \<mapsto> (old @ chunk) @ concat cs)"
    by (rule Cons.IH [OF run]) simp
  then obtain cs where cs: "h = (h0 @ chunk) @ concat cs" "r = r0 + length chunk + length (concat cs)"
    "files d' = (files ?d)(path \<mapsto> (old @ chunk) @ concat cs)" by blast
  show ?case by (intro exI [of _ "chunk # cs"]) (simp add: cs)
qed

lemma save_chunks_other:
  "q \<noteq> path \<Longrightarrow> files (fst (save_chunks limit path body r0 h0 d)) q = files d q"
proof (induction limit path body r0 h0 d rule: save_chunks.induct)
  case (3 limit path chunk rest received hashed d)
  obtain d1 x where w: "write_all path chunk d = (d1, x)" by (cases "write_all path chunk d")
  then have "files d1 q = files d q" using 3(2) by (auto simp: write_all_def Let_def split: if_splits)
  then show ?case
    using 3 w by (cases x) (auto split: option.splits if_splits)
qed auto

text \<open>
  Downloading writes the given file only, and on success that file holds exactly the named blob.
\<close>

lemma download_wp:
  "wp (\<lambda>_ d'. (\<forall>q. q \<noteq> path \<longrightarrow> files d' q = files d q)
         \<and> (\<exists>bs. files d' path = Some bs \<and> length bs = b_size b \<and> digest_hex H bs = b_sha256 b))
      (\<lambda>_ d'. \<forall>q. q \<noteq> path \<longrightarrow> files d' q = files d q) (http_download H p t b path d)"
proof -
  let ?X = "\<lambda>(_ :: download_error) d'. \<forall>q. q \<noteq> path \<longrightarrow> files d' q = files d q"
  let ?d = "d\<lparr>files := (files d)(path \<mapsto> [])\<rparr>"
  have "wp (\<lambda>(received, hashed) d'. (\<forall>q. q \<noteq> path \<longrightarrow> files d' q = files d q)
       \<and> files d' path = Some hashed \<and> received = length hashed) ?X (save_chunks (b_size b) path body 0 [] ?d)" for body
  proof (cases "save_chunks (b_size b) path body 0 [] ?d")
    case (Pair d' res)
    then have o: "\<forall>q. q \<noteq> path \<longrightarrow> files d' q = files d q"
      using save_chunks_other [of _ path "b_size b" body 0 "[]" ?d] by simp
    show ?thesis
    proof (cases res)
      case (Inr rh)
      obtain r h where "rh = (r, h)" by (cases rh)
      then show ?thesis
        using o Pair Inr save_chunks_Inr [of "b_size b" path body 0 "[]" ?d d' r h "[]"] by auto
    qed (use o Pair in simp)
  qed
  then have body: "wp (\<lambda>(received, hashed) d'. wp (\<lambda>_ d'. (\<forall>q. q \<noteq> path \<longrightarrow> files d' q = files d q)
         \<and> (\<exists>bs. files d' path = Some bs \<and> length bs = b_size b \<and> digest_hex H bs = b_sha256 b)) ?X
       (if \<not> flush_ok H path then (d', Inl LocalStorage)
        else if received \<noteq> b_size b \<or> digest_hex H hashed \<noteq> b_sha256 b then (d', Inl (Remote InvalidBytes))
        else (d', Inr ()))) ?X (save_chunks (b_size b) path body 0 [] ?d)" for body
    by (rule wp_mono) auto
  show ?thesis
    using body [unfolded split_def]
    by (auto simp: http_download_def open_truncate_def split_def split: sum.splits option.splits)
qed

lemma verify_result:
  assumes "http_verify H p t b = Inr ()"
  shows "\<exists>origin u resp cs. http_origin H p t = Inr origin \<and> url_join H origin (b_sha256 b) = Some u
    \<and> http_get H u = Some resp \<and> rs_status resp = 200 \<and> rs_body resp = map Some cs
    \<and> length (concat cs) = b_size b \<and> digest_hex H (concat cs) = b_sha256 b"
proof -
  from assms obtain origin u resp r h where v: "http_origin H p t = Inr origin" "url_join H origin (b_sha256 b) = Some u"
    "http_get H u = Some resp" "rs_status resp = 200" "recv_chunks (b_size b) (rs_body resp) 0 [] = Inr (r, h)"
    "r = b_size b" "digest_hex H h = b_sha256 b"
    by (auto simp: http_verify_def try_then_Inr split: if_splits)
  show ?thesis using v recv_chunks_Inr [OF v(5)] by force
qed


section \<open>What a repair relies on\<close>

text \<open>
  The contract of a transport that repair code uses: a successful download leaves exactly the named
  blob in the given file, and no download touches another file.
\<close>

locale part_transport =
  fixes digest :: "bytes \<Rightarrow> string"
    and download :: "nat \<Rightarrow> target \<Rightarrow> blob \<Rightarrow> string \<Rightarrow> disk \<Rightarrow> disk \<times> (download_error + unit)"
  assumes download_exact: "download n t b path d = (d', Inr ()) \<Longrightarrow>
      \<exists>bs. files d' path = Some bs \<and> length bs = b_size b \<and> digest bs = b_sha256 b"
    and download_frame: "q \<noteq> path \<Longrightarrow> files (fst (download n t b path d)) q = files d q"

interpretation http_parts: part_transport digest "\<lambda>n. http_download ((net n)\<lparr>digest_hex := digest\<rparr>) p"
  for digest :: "bytes \<Rightarrow> string" and net :: "nat \<Rightarrow> http" and p :: profile
proof
  fix n t b path d d' assume "http_download ((net n)\<lparr>digest_hex := digest\<rparr>) p t b path d = (d', Inr ())"
  then show "\<exists>bs. files d' path = Some bs \<and> length bs = b_size b \<and> digest bs = b_sha256 b"
    using download_wp [where H = "(net n)\<lparr>digest_hex := digest\<rparr>" and p = p and t = t and b = b and path = path and d = d]
    by auto
next
  fix q path n t b d assume "q \<noteq> (path :: string)"
  then show "files (fst (http_download ((net n)\<lparr>digest_hex := digest\<rparr>) p t b path d)) q = files d q"
    using download_wp [where H = "(net n)\<lparr>digest_hex := digest\<rparr>" and p = p and t = t and b = b and path = path and d = d]
    by (cases "http_download ((net n)\<lparr>digest_hex := digest\<rparr>) p t b path d";
        cases "snd (http_download ((net n)\<lparr>digest_hex := digest\<rparr>) p t b path d)") auto
qed

interpretation disabled_parts: part_transport digest "\<lambda>n. disabled_download"
  for digest :: "bytes \<Rightarrow> string"
  by unfold_locales (auto simp: disabled_download_def)

section \<open>Public addresses are those outside the reserved blocks\<close>

definition ipv4_nat :: "u8 \<Rightarrow> u8 \<Rightarrow> u8 \<Rightarrow> u8 \<Rightarrow> nat" where
  "ipv4_nat a b c d = ((unat a * 256 + unat b) * 256 + unat c) * 256 + unat d"

definition in_cidr :: "nat \<Rightarrow> nat \<times> nat \<Rightarrow> bool" where
  "in_cidr addr blk \<longleftrightarrow> addr div 2 ^ (32 - snd blk) = fst blk div 2 ^ (32 - snd blk)"

text \<open>The special-use blocks, as network and prefix length.\<close>

definition reserved_blocks :: "(nat \<times> nat) list" where
  "reserved_blocks =
     [(ipv4_nat 0 0 0 0, 8), (ipv4_nat 10 0 0 0, 8), (ipv4_nat 127 0 0 0, 8), (ipv4_nat 224 0 0 0, 3),
      (ipv4_nat 100 64 0 0, 10), (ipv4_nat 169 254 0 0, 16), (ipv4_nat 172 16 0 0, 12), (ipv4_nat 192 0 0 0, 24),
      (ipv4_nat 192 0 2 0, 24), (ipv4_nat 192 88 99 0, 24), (ipv4_nat 192 168 0 0, 16), (ipv4_nat 198 18 0 0, 15),
      (ipv4_nat 198 51 100 0, 24), (ipv4_nat 203 0 113 0, 24)]"

lemma digit_div:
  fixes x y m :: nat
  assumes "y < m"
  shows "(x * m + y) div m = x"
proof -
  have "m \<noteq> 0" using assms by linarith
  then have "(x * m + y) div m = x + y div m" by (rule div_mult_self3)
  then show ?thesis by (simp only: div_less [OF assms] add_0_right)
qed

lemma digit_eq:
  fixes x y X Y m :: nat
  assumes "y < m" "Y < m"
  shows "x * m + y = X * m + Y \<longleftrightarrow> x = X \<and> y = Y"
proof
  assume e: "x * m + y = X * m + Y"
  have "x = (x * m + y) div m" using digit_div [OF assms(1)] by (rule sym)
  also have "\<dots> = X" unfolding e by (rule digit_div [OF assms(2)])
  finally have "x = X" .
  then show "x = X \<and> y = Y" using e by (simp only: add_left_cancel simp_thms)
next
  assume "x = X \<and> y = Y"
  then show "x * m + y = X * m + Y" by (simp only:)
qed

lemma digit_div_part:
  fixes x y m k :: nat
  assumes "0 < k"
  shows "(x * (m * k) + y) div k = x * m + y div k"
proof -
  have "(x * (m * k) + y) div k = (y + (x * m) * k) div k" by (simp add: mult.assoc add.commute)
  then show ?thesis using assms by (simp add: add.commute)
qed

text \<open>The leading bits of an address, by the prefix lengths the blocks use.\<close>

lemma octets_div:
  fixes a b c d :: nat
  assumes "b < 256" "c < 256" "d < 256"
  defines "n \<equiv> ((a * 256 + b) * 256 + c) * 256 + d"
  shows "n div 2 ^ 8 = (a * 256 + b) * 256 + c" "n div 2 ^ 16 = a * 256 + b" "n div 2 ^ 24 = a"
    "n div 2 ^ 29 = a div 32" "n div 2 ^ 22 = a * 4 + b div 64" "n div 2 ^ 20 = a * 16 + b div 16"
    "n div 2 ^ 17 = a * 128 + b div 2"
proof -
  have split: "n div (i * j) = n div i div j" for i j by (rule div_mult2_eq)
  show d8: "n div 2 ^ 8 = (a * 256 + b) * 256 + c"
    unfolding n_def using digit_div [OF assms(3), of "(a * 256 + b) * 256 + c"] by simp
  show d16: "n div 2 ^ 16 = a * 256 + b"
    using split [of "2 ^ 8" "2 ^ 8"] digit_div [OF assms(2), of "a * 256 + b"] unfolding d8 by simp
  show d24: "n div 2 ^ 24 = a"
    using split [of "2 ^ 16" "2 ^ 8"] digit_div [OF assms(1), of a] unfolding d16 by simp
  show "n div 2 ^ 29 = a div 32" using split [of "2 ^ 24" 32] unfolding d24 by simp
  show "n div 2 ^ 22 = a * 4 + b div 64"
    using split [of "2 ^ 16" 64] digit_div_part [of 64 a 4 b] unfolding d16 by simp
  show "n div 2 ^ 20 = a * 16 + b div 16"
    using split [of "2 ^ 16" 16] digit_div_part [of 16 a 16 b] unfolding d16 by simp
  show "n div 2 ^ 17 = a * 128 + b div 2"
    using split [of "2 ^ 16" 2] digit_div_part [of 2 a 128 b] unfolding d16 by simp
qed

lemma octet_eq: "(x :: u8) = numeral n \<longleftrightarrow> unat x = unat (numeral n :: u8)" "(x :: u8) = 0 \<longleftrightarrow> unat x = 0"
  by (rule word_unat_eq_iff) (simp only: unat_eq_zero)

lemma octet_le: "(x :: u8) \<le> y \<longleftrightarrow> unat x \<le> unat y"
  by (simp add: word_le_nat_alt)

lemma range_div_64: "(b::nat) div 64 = 1 \<longleftrightarrow> 64 \<le> b \<and> b \<le> 127"
  by linarith

lemma range_div_32: "(b::nat) < 256 \<Longrightarrow> b div 32 = 7 \<longleftrightarrow> 224 \<le> b"
  by linarith

lemma range_div_16: "(b::nat) div 16 = 1 \<longleftrightarrow> 16 \<le> b \<and> b \<le> 31"
  by linarith

lemma range_div_2: "(b::nat) div 2 = 9 \<longleftrightarrow> b = 18 \<or> b = 19"
  by linarith

lemma block_digits:
  fixes a b c :: nat
  assumes "b < 256" "c < 256"
  shows "B < 256 \<Longrightarrow> C < 256 \<Longrightarrow> (a * 256 + b) * 256 + c = (A * 256 + B) * 256 + C \<longleftrightarrow> a = A \<and> b = B \<and> c = C"
    "B < 256 \<Longrightarrow> a * 256 + b = A * 256 + B \<longleftrightarrow> a = A \<and> b = B"
    "a * 4 + b div 64 = A * 4 + 1 \<longleftrightarrow> a = A \<and> 64 \<le> b \<and> b \<le> 127"
    "a * 16 + b div 16 = A * 16 + 1 \<longleftrightarrow> a = A \<and> 16 \<le> b \<and> b \<le> 31"
    "a * 128 + b div 2 = A * 128 + 9 \<longleftrightarrow> a = A \<and> (b = 18 \<or> b = 19)"
proof -
  have d: "b div 64 < 4" "b div 16 < 16" "b div 2 < 128" using assms(1) by linarith+
  show "a * 4 + b div 64 = A * 4 + 1 \<longleftrightarrow> a = A \<and> 64 \<le> b \<and> b \<le> 127"
    using digit_eq [OF d(1), of 1 a A] range_div_64 [of b] by simp
  show "a * 16 + b div 16 = A * 16 + 1 \<longleftrightarrow> a = A \<and> 16 \<le> b \<and> b \<le> 31"
    using digit_eq [OF d(2), of 1 a A] range_div_16 [of b] by simp
  show "a * 128 + b div 2 = A * 128 + 9 \<longleftrightarrow> a = A \<and> (b = 18 \<or> b = 19)"
    using digit_eq [OF d(3), of 9 a A] range_div_2 [of b] by simp
  show "B < 256 \<Longrightarrow> a * 256 + b = A * 256 + B \<longleftrightarrow> a = A \<and> b = B" by (rule digit_eq [OF assms(1)])
  then show "B < 256 \<Longrightarrow> C < 256 \<Longrightarrow> (a * 256 + b) * 256 + c = (A * 256 + B) * 256 + C \<longleftrightarrow> a = A \<and> b = B \<and> c = C"
    using digit_eq [OF assms(2), of C "a * 256 + b" "A * 256 + B"] by simp
qed

lemma unat_octet_less: "unat (x :: u8) < 256"
  using unsigned_less [of x, where ?'a = nat] by simp

lemma ipv4_div:
  "ipv4_nat a b c d div 2 ^ 8 = (unat a * 256 + unat b) * 256 + unat c"
  "ipv4_nat a b c d div 2 ^ 16 = unat a * 256 + unat b" "ipv4_nat a b c d div 2 ^ 24 = unat a"
  "ipv4_nat a b c d div 2 ^ 29 = unat a div 32" "ipv4_nat a b c d div 2 ^ 22 = unat a * 4 + unat b div 64"
  "ipv4_nat a b c d div 2 ^ 20 = unat a * 16 + unat b div 16" "ipv4_nat a b c d div 2 ^ 17 = unat a * 128 + unat b div 2"
  unfolding ipv4_nat_def by (rule octets_div; rule unat_octet_less)+

lemma in_cidr_shift: "in_cidr x (net, len) \<longleftrightarrow> x div 2 ^ (32 - len) = net div 2 ^ (32 - len)"
  by (simp only: in_cidr_def fst_conv snd_conv)

lemma prefix_lengths:
  "(32::nat) - 8 = 24" "(32::nat) - 3 = 29" "(32::nat) - 16 = 16" "(32::nat) - 24 = 8" "(32::nat) - 10 = 22"
  "(32::nat) - 12 = 20" "(32::nat) - 15 = 17"
  by simp_all

lemma unat_octets:
  "unat (0 :: u8) = 0" "unat (224 :: u8) = 224" "unat (64 :: u8) = 64" "unat (16 :: u8) = 16" "unat (18 :: u8) = 18"
  by simp_all

lemma in_cidr_octets:
  "in_cidr (ipv4_nat a b c d) (ipv4_nat A 0 0 0, 8) \<longleftrightarrow> unat a = unat A"
  "in_cidr (ipv4_nat a b c d) (ipv4_nat 224 0 0 0, 3) \<longleftrightarrow> 224 \<le> unat a"
  "in_cidr (ipv4_nat a b c d) (ipv4_nat A B 0 0, 16) \<longleftrightarrow> unat a = unat A \<and> unat b = unat B"
  "in_cidr (ipv4_nat a b c d) (ipv4_nat A B C 0, 24) \<longleftrightarrow> unat a = unat A \<and> unat b = unat B \<and> unat c = unat C"
  "in_cidr (ipv4_nat a b c d) (ipv4_nat A 64 0 0, 10) \<longleftrightarrow> unat a = unat A \<and> 64 \<le> unat b \<and> unat b \<le> 127"
  "in_cidr (ipv4_nat a b c d) (ipv4_nat A 16 0 0, 12) \<longleftrightarrow> unat a = unat A \<and> 16 \<le> unat b \<and> unat b \<le> 31"
  "in_cidr (ipv4_nat a b c d) (ipv4_nat A 18 0 0, 15) \<longleftrightarrow> unat a = unat A \<and> (unat b = 18 \<or> unat b = 19)"
proof -
  note defs = in_cidr_shift prefix_lengths ipv4_div unat_octets
  note g = block_digits [OF unat_octet_less [of b] unat_octet_less [of c], where a = "unat a" and A = "unat A"]
  have lead: "(224 :: nat) div 32 = 7" "(64 :: nat) div 64 = 1" "(16 :: nat) div 16 = 1" "(18 :: nat) div 2 = 9" by simp_all
  show "in_cidr (ipv4_nat a b c d) (ipv4_nat A 0 0 0, 8) \<longleftrightarrow> unat a = unat A"
    unfolding defs ..
  show "in_cidr (ipv4_nat a b c d) (ipv4_nat 224 0 0 0, 3) \<longleftrightarrow> 224 \<le> unat a"
    unfolding defs lead by (rule range_div_32 [OF unat_octet_less])
  show "in_cidr (ipv4_nat a b c d) (ipv4_nat A B 0 0, 16) \<longleftrightarrow> unat a = unat A \<and> unat b = unat B"
    unfolding defs by (rule g(2) [OF unat_octet_less])
  show "in_cidr (ipv4_nat a b c d) (ipv4_nat A B C 0, 24) \<longleftrightarrow> unat a = unat A \<and> unat b = unat B \<and> unat c = unat C"
    unfolding defs by (rule g(1) [OF unat_octet_less unat_octet_less])
  show "in_cidr (ipv4_nat a b c d) (ipv4_nat A 64 0 0, 10) \<longleftrightarrow> unat a = unat A \<and> 64 \<le> unat b \<and> unat b \<le> 127"
    unfolding defs lead by (rule g(3))
  show "in_cidr (ipv4_nat a b c d) (ipv4_nat A 16 0 0, 12) \<longleftrightarrow> unat a = unat A \<and> 16 \<le> unat b \<and> unat b \<le> 31"
    unfolding defs lead by (rule g(4))
  show "in_cidr (ipv4_nat a b c d) (ipv4_nat A 18 0 0, 15) \<longleftrightarrow> unat a = unat A \<and> (unat b = 18 \<or> unat b = 19)"
    unfolding defs lead by (rule g(5))
qed

text \<open>C28: The address filter admits exactly the IPv4 addresses outside the special-use blocks, so a public name
  cannot lead the client to a private, loopback, link-local, shared, documentation, multicast or
  reserved address; an IPv4-mapped IPv6 address is judged as the IPv4 address it stands for.\<close>

theorem public_ip_blocks:
  "(public_ip (V4 a b c d) \<longleftrightarrow> \<not> list_ex (in_cidr (ipv4_nat a b c d)) reserved_blocks)
   \<and> public_ip (V6 [0, 0, 0, 0, 0, 0xFFFF, s, s']) = public_ip (V4 (ucast (drop_bit 8 s)) (ucast s) (ucast (drop_bit 8 s')) (ucast s'))"
proof -
  have "public_ip (V4 a b c d) \<longleftrightarrow> \<not> list_ex (in_cidr (ipv4_nat a b c d)) reserved_blocks"
    by (simp add: reserved_blocks_def in_cidr_octets public_v4_def octet_eq octet_le) argo
  then show ?thesis by (simp add: public_ipv6_def to_ipv4_mapped_def)
qed

end
