(* ===== verification/Pool.thy ===== *)
theory Pool
  imports Replica_Policy
begin

text \<open>
  Owner-signed pool receipts: \<open>crates/wildbloomd/src/replicas/pool.rs\<close>. \<open>templates\<close> turns a
  receipt into one unsigned maintenance policy per part; \<open>receipt\<close> is the same validation in front
  of owner-side repair. Reading the manifest from JSON is the parameter \<open>mfj\<close>.
\<close>

section \<open>Definitions\<close>

definition invalid :: rerror where
  "invalid = Configuration ''invalid pool receipt, placement or transport profile''"

definition derive_profile :: "manifest \<Rightarrow> bool \<Rightarrow> rerror + profile" where
  "derive_profile m permit_loopback =
     (if m_profile m = ''tor'' \<and> \<not> permit_loopback then Inr TorOnly
      else if m_profile m = ''direct'' \<and> permit_loopback then Inr LoopbackDevelopment
      else if m_profile m = ''direct'' then Inr DirectHttps
      else Inl invalid)"

record pool_templates =
  tp_receipt_id :: string
  tp_mode :: string
  tp_required_parts :: nat
  tp_total_parts :: nat
  tp_reconstructs_ciphertext :: bool
  tp_storage_verified :: bool
  tp_unsigned_policies :: "unsigned_event list"

text \<open>The sets that span the parts of one receipt.\<close>

record placed =
  pl_ids :: "string set"
  pl_origins :: "string set"
  pl_hosts :: "string set"
  pl_assigned :: "string set"

definition manifest_ok :: "event \<Rightarrow> manifest \<Rightarrow> nat \<Rightarrow> nat \<Rightarrow> nat \<Rightarrow> bool" where
  "manifest_ok ev m revision expires_at now \<longleftrightarrow>
     \<not> (ev_kind ev \<noteq> 30078 \<or> ev_created_at ev > now \<or> manifest_type m \<noteq> ''wildbloom.pool'' \<or> m_version m \<noteq> 1
        \<or> \<not> canonical_hex (pl_sha256 (m_payload m)) 32
        \<or> pl_encryption (m_payload m) \<noteq> ''forgesworn-aes-256-gcm-chunked-v2''
        \<or> pl_size (m_payload m) = 0 \<or> pl_size (m_payload m) > 258 * 1024 * 1024
        \<or> m_required m = 0 \<or> m_total m > 16 \<or> length (m_parts m) \<noteq> m_total m
        \<or> revision = 0 \<or> expires_at \<le> now \<or> expires_at - now > 365 * 86400)"

definition mode_ok :: "manifest \<Rightarrow> bool" where
  "mode_ok m \<longleftrightarrow>
     (if m_mode m = ''erasure''
      then \<not> (m_required m < 2 \<or> m_required m \<ge> m_total m \<or> m_copies m \<noteq> 1 \<or> pl_size (m_payload m) < m_required m)
      else \<not> (m_mode m \<noteq> ''replicas'' \<or> m_required m \<noteq> 1 \<or> m_total m \<noteq> 1 \<or> \<not> (2 \<le> m_copies m \<and> m_copies m \<le> 3)))"

definition target_of :: "node \<Rightarrow> target" where
  "target_of n = \<lparr>t_id = n_id n, t_origin = n_origin n, t_failure_group = n_failure_group n, t_retention = Owner\<rparr>"

fun place_nodes ::
  "rlibs \<Rightarrow> profile \<Rightarrow> bool \<Rightarrow> node list \<Rightarrow> string set \<Rightarrow> placed \<Rightarrow> rerror + (string set \<times> placed)" where
  "place_nodes R p permit_loopback [] gs pl = Inr (gs, pl)"
| "place_nodes R p permit_loopback (n # ns) gs pl =
     (case url_parse R (n_origin n) of
        None \<Rightarrow> Inl invalid
      | Some u \<Rightarrow>
          (case (if permit_loopback then Some (n_origin n) else u_host u) of
             None \<Rightarrow> Inl invalid
           | Some host \<Rightarrow>
               if \<not> identifier_ok (n_id n) \<or> length (n_id n) > 40 \<or> \<not> identifier_ok (n_failure_group n)
                  \<or> length (n_failure_group n) > 40 \<or> \<not> (1 \<le> n_weight n \<and> n_weight n \<le> 1000)
                  \<or> length (n_origin n) > 256 \<or> u_str u \<noteq> n_origin n \<or> \<not> profile_accepts (sha3_256 R) p u
                  \<or> n_id n \<in> pl_ids pl \<or> n_origin n \<in> pl_origins pl \<or> host \<in> pl_hosts pl
                  \<or> card (insert (n_id n) (pl_ids pl)) > 16 \<or> n_failure_group n \<in> pl_assigned pl
                  \<or> n_failure_group n \<in> gs
               then Inl invalid
               else place_nodes R p permit_loopback ns (insert (n_failure_group n) gs)
                      (pl\<lparr>pl_ids := insert (n_id n) (pl_ids pl), pl_origins := insert (n_origin n) (pl_origins pl),
                         pl_hosts := insert host (pl_hosts pl)\<rparr>)))"

definition part_policy :: "event \<Rightarrow> manifest \<Rightarrow> profile \<Rightarrow> nat \<Rightarrow> nat \<Rightarrow> nat \<Rightarrow> part \<Rightarrow> policy" where
  "part_policy ev m p revision expires_at index pt =
     \<lparr>policy_type = ''wildbloom.replica-policy'', p_version = 1,
      p_id = ''pool-'' @ take 40 (ev_id ev) @ ''-'' @ show_nat index,
      p_revision = revision, p_expires_at = expires_at, p_profile = p, desired_groups = m_copies m,
      targets = map target_of (pt_targets pt), blobs = [\<lparr>b_sha256 = pt_sha256 pt, b_size = pt_size pt\<rparr>]\<rparr>"

fun part_templates ::
  "rlibs \<Rightarrow> event \<Rightarrow> manifest \<Rightarrow> profile \<Rightarrow> bool \<Rightarrow> string \<Rightarrow> nat \<Rightarrow> nat \<Rightarrow> nat \<Rightarrow> nat \<Rightarrow> part list \<Rightarrow> placed
     \<Rightarrow> rerror + unsigned_event list" where
  "part_templates R ev m p permit_loopback own revision expires_at now index [] pl = Inr []"
| "part_templates R ev m p permit_loopback own revision expires_at now index (pt # pts) pl =
     (if pt_index pt \<noteq> index \<or> \<not> canonical_hex (pt_sha256 pt) 32
         \<or> pt_size pt \<noteq> div_ceil (pl_size (m_payload m)) (m_required m)
         \<or> (m_mode m \<noteq> ''erasure'' \<and> pt_sha256 pt \<noteq> pl_sha256 (m_payload m)) \<or> pt_targets pt = []
      then Inl invalid
      else try_then (place_nodes R p permit_loopback (pt_targets pt) {} pl) (\<lambda>(gs, pl).
        try_then (map_err Policy (policy_template R (part_policy ev m p revision expires_at index pt) own now)) (\<lambda>u.
        try_then (part_templates R ev m p permit_loopback own revision expires_at now (index + 1) pts
                    (pl\<lparr>pl_assigned := pl_assigned pl \<union> gs\<rparr>)) (\<lambda>us. Inr (u # us)))))"

definition templates ::
  "rlibs \<Rightarrow> (string \<Rightarrow> manifest option) \<Rightarrow> bytes \<Rightarrow> string \<Rightarrow> nat \<Rightarrow> nat \<Rightarrow> nat \<Rightarrow> bool \<Rightarrow> rerror + pool_templates" where
  "templates R mfj bs own revision expires_at now permit_loopback =
     try_then (map_err Policy (signed_event R bs own (128 * 1024))) (\<lambda>ev.
     try_then (ok_or invalid (mfj (ev_content ev))) (\<lambda>m.
       if \<not> manifest_ok ev m revision expires_at now \<or> \<not> mode_ok m
          \<or> ev_tags ev \<noteq> [[''d'', ''wildbloom.pool.v1:'' @ pl_sha256 (m_payload m)]]
       then Inl invalid
       else try_then (derive_profile m permit_loopback) (\<lambda>p.
         try_then (part_templates R ev m p permit_loopback own revision expires_at now 0 (m_parts m)
                     \<lparr>pl_ids = {}, pl_origins = {}, pl_hosts = {}, pl_assigned = {}\<rparr>) (\<lambda>us.
           Inr \<lparr>tp_receipt_id = ev_id ev, tp_mode = m_mode m, tp_required_parts = m_required m,
                tp_total_parts = m_total m, tp_reconstructs_ciphertext = False, tp_storage_verified = False,
                tp_unsigned_policies = us\<rparr>))))"

definition receipt ::
  "rlibs \<Rightarrow> (string \<Rightarrow> manifest option) \<Rightarrow> bytes \<Rightarrow> string \<Rightarrow> string \<Rightarrow> nat \<Rightarrow> bool \<Rightarrow> rerror + (manifest \<times> profile)" where
  "receipt R mfj bs own expected_id now permit_loopback =
     try_then (templates R mfj bs own 1 (sat_add now 3600) now permit_loopback) (\<lambda>validated.
       if tp_receipt_id validated \<noteq> expected_id then Inl invalid
       else try_then (map_err Policy (signed_event R bs own (128 * 1024))) (\<lambda>ev.
         try_then (ok_or invalid (mfj (ev_content ev))) (\<lambda>m.
         try_then (derive_profile m permit_loopback) (\<lambda>p. Inr (m, p)))))"

section \<open>Placement\<close>

text \<open>
  A well-formed receipt: parts in order, of one size, each on nodes of distinct failure groups, and
  no node id, origin or failure group in more than one part.
\<close>

definition node_wf :: "rlibs \<Rightarrow> profile \<Rightarrow> node \<Rightarrow> bool" where
  "node_wf R p n \<longleftrightarrow> identifier_ok (n_id n) \<and> length (n_id n) \<le> 40 \<and> identifier_ok (n_failure_group n)
     \<and> length (n_failure_group n) \<le> 40 \<and> 1 \<le> n_weight n \<and> n_weight n \<le> 1000 \<and> length (n_origin n) \<le> 256
     \<and> (\<exists>u. url_parse R (n_origin n) = Some u \<and> u_str u = n_origin n \<and> profile_accepts (sha3_256 R) p u)"

lemma place_nodes_Inr:
  "place_nodes R p lb ns gs pl = Inr (gs', pl') \<Longrightarrow>
     (\<forall>n \<in> set ns. node_wf R p n) \<and> distinct (map n_failure_group ns) \<and> n_failure_group ` set ns \<inter> gs = {}
     \<and> n_failure_group ` set ns \<inter> pl_assigned pl = {} \<and> distinct (map n_id ns) \<and> n_id ` set ns \<inter> pl_ids pl = {}
     \<and> distinct (map n_origin ns) \<and> n_origin ` set ns \<inter> pl_origins pl = {}
     \<and> gs' = gs \<union> n_failure_group ` set ns \<and> pl_assigned pl' = pl_assigned pl
     \<and> pl_ids pl' = pl_ids pl \<union> n_id ` set ns \<and> pl_origins pl' = pl_origins pl \<union> n_origin ` set ns"
proof (induction ns arbitrary: gs pl)
  case (Cons n ns)
  then obtain u host where u: "url_parse R (n_origin n) = Some u" "(if lb then Some (n_origin n) else u_host u) = Some host"
    by (auto split: option.splits)
  let ?pl = "pl\<lparr>pl_ids := insert (n_id n) (pl_ids pl), pl_origins := insert (n_origin n) (pl_origins pl),
      pl_hosts := insert host (pl_hosts pl)\<rparr>"
  have c: "place_nodes R p lb ns (insert (n_failure_group n) gs) ?pl = Inr (gs', pl')" "node_wf R p n"
    "n_id n \<notin> pl_ids pl" "n_origin n \<notin> pl_origins pl" "n_failure_group n \<notin> gs" "n_failure_group n \<notin> pl_assigned pl"
    using Cons.prems u by (auto simp: node_wf_def not_less split: if_splits)
  show ?case using Cons.IH [OF c(1)] c(2-) by auto
qed simp

abbreviation part_groups :: "part \<Rightarrow> string set" where
  "part_groups pt \<equiv> n_failure_group ` set (pt_targets pt)"

abbreviation pool_nodes :: "part list \<Rightarrow> node list" where
  "pool_nodes pts \<equiv> concat (map pt_targets pts)"

definition part_wf :: "rlibs \<Rightarrow> manifest \<Rightarrow> profile \<Rightarrow> nat \<Rightarrow> part \<Rightarrow> bool" where
  "part_wf R m p index pt \<longleftrightarrow> pt_index pt = index \<and> canonical_hex (pt_sha256 pt) 32
     \<and> pt_size pt = div_ceil (pl_size (m_payload m)) (m_required m)
     \<and> (m_mode m = ''erasure'' \<or> pt_sha256 pt = pl_sha256 (m_payload m)) \<and> pt_targets pt \<noteq> []
     \<and> (\<forall>n \<in> set (pt_targets pt). node_wf R p n) \<and> distinct (map n_failure_group (pt_targets pt))"

definition pool_wf :: "rlibs \<Rightarrow> manifest \<Rightarrow> profile \<Rightarrow> bool" where
  "pool_wf R m p \<longleftrightarrow> 0 < m_required m \<and> m_required m \<le> m_total m \<and> m_total m \<le> 16 \<and> length (m_parts m) = m_total m
     \<and> 0 < pl_size (m_payload m) \<and> pl_size (m_payload m) \<le> 258 * 1024 * 1024
     \<and> (\<forall>i < m_total m. part_wf R m p i (m_parts m ! i) \<and> m_copies m \<le> card (part_groups (m_parts m ! i)))
     \<and> distinct (map n_id (pool_nodes (m_parts m))) \<and> distinct (map n_origin (pool_nodes (m_parts m)))
     \<and> sorted_wrt (\<lambda>a b. part_groups a \<inter> part_groups b = {}) (m_parts m)"

lemma part_templates_Cons:
  assumes "part_templates R ev m p lb own revision expires_at now index (pt # pts) pl = Inr us"
  obtains gs pl1 u us' where "place_nodes R p lb (pt_targets pt) {} pl = Inr (gs, pl1)" "part_wf R m p index pt"
    "policy_template R (part_policy ev m p revision expires_at index pt) own now = Inr u" "us = u # us'"
    "part_templates R ev m p lb own revision expires_at now (index + 1) pts (pl1\<lparr>pl_assigned := pl_assigned pl1 \<union> gs\<rparr>) = Inr us'"
proof -
  from assms obtain gs pl1 u us' where c: "place_nodes R p lb (pt_targets pt) {} pl = Inr (gs, pl1)"
    "policy_template R (part_policy ev m p revision expires_at index pt) own now = Inr u" "us = u # us'"
    "part_templates R ev m p lb own revision expires_at now (index + 1) pts (pl1\<lparr>pl_assigned := pl_assigned pl1 \<union> gs\<rparr>) = Inr us'"
    "pt_index pt = index" "canonical_hex (pt_sha256 pt) 32"
    "pt_size pt = div_ceil (pl_size (m_payload m)) (m_required m)"
    "m_mode m = ''erasure'' \<or> pt_sha256 pt = pl_sha256 (m_payload m)" "pt_targets pt \<noteq> []"
    by (auto simp: try_then_Inr split: if_splits)
  then have "part_wf R m p index pt" using place_nodes_Inr [OF c(1)] by (simp add: part_wf_def)
  then show thesis using c(2-4) by (rule that [OF c(1)])
qed

lemma part_templates_parts:
  "part_templates R ev m p lb own revision expires_at now index pts pl = Inr us \<Longrightarrow>
     length us = length pts
     \<and> (\<forall>i < length pts. part_wf R m p (index + i) (pts ! i)
          \<and> policy_template R (part_policy ev m p revision expires_at (index + i) (pts ! i)) own now = Inr (us ! i))"
proof (induction pts arbitrary: index pl us)
  case (Cons pt pts)
  from Cons.prems obtain gs pl1 u us' where c: "part_wf R m p index pt"
    "policy_template R (part_policy ev m p revision expires_at index pt) own now = Inr u" "us = u # us'"
    "part_templates R ev m p lb own revision expires_at now (index + 1) pts (pl1\<lparr>pl_assigned := pl_assigned pl1 \<union> gs\<rparr>) = Inr us'"
    by (rule part_templates_Cons)
  show ?case using Cons.IH [OF c(4)] c(1-3) by (simp add: All_less_Suc2)
qed simp

lemma part_templates_placed:
  "part_templates R ev m p lb own revision expires_at now index pts pl = Inr us \<Longrightarrow>
     distinct (map n_id (pool_nodes pts)) \<and> n_id ` set (pool_nodes pts) \<inter> pl_ids pl = {}
     \<and> distinct (map n_origin (pool_nodes pts)) \<and> n_origin ` set (pool_nodes pts) \<inter> pl_origins pl = {}
     \<and> sorted_wrt (\<lambda>a b. part_groups a \<inter> part_groups b = {}) pts
     \<and> (\<forall>pt \<in> set pts. part_groups pt \<inter> pl_assigned pl = {})"
proof (induction pts arbitrary: index pl us)
  case (Cons pt pts)
  from Cons.prems obtain gs pl1 u us' where c: "place_nodes R p lb (pt_targets pt) {} pl = Inr (gs, pl1)"
    "part_templates R ev m p lb own revision expires_at now (index + 1) pts (pl1\<lparr>pl_assigned := pl_assigned pl1 \<union> gs\<rparr>) = Inr us'"
    by (rule part_templates_Cons)
  note P = place_nodes_Inr [OF c(1)] and IH = Cons.IH [OF c(2)]
  have ids: "n_id ` set (pool_nodes pts) \<inter> (pl_ids pl \<union> n_id ` set (pt_targets pt)) = {}"
    "n_origin ` set (pool_nodes pts) \<inter> (pl_origins pl \<union> n_origin ` set (pt_targets pt)) = {}"
    "\<forall>x \<in> set pts. part_groups x \<inter> (pl_assigned pl \<union> part_groups pt) = {}"
    using IH P by (simp_all del: set_concat)
  have "sorted_wrt (\<lambda>a b. part_groups a \<inter> part_groups b = {}) (pt # pts)"
    using IH ids(3) by (auto simp: disjoint_iff)
  moreover have "distinct (map n_id (pool_nodes (pt # pts)))" "distinct (map n_origin (pool_nodes (pt # pts)))"
    using IH P ids(1,2) by (auto simp del: set_concat)
  moreover have "n_id ` set (pool_nodes (pt # pts)) \<inter> pl_ids pl = {}"
    "n_origin ` set (pool_nodes (pt # pts)) \<inter> pl_origins pl = {}"
    using P ids(1,2) by (auto simp del: set_concat)
  moreover have "\<forall>x \<in> set (pt # pts). part_groups x \<inter> pl_assigned pl = {}" using P ids(3) by auto
  ultimately show ?case by blast
qed simp

lemma part_policy_groups:
  assumes "policy_template R (part_policy ev m p revision expires_at index pt) own now = Inr u"
  shows "m_copies m \<le> card (part_groups pt)"
proof -
  have "wf_policy R (part_policy ev m p revision expires_at index pt)"
    using assms by (auto simp: policy_template_def try_then_Inr validate_policy_Inr split: if_splits)
  moreover have "owner_groups (map target_of ns) = n_failure_group ` set ns" for ns
    by (induction ns) (auto simp: owner_groups_def target_of_def intro: rev_image_eqI)
  ultimately show ?thesis by (simp add: wf_policy_def part_policy_def)
qed

lemma mode_required: "manifest_ok ev m revision expires_at now \<Longrightarrow> mode_ok m \<Longrightarrow> 0 < m_required m \<and> m_required m \<le> m_total m"
  by (auto simp: manifest_ok_def mode_ok_def split: if_splits)

text \<open>What a successful \<open>templates\<close> says about the receipt it was given.\<close>

lemma templates_Inr:
  assumes "templates R mfj bs own revision expires_at now lb = Inr T"
  obtains ev m p where "signed_event R bs own (128 * 1024) = Inr ev" "mfj (ev_content ev) = Some m"
    "derive_profile m lb = Inr p" "manifest_ok ev m revision expires_at now" "mode_ok m" "pool_wf R m p"
    "tp_receipt_id T = ev_id ev" "length (tp_unsigned_policies T) = m_total m"
    "\<And>i. i < m_total m \<Longrightarrow> policy_template R (part_policy ev m p revision expires_at i (m_parts m ! i)) own now
       = Inr (tp_unsigned_policies T ! i)"
proof -
  from assms obtain ev m p us where c: "signed_event R bs own (128 * 1024) = Inr ev" "mfj (ev_content ev) = Some m"
    "derive_profile m lb = Inr p" "manifest_ok ev m revision expires_at now" "mode_ok m"
    "part_templates R ev m p lb own revision expires_at now 0 (m_parts m)
       \<lparr>pl_ids = {}, pl_origins = {}, pl_hosts = {}, pl_assigned = {}\<rparr> = Inr us"
    "tp_receipt_id T = ev_id ev" "tp_unsigned_policies T = us"
    by (auto simp: templates_def try_then_Inr split: if_splits)
  have len: "length (m_parts m) = m_total m" using c(4) by (simp add: manifest_ok_def)
  have "\<forall>i < m_total m. m_copies m \<le> card (part_groups (m_parts m ! i))"
    using part_templates_parts [OF c(6)] len part_policy_groups by fastforce
  then have "pool_wf R m p"
    using part_templates_parts [OF c(6)] part_templates_placed [OF c(6)] mode_required [OF c(4,5)] c(4)
    by (simp add: pool_wf_def len manifest_ok_def not_less)
  then show thesis using that c part_templates_parts [OF c(6)] len by simp
qed

lemma receipt_Inr:
  assumes "receipt R mfj bs own expected_id now lb = Inr (m, p)"
  obtains ev where "signed_event R bs own (128 * 1024) = Inr ev" "mfj (ev_content ev) = Some m"
    "ev_id ev = expected_id" "derive_profile m lb = Inr p" "pool_wf R m p" "mode_ok m"
    "manifest_ok ev m 1 (sat_add now 3600) now"
proof -
  from assms obtain T ev where T: "templates R mfj bs own 1 (sat_add now 3600) now lb = Inr T"
    "tp_receipt_id T = expected_id" "signed_event R bs own (128 * 1024) = Inr ev" "mfj (ev_content ev) = Some m"
    "derive_profile m lb = Inr p"
    by (auto simp: receipt_def try_then_Inr split: if_splits)
  from T(1) show thesis by (rule templates_Inr) (use T that in auto)
qed

end
