(* ===== verification/Signer.thy ===== *)
theory Signer
  imports Replica_Policy
begin

text \<open>
  The external signer command: \<open>crates/wildbloomd/src/replicas/signer.rs\<close>. A child process is what
  the operating system makes of one: whether it started and took its input, what it wrote, how it
  ended and whether it did so in time.
\<close>

section \<open>Definitions\<close>

record command_signer =
  executable :: string
  cs_arguments :: "string list"
  cs_timeout :: nat

text \<open>\<open>None\<close> in \<open>ch_output\<close> is a read error; \<open>ch_exit\<close> is \<open>None\<close> when waiting fails.\<close>

record child =
  ch_spawned :: bool
  ch_pipes :: bool
  ch_written :: bool
  ch_output :: "bytes option"
  ch_exit :: "bool option"
  ch_took :: nat

definition SECRET_ENVS :: "string list" where
  "SECRET_ENVS = [''WILDBLOOM_PAIRING_OPERATOR_TOKEN'', ''WILDBLOOM_TURN_SECRET'']"

text \<open>The environment the child inherits: the process's own without the issuer secrets.\<close>

definition command_env :: "(string \<times> string) list \<Rightarrow> (string \<times> string) list" where
  "command_env own = filter (\<lambda>(name, v). name \<notin> set SECRET_ENVS) own"

definition is_absolute :: "string \<Rightarrow> bool" where
  "is_absolute path \<longleftrightarrow> path \<noteq> [] \<and> hd path = CHR ''/''"

definition read_output :: "bytes option \<Rightarrow> bytes option" where
  "read_output out =
     (case out of
        None \<Rightarrow> None
      | Some bs \<Rightarrow> let got = take (MAX_EVENT_BYTES + 1) bs in if length got > MAX_EVENT_BYTES then None else Some got)"

definition exchange :: "child \<Rightarrow> bytes option" where
  "exchange c =
     (if \<not> ch_written c then None
      else case read_output (ch_output c) of
        None \<Rightarrow> None
      | Some bs \<Rightarrow> if ch_exit c = Some True then Some bs else None)"

text \<open>
  \<open>run_child\<close> is the operating system: the executable, its arguments, its environment and its
  input give a child.
\<close>

type_synonym spawner = "string \<Rightarrow> string list \<Rightarrow> (string \<times> string) list \<Rightarrow> bytes \<Rightarrow> child"

definition command_sign ::
  "spawner \<Rightarrow> (unsigned_event \<Rightarrow> bytes option) \<Rightarrow> (string \<times> string) list \<Rightarrow> command_signer \<Rightarrow> unsigned_event
     \<Rightarrow> bytes option" where
  "command_sign run_child to_json own cs request =
     (if \<not> is_absolute (executable cs) then None
      else case to_json request of
        None \<Rightarrow> None
      | Some input \<Rightarrow>
          if length input > MAX_EVENT_BYTES then None
          else let c = run_child (executable cs) (cs_arguments cs) (command_env own) input
               in if \<not> ch_spawned c \<or> \<not> ch_pipes c then None
                  else if ch_took c > cs_timeout cs then None
                  else exchange c)"

section \<open>Bounds\<close>

lemma read_output_Some: "read_output out = Some bs \<Longrightarrow> out = Some bs \<and> length bs \<le> MAX_EVENT_BYTES"
  by (auto simp: read_output_def Let_def min_def split: option.splits if_splits)

text \<open>
  A signature comes from an absolute executable started without the issuer secrets; it answered
  in time, succeeded, and everything it wrote fits one event.
\<close>

lemma command_sign_Some:
  assumes "command_sign run_child to_json own cs request = Some bs"
  obtains input c where "to_json request = Some input" "length input \<le> MAX_EVENT_BYTES" "is_absolute (executable cs)"
    "c = run_child (executable cs) (cs_arguments cs) (command_env own) input" "ch_took c \<le> cs_timeout cs"
    "ch_exit c = Some True" "ch_output c = Some bs" "length bs \<le> MAX_EVENT_BYTES"
  using assms by (auto simp: command_sign_def exchange_def Let_def dest!: read_output_Some split: if_splits option.splits)

lemma command_env_secret: "name \<in> set SECRET_ENVS \<Longrightarrow> (name, v) \<notin> set (command_env own)"
  by (simp add: command_env_def)

end
