(* ===== verification/Pool_Repair.thy ===== *)
theory Pool_Repair
  imports Replica_State Http_Transport Pool Signer Regenerate
begin

text \<open>
  Owner-side repair of a coded pool: \<open>crates/wildbloomd/src/replicas/pool_repair.rs\<close>. A pass scans
  the assigned nodes, keeps one verified source per part, regenerates missing parts and uploads
  them under a fresh signature each. As in the coordinator, every call takes its answer from the
  environment at the current step. The pass only ever runs on a manifest that \<open>receipt\<close> returned,
  so the products \<open>2 * total + 1\<close> and \<open>2 * size\<close> stay far below \<open>2 ^ 64\<close>.
\<close>

section \<open>Data\<close>

record repair_args =
  ra_receipt_id :: string
  ra_owner :: string
  allow_reconstruction :: bool
  check_only :: bool
  stop_on_stdin :: bool
  ra_expires_at :: nat
  ra_signer :: "string option"
  signer_arg :: "string list"
  signer_timeout :: nat
  ra_proxy :: "url option"
  permit_loopback_development :: bool
  once :: bool
  transfer_budget_bytes :: nat
  max_work_bytes :: nat

record node_report =
  nr_id :: string
  nr_part_index :: nat
  nr_state :: string

record repair_report =
  rr_receipt_id :: string
  rr_observed_at :: nat
  rr_verified_groups :: "nat list"
  recoverable :: bool
  protected :: bool
  reconstructed :: bool
  uploads_attempted :: nat
  reserved_transfer_bytes :: nat
  rr_nodes :: "node_report list"

text \<open>What the process did, in order; an upload carries the bytes its file held. The program does not read it.\<close>

datatype peffect =
    P_Checked nat
  | P_Verify target blob "network_failure + unit"
  | P_Download target blob "download_error + unit"
  | P_Sign unsigned_event
  | P_Upload target blob "bytes option" string "network_failure + unit"

record pworld =
  pw :: rworld
  pw_disk :: disk
  pw_log :: "peffect list"

text \<open>
  How a wait of the main loop ends: a shutdown signal, the supervisor's pipe, the authority's
  deadline, or the awaited work. \<open>pn_temp\<close> is the fresh private directory of a pass with the disk it
  lies on, which dies with the pass, and \<open>pn_tmp_name\<close> the name drawn for a temporary file.
\<close>

datatype race = Shutdown | ParentGone | Deadline | Completed

record penv =
  pe :: renv
  pn_manifest :: "string \<Rightarrow> manifest option"
  pn_digest :: "bytes \<Rightarrow> string"
  pn_receipt :: "nat \<Rightarrow> entry option"
  pn_net :: "nat \<Rightarrow> http"
  pn_child :: "nat \<Rightarrow> spawner"
  pn_request_json :: "unsigned_event \<Rightarrow> bytes option"
  pn_own_env :: "(string \<times> string) list"
  pn_temp :: "nat \<Rightarrow> (string \<times> disk) option"
  pn_tmp_name :: "nat \<Rightarrow> string"
  pn_parse_ip :: "string \<Rightarrow> ip_addr option"
  pn_proxy_ok :: "url \<Rightarrow> bool"
  pn_client_built :: bool
  pn_report_json :: "repair_report \<Rightarrow> bytes option"
  pn_race :: "nat \<Rightarrow> race"
  pn_cut :: "nat \<Rightarrow> nat"

section \<open>Calls\<close>

definition advance :: "nat \<Rightarrow> pworld \<Rightarrow> pworld" where
  "advance n w = w\<lparr>pw := (pw w)\<lparr>tick := tick (pw w) + n\<rparr>\<rparr>"

definition record_effect :: "peffect \<Rightarrow> pworld \<Rightarrow> pworld" where
  "record_effect e w = w\<lparr>pw_log := pw_log w @ [e]\<rparr>"

definition now_at :: "penv \<Rightarrow> pworld \<Rightarrow> pworld \<times> (rerror + nat)" where
  "now_at E w = (advance 1 w, Inr (clock_at (pe E) (tick (pw w))))"

definition repair_check :: "penv \<Rightarrow> repair_args \<Rightarrow> bytes \<Rightarrow> pworld \<Rightarrow> pworld \<times> (rerror + unit)" where
  "repair_check E args bs w =
     st_then (now_at E w) (\<lambda>now w.
       if now \<ge> ra_expires_at args then (w, Inl (Configuration ''owner pool repair authority expired''))
       else st_then (advance 2 w, map_err State (read_bounded (pn_receipt E) (io_at (pe E)) (tick (pw w)) (128 * 1024)))
         (\<lambda>current w. if current \<noteq> bs then (w, Inl Changed) else (record_effect (P_Checked now) w, Inr ())))"

definition net_at :: "penv \<Rightarrow> nat \<Rightarrow> http" where
  "net_at E n = (pn_net E n)\<lparr>digest_hex := pn_digest E\<rparr>"

definition verify_node :: "penv \<Rightarrow> profile \<Rightarrow> target \<Rightarrow> blob \<Rightarrow> pworld \<Rightarrow> pworld \<times> (rerror + (network_failure + unit))" where
  "verify_node E p t b w =
     (let r = http_verify (net_at E (tick (pw w))) p t b in (record_effect (P_Verify t b r) (advance 1 w), Inr r))"

definition download_node ::
  "penv \<Rightarrow> profile \<Rightarrow> target \<Rightarrow> blob \<Rightarrow> string \<Rightarrow> pworld \<Rightarrow> pworld \<times> (rerror + (download_error + unit))" where
  "download_node E p t b path w =
     (case http_download (net_at E (tick (pw w))) p t b path (pw_disk w) of
        (d, r) \<Rightarrow> (record_effect (P_Download t b r) (advance 1 (w\<lparr>pw_disk := d\<rparr>)), Inr r))"

definition upload_node ::
  "penv \<Rightarrow> profile \<Rightarrow> target \<Rightarrow> blob \<Rightarrow> string \<Rightarrow> string \<Rightarrow> pworld \<Rightarrow> pworld \<times> (rerror + (network_failure + unit))" where
  "upload_node E p t b path header w =
     (let r = http_upload (net_at E (tick (pw w))) p t b path header (pw_disk w)
      in (record_effect (P_Upload t b (files (pw_disk w) path) header r) (advance 1 w), Inr r))"

definition signer_of :: "repair_args \<Rightarrow> command_signer" where
  "signer_of args =
     \<lparr>executable = (case ra_signer args of None \<Rightarrow> [] | Some s \<Rightarrow> s), cs_arguments = signer_arg args,
      cs_timeout = signer_timeout args\<rparr>"

definition sign_request :: "penv \<Rightarrow> repair_args \<Rightarrow> unsigned_event \<Rightarrow> pworld \<Rightarrow> pworld \<times> (rerror + bytes option)" where
  "sign_request E args request w =
     (record_effect (P_Sign request) (advance 1 w),
      Inr (command_sign (pn_child E (tick (pw w))) (pn_request_json E) (pn_own_env E) (signer_of args) request))"

section \<open>Helpers of the pass\<close>

fun observe_node :: "node_report list \<Rightarrow> string \<Rightarrow> string \<Rightarrow> node_report list" where
  "observe_node [] i st = []"
| "observe_node (n # ns) i st = (if nr_id n = i then n\<lparr>nr_state := st\<rparr> # ns else n # observe_node ns i st)"

definition part_blob :: "part \<Rightarrow> blob" where
  "part_blob pt = \<lparr>b_sha256 = pt_sha256 pt, b_size = pt_size pt\<rparr>"

definition reserve :: "nat \<Rightarrow> nat \<Rightarrow> rerror + nat" where
  "reserve left n =
     (if n \<le> left then Inr (left - n) else Inl (Configuration ''owner pool repair transfer budget exhausted''))"

definition upload_tags :: "repair_args \<Rightarrow> part \<Rightarrow> string \<Rightarrow> nat \<Rightarrow> string list list" where
  "upload_tags args pt host now =
     [[''t'', ''upload''], [''x'', pt_sha256 pt], [''server'', host],
      [''expiration'', show_nat (min (sat_add now 120) (ra_expires_at args))]]"

definition upload_template :: "rlibs \<Rightarrow> repair_args \<Rightarrow> part \<Rightarrow> node \<Rightarrow> nat \<Rightarrow> rerror + unsigned_event" where
  "upload_template R args pt n now =
     try_then (ok_or Internal (url_parse R (n_origin n))) (\<lambda>origin.
     try_then (ok_or Internal (u_host origin)) (\<lambda>host.
     try_then (ok_or Internal (pubkey_from_hex R (ra_owner args))) (\<lambda>key.
       Inr \<lparr>ue_pubkey = key, ue_created_at = sat_sub now 1, ue_kind = 24242, ue_tags = upload_tags args pt host now,
            ue_content = ''Restore one assigned pool part; receipt '' @ ra_receipt_id args @ ''; destination ''
              @ n_origin n\<rparr>)))"

text \<open>A vector index out of range panics.\<close>

definition index_or_panic :: "'a list \<Rightarrow> nat \<Rightarrow> rerror + 'a" where
  "index_or_panic xs i = (if i < length xs then Inr (xs ! i) else Inl Panic)"

definition remove_file :: "string \<Rightarrow> disk \<Rightarrow> disk" where
  "remove_file path d = d\<lparr>files := (files d)(path := None)\<rparr>"

definition rename_file :: "string \<Rightarrow> string \<Rightarrow> disk \<Rightarrow> disk" where
  "rename_file src dst d = d\<lparr>files := (files d)(src := None, dst := files d src)\<rparr>"

definition source_path :: "string \<Rightarrow> nat \<Rightarrow> string" where
  "source_path temp i = path_join temp (''source-'' @ show_nat i)"

section \<open>Scanning\<close>

record repair_pass_state =
  rp_left :: nat
  rp_groups :: "string set list"
  rp_sources :: "(nat \<times> string) list"
  rp_nodes :: "node_report list"
  rp_uploads :: nat

definition see_node :: "node \<Rightarrow> string \<Rightarrow> repair_pass_state \<Rightarrow> repair_pass_state" where
  "see_node n state st = st\<lparr>rp_nodes := observe_node (rp_nodes st) (n_id n) state\<rparr>"

definition count_group :: "part \<Rightarrow> node \<Rightarrow> repair_pass_state \<Rightarrow> repair_pass_state" where
  "count_group pt n st =
     st\<lparr>rp_groups := (rp_groups st)[pt_index pt := insert (n_failure_group n) (rp_groups st ! pt_index pt)]\<rparr>"

text \<open>
  The first node of a part to answer is downloaded to a temporary file that then becomes the part's
  source; a file whose download failed is dropped. Further nodes are only verified.
\<close>

definition fetch_node ::
  "penv \<Rightarrow> profile \<Rightarrow> string \<Rightarrow> part \<Rightarrow> node \<Rightarrow> bool \<Rightarrow> repair_pass_state \<Rightarrow> pworld
     \<Rightarrow> pworld \<times> (rerror + (bool \<times> repair_pass_state))" where
  "fetch_node E p temp pt n stored st w =
     (if stored then st_then (verify_node E p (target_of n) (part_blob pt) w) (\<lambda>r w. (w, Inr (is_ok r, st)))
      else
        let path = path_join temp (pn_tmp_name E (tick (pw w)))
        in case create_new path (pw_disk w) of
             (d, Inl e) \<Rightarrow> (advance 1 w, Inl (State S_Io))
           | (d, Inr u) \<Rightarrow>
               st_then (download_node E p (target_of n) (part_blob pt) path (advance 1 (w\<lparr>pw_disk := d\<rparr>))) (\<lambda>r w.
                 case r of
                   Inl (Remote failure) \<Rightarrow> (w\<lparr>pw_disk := remove_file path (pw_disk w)\<rparr>, Inr (False, st))
                 | Inl LocalStorage \<Rightarrow>
                     (w\<lparr>pw_disk := remove_file path (pw_disk w)\<rparr>,
                      Inl (Configuration ''could not write owner repair temporary storage''))
                 | Inr u \<Rightarrow>
                     if \<not> io_at (pe E) (tick (pw w))
                     then (advance 1 (w\<lparr>pw_disk := remove_file path (pw_disk w)\<rparr>), Inl (State S_Io))
                     else (advance 1 (w\<lparr>pw_disk := rename_file path (source_path temp (pt_index pt)) (pw_disk w)\<rparr>),
                           Inr (True, st\<lparr>rp_sources := rp_sources st @ [(pt_index pt, source_path temp (pt_index pt))]\<rparr>))))"

definition scan_node ::
  "penv \<Rightarrow> repair_args \<Rightarrow> profile \<Rightarrow> bytes \<Rightarrow> string \<Rightarrow> part \<Rightarrow> node \<Rightarrow> bool \<Rightarrow> repair_pass_state \<Rightarrow> pworld
     \<Rightarrow> pworld \<times> (rerror + (bool \<times> repair_pass_state))" where
  "scan_node E args p bs temp pt n stored st w =
     st_then (repair_check E args bs w) (\<lambda>_ w.
     st_then (w, reserve (rp_left st) (pt_size pt)) (\<lambda>left w.
     st_then (fetch_node E p temp pt n stored (see_node n ''unavailable'' (st\<lparr>rp_left := left\<rparr>)) w) (\<lambda>(ok, st) w.
       if \<not> ok then (w, Inr (False, st))
       else st_then (repair_check E args bs w) (\<lambda>_ w.
         (w, Inr (True, count_group pt n (see_node n ''verified'' st)))))))"

fun scan_nodes ::
  "penv \<Rightarrow> repair_args \<Rightarrow> profile \<Rightarrow> bytes \<Rightarrow> nat \<Rightarrow> string \<Rightarrow> part \<Rightarrow> node list \<Rightarrow> bool \<Rightarrow> repair_pass_state \<Rightarrow> pworld
     \<Rightarrow> pworld \<times> (rerror + repair_pass_state)" where
  "scan_nodes E args p bs copies temp pt [] stored st w = (w, Inr st)"
| "scan_nodes E args p bs copies temp pt (n # ns) stored st w =
     st_then (w, index_or_panic (rp_groups st) (pt_index pt)) (\<lambda>gs w.
       if n_failure_group n \<in> gs then scan_nodes E args p bs copies temp pt ns stored st w
       else st_then (scan_node E args p bs temp pt n stored st w) (\<lambda>(ok, st) w.
         if \<not> ok then scan_nodes E args p bs copies temp pt ns stored st w
         else if card (rp_groups st ! pt_index pt) \<ge> copies then (w, Inr st)
         else scan_nodes E args p bs copies temp pt ns True st w))"

fun scan_parts ::
  "penv \<Rightarrow> repair_args \<Rightarrow> profile \<Rightarrow> bytes \<Rightarrow> nat \<Rightarrow> string \<Rightarrow> part list \<Rightarrow> repair_pass_state \<Rightarrow> pworld
     \<Rightarrow> pworld \<times> (rerror + repair_pass_state)" where
  "scan_parts E args p bs copies temp [] st w = (w, Inr st)"
| "scan_parts E args p bs copies temp (pt # pts) st w =
     st_then (scan_nodes E args p bs copies temp pt (pt_targets pt) False st w) (\<lambda>st w.
       scan_parts E args p bs copies temp pts st w)"

section \<open>Restoring\<close>

fun place_sources :: "(nat \<times> string) list \<Rightarrow> string list \<Rightarrow> rerror + string list" where
  "place_sources [] fs = Inr fs"
| "place_sources ((i, path) # rest) fs = try_then (index_or_panic fs i) (\<lambda>_. place_sources rest (fs[i := path]))"

definition restore_files ::
  "penv \<Rightarrow> repair_args \<Rightarrow> bytes \<Rightarrow> manifest \<Rightarrow> string \<Rightarrow> repair_pass_state \<Rightarrow> pworld
     \<Rightarrow> pworld \<times> (rerror + (bool \<times> string list))" where
  "restore_files E args bs m temp st w =
     (if m_mode m = ''erasure'' \<and> length (rp_sources st) < m_total m then
        st_then (repair_check E args bs w) (\<lambda>_ w.
        st_then (case regenerate (pn_digest E) m (take (m_required m) (rp_sources st)) temp (pw_disk w) of
                   (d, r) \<Rightarrow> (w\<lparr>pw_disk := d\<rparr>, r)) (\<lambda>fs w.
        st_then (repair_check E args bs w) (\<lambda>_ w. (w, Inr (True, fs)))))
      else (w, try_then (place_sources (rp_sources st) (replicate (m_total m) [])) (\<lambda>fs. Inr (False, fs))))"

text \<open>One upload with its own signature and its mandatory read-back.\<close>

definition send_upload ::
  "penv \<Rightarrow> repair_args \<Rightarrow> profile \<Rightarrow> bytes \<Rightarrow> string list \<Rightarrow> part \<Rightarrow> node \<Rightarrow> string \<Rightarrow> repair_pass_state \<Rightarrow> pworld
     \<Rightarrow> pworld \<times> (rerror + repair_pass_state)" where
  "send_upload E args p bs fs pt n header st w =
     st_then (repair_check E args bs w) (\<lambda>_ w.
       let st = st\<lparr>rp_uploads := rp_uploads st + 1\<rparr>
       in st_then (w, index_or_panic fs (pt_index pt)) (\<lambda>path w.
          st_then (upload_node E p (target_of n) (part_blob pt) path header w) (\<lambda>r w.
            if is_err r then (w, Inr st)
            else st_then (repair_check E args bs w) (\<lambda>_ w.
                 st_then (verify_node E p (target_of n) (part_blob pt) w) (\<lambda>r w.
                   if is_err r then (w, Inr st)
                   else st_then (repair_check E args bs w) (\<lambda>_ w.
                     (w, Inr (count_group pt n (see_node n ''verified'' st)))))))))"

definition upload_one ::
  "penv \<Rightarrow> repair_args \<Rightarrow> profile \<Rightarrow> bytes \<Rightarrow> string list \<Rightarrow> part \<Rightarrow> node \<Rightarrow> repair_pass_state \<Rightarrow> pworld
     \<Rightarrow> pworld \<times> (rerror + repair_pass_state)" where
  "upload_one E args p bs fs pt n st w =
     st_then (repair_check E args bs w) (\<lambda>_ w.
     st_then (w, reserve (rp_left st) (pt_size pt * 2)) (\<lambda>left w.
       let st = st\<lparr>rp_left := left\<rparr>
       in st_then (now_at E w) (\<lambda>now w.
          st_then (w, upload_template (rl (pe E)) args pt n now) (\<lambda>request w.
          st_then (sign_request E args request w) (\<lambda>returned w.
          st_then (repair_check E args bs w) (\<lambda>_ w.
            case returned of
              None \<Rightarrow> (w, Inr st)
            | Some signature \<Rightarrow>
                st_then (now_at E w) (\<lambda>now w.
                  case verify_return (rl (pe E)) signature request now of
                    Inl e \<Rightarrow> (w, Inr st)
                  | Inr ev \<Rightarrow>
                      send_upload E args p bs fs pt n (nostr_header (rl (pe E)) (event_to_json (rl (pe E)) ev)) st w)))))))"

fun upload_nodes ::
  "penv \<Rightarrow> repair_args \<Rightarrow> profile \<Rightarrow> bytes \<Rightarrow> nat \<Rightarrow> string list \<Rightarrow> part \<Rightarrow> node list \<Rightarrow> repair_pass_state \<Rightarrow> pworld
     \<Rightarrow> pworld \<times> (rerror + repair_pass_state)" where
  "upload_nodes E args p bs copies fs pt [] st w = (w, Inr st)"
| "upload_nodes E args p bs copies fs pt (n # ns) st w =
     st_then (w, index_or_panic (rp_groups st) (pt_index pt)) (\<lambda>gs w.
       if card gs \<ge> copies then (w, Inr st)
       else if n_failure_group n \<in> gs then upload_nodes E args p bs copies fs pt ns st w
       else st_then (upload_one E args p bs fs pt n st w) (\<lambda>st w. upload_nodes E args p bs copies fs pt ns st w))"

fun upload_parts ::
  "penv \<Rightarrow> repair_args \<Rightarrow> profile \<Rightarrow> bytes \<Rightarrow> nat \<Rightarrow> string list \<Rightarrow> part list \<Rightarrow> repair_pass_state \<Rightarrow> pworld
     \<Rightarrow> pworld \<times> (rerror + repair_pass_state)" where
  "upload_parts E args p bs copies fs [] st w = (w, Inr st)"
| "upload_parts E args p bs copies fs (pt # pts) st w =
     st_then (upload_nodes E args p bs copies fs pt (pt_targets pt) st w) (\<lambda>st w.
       upload_parts E args p bs copies fs pts st w)"

definition restore_phase ::
  "penv \<Rightarrow> repair_args \<Rightarrow> profile \<Rightarrow> bytes \<Rightarrow> manifest \<Rightarrow> string \<Rightarrow> repair_pass_state \<Rightarrow> pworld
     \<Rightarrow> pworld \<times> (rerror + (bool \<times> repair_pass_state))" where
  "restore_phase E args p bs m temp st w =
     (if \<not> check_only args \<and> length (rp_sources st) \<ge> m_required m
         \<and> (\<exists>g \<in> set (rp_groups st). card g < m_copies m)
      then st_then (restore_files E args bs m temp st w) (\<lambda>(rebuilt, fs) w.
           st_then (upload_parts E args p bs (m_copies m) fs (m_parts m) st w) (\<lambda>st w. (w, Inr (rebuilt, st))))
      else (w, Inr (False, st)))"

section \<open>The pass\<close>

definition first_nodes :: "manifest \<Rightarrow> node_report list" where
  "first_nodes m =
     concat (map (\<lambda>pt. map (\<lambda>n. \<lparr>nr_id = n_id n, nr_part_index = pt_index pt, nr_state = ''not_checked''\<rparr>)
       (pt_targets pt)) (m_parts m))"

definition first_state :: "repair_args \<Rightarrow> manifest \<Rightarrow> repair_pass_state" where
  "first_state args m =
     \<lparr>rp_left = transfer_budget_bytes args, rp_groups = replicate (m_total m) {}, rp_sources = [],
      rp_nodes = first_nodes m, rp_uploads = 0\<rparr>"

definition repair_report_of ::
  "repair_args \<Rightarrow> manifest \<Rightarrow> bool \<Rightarrow> nat \<Rightarrow> repair_pass_state \<Rightarrow> repair_report" where
  "repair_report_of args m rebuilt now st =
     \<lparr>rr_receipt_id = ra_receipt_id args, rr_observed_at = now, rr_verified_groups = map card (rp_groups st),
      recoverable = (m_required m \<le> length (filter (\<lambda>g. g \<noteq> {}) (rp_groups st))),
      protected = (\<forall>g \<in> set (rp_groups st). m_copies m \<le> card g),
      reconstructed = rebuilt, uploads_attempted = rp_uploads st,
      reserved_transfer_bytes = transfer_budget_bytes args - rp_left st, rr_nodes = rp_nodes st\<rparr>"

definition required_disk :: "manifest \<Rightarrow> rerror + nat" where
  "required_disk m =
     (case m_parts m of
        [] \<Rightarrow> Inl Panic
      | p0 # _ \<Rightarrow>
          (let need = pt_size p0 * (2 * m_total m + 1) in if need \<le> u64_max then Inr need else Inl Internal))"

definition repair_pass ::
  "penv \<Rightarrow> repair_args \<Rightarrow> profile \<Rightarrow> bytes \<Rightarrow> manifest \<Rightarrow> pworld \<Rightarrow> pworld \<times> (rerror + repair_report)" where
  "repair_pass E args p bs m w =
     st_then (repair_check E args bs w) (\<lambda>_ w.
     st_then (w, required_disk m) (\<lambda>need w.
       if need > max_work_bytes args then (w, Inl (Configuration ''pool layout exceeds temporary disk budget''))
       else case pn_temp E (tick (pw w)) of
         None \<Rightarrow> (advance 1 w, Inl (State S_Io))
       | Some (temp, d) \<Rightarrow>
           st_then (scan_parts E args p bs (m_copies m) temp (m_parts m) (first_state args m)
                      (advance 1 (w\<lparr>pw_disk := d\<rparr>))) (\<lambda>st w.
           st_then (restore_phase E args p bs m temp st w) (\<lambda>(rebuilt, st) w.
           st_then (repair_check E args bs w) (\<lambda>_ w.
           st_then (now_at E w) (\<lambda>now w. (w, Inr (repair_report_of args m rebuilt now st))))))))"

section \<open>The process\<close>

definition repair_authority :: "repair_args \<Rightarrow> nat \<Rightarrow> rerror + unit" where
  "repair_authority args now =
     (if ra_expires_at args \<le> now then Inl (Configuration ''owner pool repair authority expired'')
      else if (\<not> check_only args
               \<and> (\<not> allow_reconstruction args
                  \<or> \<not> (case ra_signer args of None \<Rightarrow> False | Some s \<Rightarrow> is_absolute s)))
           \<or> ra_expires_at args - now > 365 * 86400 \<or> \<not> canonical_hex (ra_receipt_id args) 32
      then Inl (Configuration ''explicit bounded owner repair authority and absolute signer are required'')
      else Inr ())"

definition stale_pass :: "string \<Rightarrow> bool" where
  "stale_pass name \<longleftrightarrow> strip_prefix ''pool-pass-'' name \<noteq> None"

text \<open>
  A pass that loses its race is dropped at one of its waits: what it recorded so far stays recorded
  and its result is gone.
\<close>

definition raced_pass ::
  "penv \<Rightarrow> repair_args \<Rightarrow> profile \<Rightarrow> bytes \<Rightarrow> manifest \<Rightarrow> pworld \<Rightarrow> pworld \<times> (rerror + repair_report option)" where
  "raced_pass E args p bs m w =
     (let outcome = pn_race E (tick (pw w));
          cut = (\<lambda>w'. w'\<lparr>pw_log := pw_log w @ take (pn_cut E (tick (pw w))) (drop (length (pw_log w)) (pw_log w'))\<rparr>)
      in case repair_pass E args p bs m (advance 1 w) of
           (w', r) \<Rightarrow>
             (case outcome of
                Shutdown \<Rightarrow> (cut w', Inr None)
              | ParentGone \<Rightarrow> if stop_on_stdin args then (cut w', Inr None) else (w', try_then r (\<lambda>x. Inr (Some x)))
              | Deadline \<Rightarrow> (cut w', Inl (Configuration ''owner pool repair authority expired''))
              | Completed \<Rightarrow> (w', try_then r (\<lambda>x. Inr (Some x)))))"

definition on_state :: "(rworld \<Rightarrow> rworld \<times> (state_error + unit)) \<Rightarrow> pworld \<Rightarrow> pworld \<times> (rerror + unit)" where
  "on_state f w = (case f (pw w) of (s, r) \<Rightarrow> (w\<lparr>pw := s\<rparr>, map_err State r))"

definition publish_report :: "penv \<Rightarrow> repair_report \<Rightarrow> pworld \<Rightarrow> pworld \<times> (rerror + unit)" where
  "publish_report E report w =
     st_then (w, ok_or Json (pn_report_json E report)) (\<lambda>json w. on_state (write_private (pe E) Root ''pool-report.json'' json) w)"

definition repair_round ::
  "penv \<Rightarrow> repair_args \<Rightarrow> profile \<Rightarrow> bytes \<Rightarrow> manifest \<Rightarrow> pworld \<Rightarrow> pworld \<times> (rerror + repair_report option)" where
  "repair_round E args p bs m w =
     st_then (repair_check E args bs w) (\<lambda>_ w.
     st_then (now_at E w) (\<lambda>_ w.
     st_then (raced_pass E args p bs m w) (\<lambda>r w.
       case r of
         None \<Rightarrow> (w, Inr None)
       | Some report \<Rightarrow> st_then (publish_report E report w) (\<lambda>_ w. (w, Inr (Some report))))))"

text \<open>
  The loop of the process; a loop that is never stopped does not return, which is \<open>None\<close>.
\<close>

partial_function (option) repair_process ::
  "penv \<Rightarrow> repair_args \<Rightarrow> profile \<Rightarrow> bytes \<Rightarrow> manifest \<Rightarrow> pworld \<Rightarrow> (pworld \<times> (rerror + unit)) option" where
  "repair_process E args p bs m w =
     (case repair_round E args p bs m w of
        (w, Inl e) \<Rightarrow> Some (w, Inl e)
      | (w, Inr None) \<Rightarrow> Some (w, Inr ())
      | (w, Inr (Some report)) \<Rightarrow>
          if once args \<or> check_only args then
            Some (w, if protected report then Inr () else Inl (Configuration ''pool remains below requested protection''))
          else if pn_race E (tick (pw w)) = Shutdown \<or> (pn_race E (tick (pw w)) = ParentGone \<and> stop_on_stdin args)
          then Some (advance 1 w, Inr ())
          else repair_process E args p bs m (advance 1 w))"

definition repair_start :: "penv \<Rightarrow> repair_args \<Rightarrow> pworld \<Rightarrow> pworld \<times> (rerror + (bytes \<times> manifest \<times> profile))" where
  "repair_start E args w =
     st_then (now_at E w) (\<lambda>now w.
     st_then (w, repair_authority args now) (\<lambda>_ w.
     st_then (advance 2 w, map_err State (read_bounded (pn_receipt E) (io_at (pe E)) (tick (pw w)) (128 * 1024))) (\<lambda>bs w.
     st_then (w, receipt (rl (pe E)) (pn_manifest E) bs (ra_owner args) (ra_receipt_id args) now
                   (permit_loopback_development args)) (\<lambda>(m, p) w.
     st_then (w, map_err Configuration (transport_new (pn_parse_ip E) (pn_proxy_ok E) (pn_client_built E) p (ra_proxy args)
                   (permit_loopback_development args))) (\<lambda>_ w.
     st_then (on_state (state_open (pe E)) w) (\<lambda>_ w.
       if \<not> io_at (pe E) (tick (pw w)) then (advance 1 w, Inl (State S_Io))
       else if \<exists>(name, f) \<in> set (root_dir (pw w)). stale_pass name
       then (advance 1 w, Inl (Configuration
         ''review and remove stale pool-pass directories before restarting owner repair''))
       else (advance 1 w, Inr (bs, m, p))))))))"

definition repair_run :: "penv \<Rightarrow> repair_args \<Rightarrow> pworld \<Rightarrow> (pworld \<times> (rerror + unit)) option" where
  "repair_run E args w =
     (case repair_start E args w of
        (w, Inl e) \<Rightarrow> Some (w, Inl e)
      | (w, Inr (bs, m, p)) \<Rightarrow> repair_process E args p bs m w)"

end
