(* ===== verification/Pool_Pass.thy ===== *)
theory Pool_Pass
  imports Pool_Repair
begin

text \<open>
  The invariant of an owner repair pass. Every source file holds exactly its part, every entry of
  the log is authorised where it stands, what was transferred stays below what was reserved, and
  everything the pass counts has evidence in its own log.
\<close>

section \<open>Logs\<close>

definition chained :: "('a option \<Rightarrow> 'a \<Rightarrow> bool) \<Rightarrow> 'a list \<Rightarrow> bool" where
  "chained f l \<longleftrightarrow> (\<forall>i < length l. f (if i = 0 then None else Some (l ! (i - 1))) (l ! i))"

definition last_of :: "'a list \<Rightarrow> 'a option" where
  "last_of l = (if l = [] then None else Some (last l))"

lemma chained_Nil [simp]: "chained f []"
  by (simp add: chained_def)

lemma chained_snoc [simp]: "chained f (l @ [e]) \<longleftrightarrow> chained f l \<and> f (last_of l) e"
proof -
  have "(l @ [e]) ! (i - 1) = l ! (i - 1)" if "i < Suc (length l)" "i \<noteq> 0" for i
    using that by (simp add: nth_append) linarith
  then have "chained f (l @ [e]) \<longleftrightarrow> chained f l \<and> f (if length l = 0 then None else Some (l ! (length l - 1))) e"
    by (simp add: chained_def All_less_Suc nth_append cong: conj_cong) argo
  then show ?thesis by (simp add: last_of_def last_conv_nth)
qed

lemma chained_take: "chained f l \<Longrightarrow> chained f (take n l)"
  by (auto simp: chained_def)

lemma chained_append:
  assumes "chained f l" "chained f l'" "\<And>x y. f None y \<Longrightarrow> f (Some x) y"
  shows "chained f (l @ l')"
  using assms(2)
proof (induction l' rule: rev_induct)
  case (snoc e l')
  then have "f (last_of l') e" by simp
  then have "f (last_of (l @ l')) e" using assms(3) by (auto simp: last_of_def split: if_splits)
  then show ?case using snoc by (simp flip: append_assoc)
qed (use assms(1) in simp)

lemma last_of_snoc [simp]: "last_of (l @ [e]) = Some e"
  by (simp add: last_of_def)

section \<open>Fetching one part\<close>

definition holds :: "(bytes \<Rightarrow> string) \<Rightarrow> disk \<Rightarrow> string \<Rightarrow> blob \<Rightarrow> bool" where
  "holds digest d path b \<longleftrightarrow> (\<exists>bs. files d path = Some bs \<and> length bs = b_size b \<and> digest bs = b_sha256 b)"

lemma holds_cong: "files d path = files d' path \<Longrightarrow> holds digest d path b = holds digest d' path b"
  by (simp add: holds_def)

context part_transport
begin

lemma fetched_holds:
  assumes "download n t b tmp d1 = (d2, Inr ())"
  shows "holds digest (rename_file tmp path d2) path b"
  using download_exact [OF assms] by (auto simp: holds_def rename_file_def)

lemma fetched_frame:
  assumes "create_new tmp d = (d1, Inr u)" "download n t b tmp d1 = (d2, r)" "files d q \<noteq> None" "q \<noteq> path"
  shows "files (rename_file tmp path d2) q = files d q"
  using assms download_frame [of q tmp n t b d1] by (auto simp: rename_file_def create_new_Inr)

lemma dropped_frame:
  assumes "create_new tmp d = (d1, Inr u)" "download n t b tmp d1 = (d2, r)"
  shows "files (remove_file tmp d2) = files d"
proof
  fix q show "files (remove_file tmp d2) q = files d q"
    using assms download_frame [of q tmp n t b d1] by (auto simp: remove_file_def create_new_Inr)
qed

end

lemma fetched_from:
  "http_download (net_at E n) p t b tmp d1 = (d2, Inr ()) \<Longrightarrow> holds (pn_digest E) (rename_file tmp path d2) path b"
  unfolding net_at_def by (rule http_parts.fetched_holds)

lemma fetched_others:
  "create_new tmp d = (d1, Inr u) \<Longrightarrow> http_download (net_at E n) p t b tmp d1 = (d2, r) \<Longrightarrow> files d q \<noteq> None
    \<Longrightarrow> q \<noteq> path \<Longrightarrow> files (rename_file tmp path d2) q = files d q"
  unfolding net_at_def by (rule http_parts.fetched_frame)

lemma dropped_others:
  "create_new tmp d = (d1, Inr u) \<Longrightarrow> http_download (net_at E n) p t b tmp d1 = (d2, r)
    \<Longrightarrow> files (remove_file tmp d2) = files d"
  unfolding net_at_def by (rule http_parts.dropped_frame)

section \<open>The invariant\<close>

definition assigned :: "manifest \<Rightarrow> target \<Rightarrow> blob \<Rightarrow> bool" where
  "assigned m t b \<longleftrightarrow> (\<exists>pt \<in> set (m_parts m). \<exists>n \<in> set (pt_targets pt). t = target_of n \<and> b = part_blob pt)"

definition upload_authorised :: "penv \<Rightarrow> repair_args \<Rightarrow> manifest \<Rightarrow> target \<Rightarrow> blob \<Rightarrow> string \<Rightarrow> bool" where
  "upload_authorised E args m t b header \<longleftrightarrow>
     (\<exists>pt \<in> set (m_parts m). \<exists>n \<in> set (pt_targets pt). \<exists>request signature ev now now'.
        t = target_of n \<and> b = part_blob pt \<and> upload_template (rl (pe E)) args pt n now = Inr request
        \<and> verify_return (rl (pe E)) signature request now' = Inr ev
        \<and> header = nostr_header (rl (pe E)) (event_to_json (rl (pe E)) ev))"

fun is_checked :: "peffect option \<Rightarrow> bool" where
  "is_checked (Some (P_Checked now)) = True"
| "is_checked _ = False"

fun entry_ok :: "penv \<Rightarrow> repair_args \<Rightarrow> manifest \<Rightarrow> peffect option \<Rightarrow> peffect \<Rightarrow> bool" where
  "entry_ok E args m prev (P_Checked now) = (now < ra_expires_at args)"
| "entry_ok E args m prev (P_Verify t b r) = (is_checked prev \<and> assigned m t b)"
| "entry_ok E args m prev (P_Download t b r) = (is_checked prev \<and> assigned m t b)"
| "entry_ok E args m prev (P_Sign request) = (is_checked prev \<and> \<not> check_only args)"
| "entry_ok E args m prev (P_Upload t b content header r) =
     (is_checked prev \<and> \<not> check_only args \<and> upload_authorised E args m t b header
      \<and> (\<exists>bs. content = Some bs \<and> length bs = b_size b \<and> pn_digest E bs = b_sha256 b))"

fun moved :: "peffect \<Rightarrow> nat" where
  "moved (P_Checked now) = 0"
| "moved (P_Verify t b r) = b_size b"
| "moved (P_Download t b r) = b_size b"
| "moved (P_Sign request) = 0"
| "moved (P_Upload t b content header r) = b_size b"

fun is_upload :: "peffect \<Rightarrow> bool" where
  "is_upload (P_Upload t b content header r) = True"
| "is_upload _ = False"

definition part_evidence :: "peffect list \<Rightarrow> part \<Rightarrow> node \<Rightarrow> bool" where
  "part_evidence l pt n \<longleftrightarrow> P_Verify (target_of n) (part_blob pt) (Inr ()) \<in> set l
     \<or> P_Download (target_of n) (part_blob pt) (Inr ()) \<in> set l"

definition groups_seen :: "manifest \<Rightarrow> peffect list \<Rightarrow> string set list \<Rightarrow> bool" where
  "groups_seen m l gs \<longleftrightarrow> length gs = m_total m
     \<and> (\<forall>i < m_total m. gs ! i \<subseteq> n_failure_group ` {n \<in> set (pt_targets (m_parts m ! i)). part_evidence l (m_parts m ! i) n})"

definition nodes_seen :: "manifest \<Rightarrow> peffect list \<Rightarrow> node_report list \<Rightarrow> bool" where
  "nodes_seen m l rs \<longleftrightarrow> (\<forall>r \<in> set rs. nr_state r = ''verified'' \<longrightarrow>
     (\<exists>pt \<in> set (m_parts m). \<exists>n \<in> set (pt_targets pt). n_id n = nr_id r \<and> part_evidence l pt n))"

definition custody :: "penv \<Rightarrow> manifest \<Rightarrow> string \<Rightarrow> disk \<Rightarrow> (nat \<times> string) list \<Rightarrow> bool" where
  "custody E m temp d sources \<longleftrightarrow> distinct (map fst sources)
     \<and> (\<forall>(i, path) \<in> set sources. i < m_total m \<and> path = source_path temp i
          \<and> holds (pn_digest E) d path (part_blob (m_parts m ! i)))"

definition pool_log_ok :: "penv \<Rightarrow> repair_args \<Rightarrow> manifest \<Rightarrow> peffect list \<Rightarrow> nat \<Rightarrow> bool" where
  "pool_log_ok E args m l k \<longleftrightarrow> chained (entry_ok E args m) l \<and> sum_list (map moved l) + k \<le> transfer_budget_bytes args"

definition failed :: "penv \<Rightarrow> repair_args \<Rightarrow> manifest \<Rightarrow> peffect list \<Rightarrow> rerror \<Rightarrow> pworld \<Rightarrow> bool" where
  "failed E args m L0 e w \<longleftrightarrow> e \<noteq> Panic \<and> (\<exists>l. pw_log w = L0 @ l \<and> pool_log_ok E args m l 0)"

text \<open>\<open>k\<close> is what has been reserved for calls that are still to come.\<close>

definition repair_inv ::
  "penv \<Rightarrow> repair_args \<Rightarrow> manifest \<Rightarrow> string \<Rightarrow> peffect list \<Rightarrow> nat \<Rightarrow> repair_pass_state \<Rightarrow> pworld \<Rightarrow> bool" where
  "repair_inv E args m temp L0 k st w \<longleftrightarrow>
     (\<exists>l. pw_log w = L0 @ l \<and> pool_log_ok E args m l (rp_left st + k) \<and> groups_seen m l (rp_groups st)
        \<and> nodes_seen m l (rp_nodes st) \<and> rp_uploads st = length (filter is_upload l))
     \<and> rp_left st \<le> transfer_budget_bytes args \<and> custody E m temp (pw_disk w) (rp_sources st)"

text \<open>The last thing this pass did was a successful check of its authority.\<close>

definition ready :: "peffect list \<Rightarrow> pworld \<Rightarrow> bool" where
  "ready L0 w \<longleftrightarrow> (\<exists>l. pw_log w = L0 @ l \<and> is_checked (last_of l))"

lemma part_evidence_snoc: "part_evidence l pt n \<Longrightarrow> part_evidence (l @ [e]) pt n"
  by (auto simp: part_evidence_def)

lemma groups_seen_snoc: "groups_seen m l gs \<Longrightarrow> groups_seen m (l @ [e]) gs"
proof -
  have "n_failure_group ` {n \<in> A. part_evidence l pt n} \<subseteq> n_failure_group ` {n \<in> A. part_evidence (l @ [e]) pt n}" for A pt
    using part_evidence_snoc by (intro image_mono) blast
  then show "groups_seen m l gs \<Longrightarrow> groups_seen m (l @ [e]) gs" unfolding groups_seen_def by (meson order_trans)
qed

lemma nodes_seen_snoc: "nodes_seen m l rs \<Longrightarrow> nodes_seen m (l @ [e]) rs"
  by (meson nodes_seen_def part_evidence_snoc)

lemma pool_log_ok_mono: "pool_log_ok E args m l k \<Longrightarrow> k' \<le> k \<Longrightarrow> pool_log_ok E args m l k'"
  by (simp add: pool_log_ok_def)

lemma inv_failed: "repair_inv E args m temp L0 k st w \<Longrightarrow> e \<noteq> Panic \<Longrightarrow> failed E args m L0 e w"
  by (auto simp: repair_inv_def failed_def intro: pool_log_ok_mono)

lemma inv_less: "repair_inv E args m temp L0 k st w \<Longrightarrow> k' \<le> k \<Longrightarrow> repair_inv E args m temp L0 k' st w"
  unfolding repair_inv_def by (meson add_le_cancel_left pool_log_ok_mono)

lemma inv_cong:
  "repair_inv E args m temp L0 k st w \<Longrightarrow> pw_log w' = pw_log w \<Longrightarrow> custody E m temp (pw_disk w') (rp_sources st)
     \<Longrightarrow> repair_inv E args m temp L0 k st w'"
  by (simp add: repair_inv_def)

lemma advance_simps [simp]: "pw_log (advance n w) = pw_log w" "pw_disk (advance n w) = pw_disk w"
  by (simp_all add: advance_def)

lemma inv_advance [simp]: "repair_inv E args m temp L0 k st (advance n w) = repair_inv E args m temp L0 k st w"
  by (simp add: repair_inv_def)

lemma ready_advance [simp]: "ready L0 (advance n w) = ready L0 w"
  by (simp add: ready_def)

lemma failed_advance [simp]: "failed E args m L0 e (advance n w) = failed E args m L0 e w"
  "failed E args m L0 e (w\<lparr>pw_disk := d\<rparr>) = failed E args m L0 e w"
  by (simp_all add: failed_def)

lemma failed_cong: "failed E args m L0 e w \<Longrightarrow> pw_log w' = pw_log w \<Longrightarrow> failed E args m L0 e w'"
  by (simp add: failed_def)

text \<open>One more entry of the log.\<close>

lemma inv_record:
  assumes "repair_inv E args m temp L0 (moved e + k) st w" "\<And>prev. is_checked prev \<Longrightarrow> entry_ok E args m prev e"
    "ready L0 w \<or> (\<forall>prev. entry_ok E args m prev e)" "\<not> is_upload e"
  shows "repair_inv E args m temp L0 k st (record_effect e w)"
proof -
  from assms(1) obtain l where l: "pw_log w = L0 @ l" "pool_log_ok E args m l (rp_left st + (moved e + k))"
    "groups_seen m l (rp_groups st)" "nodes_seen m l (rp_nodes st)" "rp_uploads st = length (filter is_upload l)"
    "rp_left st \<le> transfer_budget_bytes args" "custody E m temp (pw_disk w) (rp_sources st)"
    by (auto simp: repair_inv_def)
  have "entry_ok E args m (last_of l) e" using assms(2,3) l(1) by (auto simp: ready_def)
  then have "pool_log_ok E args m (l @ [e]) (rp_left st + k)" using l(2) by (simp add: pool_log_ok_def)
  then show ?thesis
    using l groups_seen_snoc nodes_seen_snoc assms(4)
    by (auto simp: repair_inv_def record_effect_def intro!: exI [of _ "l @ [e]"])
qed

section \<open>Calls\<close>

lemma wp_now_at [simp]: "wp Q X (now_at E w) = Q (clock_at (pe E) (tick (pw w))) (advance 1 w)"
  by (simp add: now_at_def)

lemma repair_check_wp:
  assumes "\<And>w' now. now < ra_expires_at args \<Longrightarrow> pw_disk w' = pw_disk w \<Longrightarrow> pw_log w' = pw_log w @ [P_Checked now] \<Longrightarrow> Q () w'"
    "\<And>e w'. e \<noteq> Panic \<Longrightarrow> pw_disk w' = pw_disk w \<Longrightarrow> pw_log w' = pw_log w \<Longrightarrow> X e w'"
  shows "wp Q X (repair_check E args bs w)"
  by (auto simp: repair_check_def record_effect_def not_le intro!: assms split: sum.splits)

lemma check_inv:
  assumes "repair_inv E args m temp L0 k st w"
  shows "wp (\<lambda>_ w'. repair_inv E args m temp L0 k st w' \<and> ready L0 w' \<and> pw_disk w' = pw_disk w
      \<and> (\<exists>now. pw_log w' = pw_log w @ [P_Checked now])) (failed E args m L0) (repair_check E args bs w)"
proof (rule repair_check_wp)
  fix w' :: pworld and now assume a: "now < ra_expires_at args" "pw_disk w' = pw_disk w" "pw_log w' = pw_log w @ [P_Checked now]"
  have "repair_inv E args m temp L0 k st (record_effect (P_Checked now) w)"
    by (rule inv_record) (use assms a(1) in simp_all)
  moreover have "pw_log w' = pw_log (record_effect (P_Checked now) w)" "pw_disk w' = pw_disk (record_effect (P_Checked now) w)"
    using a by (simp_all add: record_effect_def)
  ultimately show "repair_inv E args m temp L0 k st w' \<and> ready L0 w' \<and> pw_disk w' = pw_disk w
      \<and> (\<exists>now. pw_log w' = pw_log w @ [P_Checked now])"
    using a(2,3) assms by (auto simp: repair_inv_def ready_def)
next
  fix e and w' :: pworld assume "e \<noteq> Panic" "pw_log w' = pw_log w"
  then show "failed E args m L0 e w'" using inv_failed [OF assms] by (simp add: failed_def)
qed

lemma reserve_inv:
  assumes "repair_inv E args m temp L0 0 st w" "reserve (rp_left st) n = Inr left"
  shows "repair_inv E args m temp L0 n (st\<lparr>rp_left := left\<rparr>) w"
  using assms by (auto simp: repair_inv_def reserve_def split: if_splits)

lemma reserve_error: "reserve left n = Inl e \<Longrightarrow> e \<noteq> Panic"
  by (auto simp: reserve_def split: if_splits)

definition evidenced :: "peffect list \<Rightarrow> pworld \<Rightarrow> part \<Rightarrow> node \<Rightarrow> bool" where
  "evidenced L0 w pt n \<longleftrightarrow> (\<exists>l. pw_log w = L0 @ l \<and> part_evidence l pt n)"

lemma evidenced_snoc: "evidenced L0 w pt n \<Longrightarrow> pw_log w' = pw_log w @ [e] \<Longrightarrow> evidenced L0 w' pt n"
  by (auto simp: evidenced_def dest: part_evidence_snoc)

lemma assignedI: "pt \<in> set (m_parts m) \<Longrightarrow> n \<in> set (pt_targets pt) \<Longrightarrow> assigned m (target_of n) (part_blob pt)"
  by (auto simp: assigned_def)

lemma part_blob_size [simp]: "b_size (part_blob pt) = pt_size pt"
  by (simp add: part_blob_def)

lemma verify_inv:
  assumes "repair_inv E args m temp L0 (pt_size pt + k) st w" "ready L0 w" "pt \<in> set (m_parts m)" "n \<in> set (pt_targets pt)"
  shows "wp (\<lambda>r w'. repair_inv E args m temp L0 k st w' \<and> pw_disk w' = pw_disk w \<and> (is_ok r \<longrightarrow> evidenced L0 w' pt n)) X
    (verify_node E p (target_of n) (part_blob pt) w)"
proof -
  let ?r = "http_verify (net_at E (tick (pw w))) p (target_of n) (part_blob pt)"
  let ?e = "P_Verify (target_of n) (part_blob pt) ?r"
  have "repair_inv E args m temp L0 k st (record_effect ?e (advance 1 w))"
    by (rule inv_record) (use assms assignedI in simp_all)
  moreover have "evidenced L0 (record_effect ?e (advance 1 w)) pt n" if "is_ok ?r"
    using that assms(2) by (cases ?r) (auto simp: evidenced_def ready_def record_effect_def part_evidence_def)
  ultimately show ?thesis by (simp add: verify_node_def Let_def) (simp add: record_effect_def)
qed

lemma download_inv:
  assumes "repair_inv E args m temp L0 (pt_size pt + k) st w" "ready L0 w" "pt \<in> set (m_parts m)" "n \<in> set (pt_targets pt)"
    "http_download (net_at E (tick (pw w))) p (target_of n) (part_blob pt) path (pw_disk w) = (d, r)"
    "custody E m temp d' (rp_sources st)"
  shows "repair_inv E args m temp L0 k st ((record_effect (P_Download (target_of n) (part_blob pt) r) (advance 1 w))\<lparr>pw_disk := d'\<rparr>)"
    and "r = Inr () \<Longrightarrow> evidenced L0 (record_effect (P_Download (target_of n) (part_blob pt) r) (advance 1 w)) pt n"
proof -
  let ?e = "P_Download (target_of n) (part_blob pt) r"
  have "repair_inv E args m temp L0 k st (record_effect ?e (advance 1 w))"
    by (rule inv_record) (use assms assignedI in simp_all)
  then show "repair_inv E args m temp L0 k st ((record_effect ?e (advance 1 w))\<lparr>pw_disk := d'\<rparr>)"
    by (rule inv_cong) (use assms(6) in simp_all)
  show "evidenced L0 (record_effect ?e (advance 1 w)) pt n" if "r = Inr ()"
    using that assms(2) by (auto simp: evidenced_def ready_def record_effect_def part_evidence_def)
qed

section \<open>What the pass notes down\<close>

lemma observe_node_set: "r \<in> set (observe_node ns i st) \<Longrightarrow> r \<in> set ns \<or> nr_id r = i \<and> nr_state r = st"
  by (induction ns i st rule: observe_node.induct) (auto split: if_splits)

lemma see_node_simps [simp]: "rp_left (see_node n state st) = rp_left st" "rp_groups (see_node n state st) = rp_groups st"
  "rp_sources (see_node n state st) = rp_sources st" "rp_uploads (see_node n state st) = rp_uploads st"
  by (simp_all add: see_node_def)

lemma count_group_simps [simp]: "rp_left (count_group pt n st) = rp_left st" "rp_nodes (count_group pt n st) = rp_nodes st"
  "rp_sources (count_group pt n st) = rp_sources st" "rp_uploads (count_group pt n st) = rp_uploads st"
  by (simp_all add: count_group_def)

lemma see_unavailable_inv:
  "repair_inv E args m temp L0 k st w \<Longrightarrow> repair_inv E args m temp L0 k (see_node n ''unavailable'' st) w"
proof -
  have "nodes_seen m l (rp_nodes (see_node n ''unavailable'' st))" if "nodes_seen m l (rp_nodes st)" for l
    using that observe_node_set [of _ "rp_nodes st" "n_id n" "''unavailable''"] by (fastforce simp: nodes_seen_def see_node_def)
  then show "repair_inv E args m temp L0 k st w \<Longrightarrow> ?thesis" by (auto simp: repair_inv_def)
qed

lemma part_at:
  assumes "pool_wf R m p" "pt \<in> set (m_parts m)"
  shows "pt_index pt < m_total m" "m_parts m ! pt_index pt = pt"
  using assms by (auto simp: pool_wf_def part_wf_def in_set_conv_nth)

lemma verified_inv:
  assumes wf: "pool_wf R m p" and inv: "repair_inv E args m temp L0 k st w" and ev: "evidenced L0 w pt n"
    and pt: "pt \<in> set (m_parts m)" "n \<in> set (pt_targets pt)"
  shows "repair_inv E args m temp L0 k (count_group pt n (see_node n ''verified'' st)) w"
proof -
  from inv obtain l where l: "pw_log w = L0 @ l" "groups_seen m l (rp_groups st)" "nodes_seen m l (rp_nodes st)"
    by (auto simp: repair_inv_def)
  have e: "part_evidence l pt n" using ev l(1) by (auto simp: evidenced_def)
  have "nodes_seen m l (rp_nodes (see_node n ''verified'' st))"
    using l(3) pt e observe_node_set [of _ "rp_nodes st" "n_id n" "''verified''"]
    unfolding nodes_seen_def see_node_def by (metis (no_types, lifting) repair_pass_state.select_convs(4)
        repair_pass_state.surjective repair_pass_state.update_convs(4))
  moreover have "groups_seen m l (rp_groups (count_group pt n (see_node n ''verified'' st)))"
    using l(2) e pt part_at [OF wf pt(1)] by (auto simp: groups_seen_def count_group_def nth_list_update)
  ultimately show ?thesis using inv l(1) by (auto simp: repair_inv_def)
qed

section \<open>Scanning\<close>

lemma source_path_inj [simp]: "source_path temp i = source_path temp j \<longleftrightarrow> i = j"
  by (simp add: source_path_def show_nat_inj)

lemma custody_cong:
  assumes "custody E m temp d sources" "\<And>i q. (i, q) \<in> set sources \<Longrightarrow> files d q \<noteq> None \<Longrightarrow> files d' q = files d q"
  shows "custody E m temp d' sources"
proof -
  have "holds (pn_digest E) d' q b" if "(i, q) \<in> set sources" "holds (pn_digest E) d q b" for i q b
    using that assms(2) [OF that(1)] by (auto simp: holds_def)
  then show ?thesis using assms(1) by (fastforce simp: custody_def)
qed

lemma custody_add:
  assumes "custody E m temp d sources" "i < m_total m" "i \<notin> fst ` set sources"
    "holds (pn_digest E) d' (source_path temp i) (part_blob (m_parts m ! i))"
    "\<And>q. files d q \<noteq> None \<Longrightarrow> q \<noteq> source_path temp i \<Longrightarrow> files d' q = files d q"
  shows "custody E m temp d' (sources @ [(i, source_path temp i)])"
proof -
  have "custody E m temp d' sources"
  proof (rule custody_cong [OF assms(1)])
    fix j q assume q: "(j, q) \<in> set sources" "files d q \<noteq> None"
    then have "q = source_path temp j" "j \<in> fst ` set sources" using assms(1) by (auto simp: custody_def intro: rev_image_eqI)
    moreover have "j \<noteq> i" using calculation(2) assms(3) by blast
    ultimately show "files d' q = files d q" using assms(5) q(2) by simp
  qed
  then show ?thesis using assms(2-4) by (auto simp: custody_def)
qed

text \<open>The sources change by at most the part at hand, and only on success.\<close>

definition grown :: "part \<Rightarrow> repair_pass_state \<Rightarrow> repair_pass_state \<Rightarrow> bool" where
  "grown pt st st' \<longleftrightarrow> fst ` set (rp_sources st') \<subseteq> insert (pt_index pt) (fst ` set (rp_sources st))"

lemma fetch_inv:
  assumes wf: "pool_wf R m p" and inv: "repair_inv E args m temp L0 (pt_size pt) st w" and ready: "ready L0 w"
    and pt: "pt \<in> set (m_parts m)" "n \<in> set (pt_targets pt)"
    and fresh: "\<not> stored \<Longrightarrow> pt_index pt \<notin> fst ` set (rp_sources st)"
  shows "wp (\<lambda>(ok, st') w'. repair_inv E args m temp L0 0 st' w' \<and> (ok \<longrightarrow> evidenced L0 w' pt n)
      \<and> grown pt st st' \<and> (\<not> ok \<longrightarrow> rp_sources st' = rp_sources st)) (failed E args m L0)
    (fetch_node E p temp pt n stored st w)"
proof (cases stored)
  case True
  have "wp (\<lambda>r w'. repair_inv E args m temp L0 0 st w' \<and> pw_disk w' = pw_disk w \<and> (is_ok r \<longrightarrow> evidenced L0 w' pt n))
      (failed E args m L0) (verify_node E p (target_of n) (part_blob pt) w)"
    by (rule verify_inv) (use inv ready pt in simp_all)
  then show ?thesis using True by (auto simp: fetch_node_def grown_def elim!: wp_mono)
next
  case False
  define path where "path = path_join temp (pn_tmp_name E (tick (pw w)))"
  obtain d1 c where c: "create_new path (pw_disk w) = (d1, c)" by (cases "create_new path (pw_disk w)")
  show ?thesis
  proof (cases c)
    case (Inl e)
    then show ?thesis
      using False c inv_failed [OF inv] by (simp add: fetch_node_def Let_def path_def)
  next
    case (Inr u)
    let ?w = "advance 1 (w\<lparr>pw_disk := d1\<rparr>)" and ?t = "target_of n" and ?b = "part_blob pt"
    obtain d2 r where r: "http_download (net_at E (tick (pw ?w))) p ?t ?b path d1 = (d2, r)"
      by (cases "http_download (net_at E (tick (pw ?w))) p ?t ?b path d1")
    have cus: "custody E m temp (pw_disk w) (rp_sources st)" using inv by (simp add: repair_inv_def)
    have old: "custody E m temp d1 (rp_sources st)"
      by (rule custody_cong [OF cus]) (use c Inr in \<open>auto simp: create_new_Inr\<close>)
    have inv': "repair_inv E args m temp L0 (pt_size pt + 0) st ?w" "ready L0 ?w"
      using inv ready old by (auto simp: repair_inv_def ready_def)
    note dl = download_inv [OF inv' pt, of p path d2 r]
    have dropped: "custody E m temp (remove_file path d2) (rp_sources st)"
      by (rule custody_cong [OF cus]) (use dropped_others [OF _ r] c Inr in simp)
    have kept: "custody E m temp (rename_file path (source_path temp (pt_index pt)) d2)
        (rp_sources st @ [(pt_index pt, source_path temp (pt_index pt))])" if "r = Inr ()"
    proof (rule custody_add [OF cus part_at(1) [OF wf pt(1)] fresh [OF False]])
      show "holds (pn_digest E) (rename_file path (source_path temp (pt_index pt)) d2) (source_path temp (pt_index pt))
          (part_blob (m_parts m ! pt_index pt))"
        using fetched_from r that part_at(2) [OF wf pt(1)] by simp
    qed (use fetched_others [OF _ r] c Inr in simp)
    let ?w2 = "record_effect (P_Download ?t ?b r) (advance 1 (?w\<lparr>pw_disk := d2\<rparr>))"
    have run: "fetch_node E p temp pt n stored st w = (case r of
          Inl (Remote failure) \<Rightarrow> (?w2\<lparr>pw_disk := remove_file path d2\<rparr>, Inr (False, st))
        | Inl LocalStorage \<Rightarrow> (?w2\<lparr>pw_disk := remove_file path d2\<rparr>,
            Inl (Configuration ''could not write owner repair temporary storage''))
        | Inr u \<Rightarrow> if \<not> io_at (pe E) (tick (pw ?w2)) then (advance 1 (?w2\<lparr>pw_disk := remove_file path d2\<rparr>), Inl (State S_Io))
            else (advance 1 (?w2\<lparr>pw_disk := rename_file path (source_path temp (pt_index pt)) d2\<rparr>),
              Inr (True, st\<lparr>rp_sources := rp_sources st @ [(pt_index pt, source_path temp (pt_index pt))]\<rparr>)))"
      using False c Inr r
      by (cases r) (simp_all add: fetch_node_def Let_def path_def download_node_def record_effect_def advance_def
          split: download_error.splits)
    have lost: "repair_inv E args m temp L0 0 st (?w2\<lparr>pw_disk := remove_file path d2\<rparr>)"
      by (rule inv_cong [OF dl(1)]) (use r dropped in \<open>simp_all add: record_effect_def\<close>)
    have got: "repair_inv E args m temp L0 0 (st\<lparr>rp_sources := rp_sources st @ [(pt_index pt, source_path temp (pt_index pt))]\<rparr>)
        (?w2\<lparr>pw_disk := rename_file path (source_path temp (pt_index pt)) d2\<rparr>)" "evidenced L0 ?w2 pt n" if "r = Inr ()"
      using lost kept [OF that] dl(2) r dropped that
      by (auto simp: repair_inv_def evidenced_def record_effect_def)
    then show ?thesis
      unfolding run using lost inv_failed [OF lost]
      by (cases r) (auto simp: grown_def evidenced_def split: download_error.splits)
  qed
qed

lemma index_groups:
  assumes "pool_wf R m p" "repair_inv E args m temp L0 k st w" "pt \<in> set (m_parts m)"
  shows "index_or_panic (rp_groups st) (pt_index pt) = Inr (rp_groups st ! pt_index pt)"
  using assms part_at(1) [OF assms(1,3)] by (auto simp: index_or_panic_def repair_inv_def groups_seen_def)

lemma grown_refl: "grown pt st st"
  by (auto simp: grown_def)

lemma grown_trans: "grown pt st st1 \<Longrightarrow> grown pt st1 st2 \<Longrightarrow> grown pt st st2"
  unfolding grown_def by blast

lemma scan_node_inv:
  assumes wf: "pool_wf R m p" and pt: "pt \<in> set (m_parts m)" "n \<in> set (pt_targets pt)"
    and inv: "repair_inv E args m temp L0 0 st w"
    and fresh: "\<not> stored \<Longrightarrow> pt_index pt \<notin> fst ` set (rp_sources st)"
  shows "wp (\<lambda>(ok, st') w'. repair_inv E args m temp L0 0 st' w' \<and> grown pt st st' \<and> (\<not> ok \<longrightarrow> rp_sources st' = rp_sources st))
      (failed E args m L0) (scan_node E args p bs temp pt n stored st w)"
proof -
  let ?Q = "\<lambda>(ok, st') w'. repair_inv E args m temp L0 0 st' w' \<and> grown pt st st' \<and> (\<not> ok \<longrightarrow> rp_sources st' = rp_sources st)"
  let ?k = "\<lambda>(ok, st) w. if \<not> ok then (w, Inr (False, st))
      else st_then (repair_check E args bs w) (\<lambda>_ w. (w, Inr (True, count_group pt n (see_node n ''verified'' st))))"
  let ?fetch = "\<lambda>left w. fetch_node E p temp pt n stored (see_node n ''unavailable'' (st\<lparr>rp_left := left\<rparr>)) w"
  have fetch: "wp ?Q (failed E args m L0) (st_then (?fetch left w0) ?k)"
    if r: "repair_inv E args m temp L0 (pt_size pt) (st\<lparr>rp_left := left\<rparr>) w0" "ready L0 w0" for left w0
    unfolding wp_then
  proof (rule wp_mono [OF fetch_inv [OF wf see_unavailable_inv [OF r(1)] r(2) pt]], goal_cases)
    case 1
    then show ?case using fresh by simp
  next
    case (2 res w1)
    obtain ok st1 where res: "res = (ok, st1)" by (cases res)
    have f: "repair_inv E args m temp L0 0 st1 w1" "ok \<Longrightarrow> evidenced L0 w1 pt n" "grown pt st st1"
      "\<not> ok \<Longrightarrow> rp_sources st1 = rp_sources st"
      using 2 by (auto simp: res grown_def)
    show ?case
    proof (cases ok)
      case True
      have "wp (\<lambda>_ w'. repair_inv E args m temp L0 0 (count_group pt n (see_node n ''verified'' st1)) w') (failed E args m L0)
          (repair_check E args bs w1)"
        by (rule wp_mono [OF check_inv [OF f(1)]])
          (auto intro: verified_inv [OF wf _ _ pt] evidenced_snoc [OF f(2) [OF True]])
      then show ?thesis using f(3) True by (auto simp: res grown_def elim!: wp_mono)
    qed (use f in \<open>simp add: res\<close>)
  qed
  have left: "wp (\<lambda>left w1. wp ?Q (failed E args m L0) (st_then (?fetch left w1) ?k)) (failed E args m L0)
      (w1, reserve (rp_left st) (pt_size pt))"
    if "repair_inv E args m temp L0 0 st w1" "ready L0 w1" for w1
    unfolding wp_result
    using fetch [OF reserve_inv [OF that(1)] that(2)] inv_failed [OF that(1) reserve_error] by (simp split: sum.splits)
  show ?thesis
    unfolding scan_node_def
    by (subst wp_then, rule wp_mono [OF check_inv [OF inv]]) (subst wp_then, use left in blast)
qed

lemma scan_nodes_inv:
  assumes wf: "pool_wf R m p" and pt: "pt \<in> set (m_parts m)"
  shows "set ns \<subseteq> set (pt_targets pt) \<Longrightarrow> repair_inv E args m temp L0 0 st w
    \<Longrightarrow> (\<not> stored \<Longrightarrow> pt_index pt \<notin> fst ` set (rp_sources st))
    \<Longrightarrow> wp (\<lambda>st' w'. repair_inv E args m temp L0 0 st' w' \<and> grown pt st st') (failed E args m L0)
      (scan_nodes E args p bs copies temp pt ns stored st w)"
proof (induction ns arbitrary: stored st w)
  case (Cons n ns)
  let ?P = "\<lambda>st' w'. repair_inv E args m temp L0 0 st' w' \<and> grown pt st st'"
  have sub: "set ns \<subseteq> set (pt_targets pt)" "n \<in> set (pt_targets pt)" using Cons.prems(1) by auto
  have step: "wp (\<lambda>res w1. wp ?P (failed E args m L0) ((\<lambda>(ok, st) w.
        if \<not> ok then scan_nodes E args p bs copies temp pt ns stored st w
        else if card (rp_groups st ! pt_index pt) \<ge> copies then (w, Inr st)
        else scan_nodes E args p bs copies temp pt ns True st w) res w1)) (failed E args m L0)
      (scan_node E args p bs temp pt n stored st w)"
  proof (rule wp_mono [OF scan_node_inv [OF wf pt sub(2) Cons.prems(2,3)]], goal_cases)
    case (2 res w1)
    obtain ok st1 where res: "res = (ok, st1)" by (cases res)
    have f: "repair_inv E args m temp L0 0 st1 w1" "grown pt st st1" "\<not> ok \<Longrightarrow> rp_sources st1 = rp_sources st"
      using 2 by (simp_all add: res)
    have rest: "wp ?P (failed E args m L0) (scan_nodes E args p bs copies temp pt ns stored' st1 w1)"
      if "\<not> stored' \<Longrightarrow> pt_index pt \<notin> fst ` set (rp_sources st1)" for stored'
      by (rule wp_mono [OF Cons.IH [OF sub(1) f(1) that]]) (use grown_trans [OF f(2)] in auto)
    show ?case using rest [of True] rest [of stored] f Cons.prems(3) by (simp add: res)
  qed auto
  have "wp ?P (failed E args m L0) (scan_nodes E args p bs copies temp pt ns stored st w)"
    by (rule Cons.IH [OF sub(1) Cons.prems(2,3)])
  then show ?case using step by (simp add: index_groups [OF wf Cons.prems(2) pt])
qed (simp add: grown_refl)

lemma disjoint_insert_sub: "A \<subseteq> insert x B \<Longrightarrow> x \<notin> C \<Longrightarrow> C \<inter> B = {} \<Longrightarrow> C \<inter> A = {}"
  by blast

lemma scan_parts_inv:
  assumes wf: "pool_wf R m p"
  shows "set pts \<subseteq> set (m_parts m) \<Longrightarrow> distinct (map pt_index pts) \<Longrightarrow> repair_inv E args m temp L0 0 st w
    \<Longrightarrow> pt_index ` set pts \<inter> fst ` set (rp_sources st) = {}
    \<Longrightarrow> wp (repair_inv E args m temp L0 0) (failed E args m L0) (scan_parts E args p bs copies temp pts st w)"
proof (induction pts arbitrary: st w)
  case (Cons pt pts)
  have pt: "pt \<in> set (m_parts m)" using Cons.prems(1) by simp
  have "wp (\<lambda>st' w'. repair_inv E args m temp L0 0 st' w' \<and> grown pt st st') (failed E args m L0)
      (scan_nodes E args p bs copies temp pt (pt_targets pt) False st w)"
    by (rule scan_nodes_inv [OF wf pt subset_refl Cons.prems(3)]) (use Cons.prems(4) in auto)
  then have "wp (\<lambda>st' w'. wp (repair_inv E args m temp L0 0) (failed E args m L0) (scan_parts E args p bs copies temp pts st' w'))
      (failed E args m L0) (scan_nodes E args p bs copies temp pt (pt_targets pt) False st w)"
  proof (rule wp_mono)
    fix st' w' assume a: "repair_inv E args m temp L0 0 st' w' \<and> grown pt st st'"
    have "pt_index ` set pts \<inter> fst ` set (rp_sources st') = {}"
    proof (rule disjoint_insert_sub)
      show "fst ` set (rp_sources st') \<subseteq> insert (pt_index pt) (fst ` set (rp_sources st))" using a by (simp add: grown_def)
    qed (use Cons.prems(2,4) in auto)
    then show "wp (repair_inv E args m temp L0 0) (failed E args m L0) (scan_parts E args p bs copies temp pts st' w')"
      using Cons.IH [OF _ _ conjunct1 [OF a]] Cons.prems(1,2) by simp
  qed
  then show ?case by (simp only: scan_parts.simps wp_then)
qed simp

section \<open>Restoring\<close>

definition files_ok :: "penv \<Rightarrow> manifest \<Rightarrow> disk \<Rightarrow> string list \<Rightarrow> bool" where
  "files_ok E m d fs \<longleftrightarrow> length fs = m_total m
     \<and> (\<forall>i < m_total m. holds (pn_digest E) d (fs ! i) (part_blob (m_parts m ! i)))"

lemma place_sources_Inr:
  assumes "\<forall>s \<in> set sources. fst s < length fs" "distinct (map fst sources)"
  shows "\<exists>fs'. place_sources sources fs = Inr fs' \<and> length fs' = length fs
    \<and> (\<forall>(i, path) \<in> set sources. fs' ! i = path) \<and> (\<forall>i. i \<notin> fst ` set sources \<longrightarrow> fs' ! i = fs ! i)"
  using assms
proof (induction sources arbitrary: fs)
  case (Cons s sources)
  obtain i path where s: "s = (i, path)" by (cases s)
  have "\<forall>s \<in> set sources. fst s < length (fs[i := path])" "distinct (map fst sources)" using Cons.prems by simp_all
  from Cons.IH [OF this] obtain fs' where fs': "place_sources sources (fs[i := path]) = Inr fs'"
    "length fs' = length (fs[i := path])" "\<forall>(j, q) \<in> set sources. fs' ! j = q"
    "\<forall>j. j \<notin> fst ` set sources \<longrightarrow> fs' ! j = fs[i := path] ! j"
    by (elim exE conjE)
  have i: "i \<notin> fst ` set sources" "i < length fs" using Cons.prems by (simp_all add: s)
  have "fs' ! i = path" using fs'(4) i by simp
  moreover have "fs' ! j = fs ! j" if "j \<notin> fst ` set (s # sources)" for j
    using fs'(4) that by (simp add: s)
  ultimately show ?case using fs'(1-3) i by (intro exI [of _ fs']) (simp add: s index_or_panic_def)
qed simp

text \<open>With enough sources and none left to regenerate there is a source for every part.\<close>

lemma sources_cover:
  assumes "custody E m temp d sources" "pool_wf R m p" "mode_ok m" "m_required m \<le> length sources"
    "\<not> (m_mode m = ''erasure'' \<and> length sources < m_total m)"
  shows "fst ` set sources = {..<m_total m}"
proof -
  have "m_total m \<le> length sources" using assms(3-5) by (auto simp: mode_ok_def split: if_splits)
  moreover have sub: "fst ` set sources \<subseteq> {..<m_total m}" using assms(1) by (auto simp: custody_def)
  moreover have "card (fst ` set sources) = length sources"
    using assms(1) by (metis custody_def distinct_card length_map list.set_map)
  moreover have "card (fst ` set sources) \<le> m_total m" using card_mono [OF finite_lessThan sub] by simp
  ultimately show ?thesis by (intro card_subset_eq [OF finite_lessThan sub]) simp
qed

lemma source_not_coded [simp]: "source_path temp i \<noteq> coded_path temp j"
  by (simp add: source_path_def coded_path_def)

lemma placed_files_ok:
  assumes "custody E m temp d sources" "fst ` set sources = {..<m_total m}"
  shows "\<exists>fs. place_sources sources (replicate (m_total m) []) = Inr fs \<and> files_ok E m d fs"
proof -
  have "\<forall>s \<in> set sources. fst s < length (replicate (m_total m) ([] :: string))" "distinct (map fst sources)"
    using assms(1) by (auto simp: custody_def)
  from place_sources_Inr [OF this] obtain fs where fs: "place_sources sources (replicate (m_total m) []) = Inr fs"
    "length fs = length (replicate (m_total m) ([] :: string))" "\<forall>(i, path) \<in> set sources. fs ! i = path"
    by (elim exE conjE) (rule that)
  have "holds (pn_digest E) d (fs ! i) (part_blob (m_parts m ! i))" if "i < m_total m" for i
  proof -
    have "i \<in> fst ` set sources" using assms(2) \<open>i < m_total m\<close> by simp
    then obtain path where path: "(i, path) \<in> set sources" by auto
    then have "fs ! i = path" using fs(3) by fast
    then show ?thesis using assms(1) path by (auto simp: custody_def)
  qed
  then show ?thesis using fs(1,2) by (simp add: files_ok_def)
qed

lemma regenerated_files_ok:
  assumes run: "regenerate (pn_digest E) m sources temp d = (d', Inr fs)" and wf: "pool_wf R m p"
  shows "files_ok E m d' fs" and "\<And>i. files d' (source_path temp i) = files d (source_path temp i)"
proof -
  from regenerate_outputs [OF run] obtain coded where c: "fs = coded_paths temp (m_total m)"
    "\<forall>i < m_total m. files d' (coded_path temp i) = Some (coded ! i) \<and> length (coded ! i) = pt_size (hd (m_parts m))"
    "\<forall>i < min (m_total m) (length (m_parts m)). pn_digest E (coded ! i) = pt_sha256 (m_parts m ! i)"
    by blast
  have len: "length (m_parts m) = m_total m" using wf by (simp add: pool_wf_def)
  have "pt_size (hd (m_parts m)) = pt_size (m_parts m ! i)" if "i < m_total m" for i
  proof -
    have "part_wf R m p 0 (m_parts m ! 0)" "part_wf R m p i (m_parts m ! i)" "m_parts m \<noteq> []"
      using wf that len by (auto simp: pool_wf_def)
    then show ?thesis by (simp add: part_wf_def hd_conv_nth)
  qed
  then show "files_ok E m d' fs" using c len by (simp add: files_ok_def holds_def part_blob_def)
  show "files d' (source_path temp i) = files d (source_path temp i)" for i
    using regenerate_outputs [OF run] by (metis source_not_coded)
qed

lemma wf_parts: "pool_wf R m p \<Longrightarrow> m_parts m \<noteq> []"
  by (auto simp: pool_wf_def)

lemma restore_files_inv:
  assumes wf: "pool_wf R m p" "mode_ok m" and inv: "repair_inv E args m temp L0 0 st w" and enough: "m_required m \<le> length (rp_sources st)"
  shows "wp (\<lambda>(rebuilt, fs) w'. repair_inv E args m temp L0 0 st w' \<and> files_ok E m (pw_disk w') fs) (failed E args m L0)
    (restore_files E args bs m temp st w)"
proof (cases "m_mode m = ''erasure'' \<and> length (rp_sources st) < m_total m")
  case False
  have cus: "custody E m temp (pw_disk w) (rp_sources st)" using inv by (simp add: repair_inv_def)
  then show ?thesis
    using placed_files_ok [OF cus sources_cover [OF cus wf enough False]] False inv by (auto simp: restore_files_def)
next
  case True
  have regen: "wp (\<lambda>fs w'. repair_inv E args m temp L0 0 st w' \<and> files_ok E m (pw_disk w') fs) (failed E args m L0)
      (case regenerate (pn_digest E) m (take (m_required m) (rp_sources st)) temp (pw_disk w1) of (d, r) \<Rightarrow> (w1\<lparr>pw_disk := d\<rparr>, r))"
    if i1: "repair_inv E args m temp L0 0 st w1" for w1
  proof (cases "regenerate (pn_digest E) m (take (m_required m) (rp_sources st)) temp (pw_disk w1)")
    case (Pair d r)
    have cus: "custody E m temp (pw_disk w1) (rp_sources st)" using i1 by (simp add: repair_inv_def)
    show ?thesis
    proof (cases r)
      case (Inl e)
      have "e \<noteq> Panic"
        by (rule regenerate_no_panic [OF Pair [unfolded Inl] wf_parts [OF wf(1)]])
          (use cus in \<open>auto simp: custody_def dest!: in_set_takeD\<close>)
      then show ?thesis using Pair Inl inv_failed [OF i1] by simp
    next
      case (Inr fs)
      note ok = regenerated_files_ok [OF Pair [unfolded Inr] wf(1)]
      have "custody E m temp d (rp_sources st)"
        by (rule custody_cong [OF cus]) (use cus ok(2) in \<open>auto simp: custody_def\<close>)
      then have "repair_inv E args m temp L0 0 st (w1\<lparr>pw_disk := d\<rparr>)" by (intro inv_cong [OF i1]) simp_all
      then show ?thesis using Pair Inr ok(1) by simp
    qed
  qed
  have last: "wp (\<lambda>_ w'. repair_inv E args m temp L0 0 st w' \<and> files_ok E m (pw_disk w') fs) (failed E args m L0)
      (repair_check E args bs w1)" if "repair_inv E args m temp L0 0 st w1" "files_ok E m (pw_disk w1) fs" for w1 fs
    by (rule wp_mono [OF check_inv [OF that(1)]]) (use that(2) in simp_all)
  show ?thesis
    unfolding restore_files_def if_P [OF True] wp_then
    by (rule wp_mono [OF check_inv [OF inv]], rule wp_mono [OF regen], blast)
      (use last in \<open>auto elim: wp_mono\<close>)
qed

section \<open>Uploading\<close>

lemma upload_inv:
  assumes wf: "pool_wf R m p" and inv: "repair_inv E args m temp L0 (pt_size pt + k) st w" and ready: "ready L0 w"
    and auth: "upload_authorised E args m (target_of n) (part_blob pt) header" and may: "\<not> check_only args"
    and held: "holds (pn_digest E) (pw_disk w) path (part_blob pt)"
  shows "wp (\<lambda>r w'. repair_inv E args m temp L0 k (st\<lparr>rp_uploads := rp_uploads st + 1\<rparr>) w' \<and> pw_disk w' = pw_disk w) X
    (upload_node E p (target_of n) (part_blob pt) path header w)"
proof -
  let ?r = "http_upload (net_at E (tick (pw w))) p (target_of n) (part_blob pt) path header (pw_disk w)"
  let ?e = "P_Upload (target_of n) (part_blob pt) (files (pw_disk w) path) header ?r"
  from inv obtain l where l: "pw_log w = L0 @ l" "pool_log_ok E args m l (rp_left st + (pt_size pt + k))"
    "groups_seen m l (rp_groups st)" "nodes_seen m l (rp_nodes st)" "rp_uploads st = length (filter is_upload l)"
    "rp_left st \<le> transfer_budget_bytes args" "custody E m temp (pw_disk w) (rp_sources st)"
    by (auto simp: repair_inv_def)
  have "entry_ok E args m (last_of l) ?e"
    using ready l(1) auth may held by (auto simp: ready_def holds_def)
  then have "pool_log_ok E args m (l @ [?e]) (rp_left st + k)" using l(2) by (simp add: pool_log_ok_def)
  then have "repair_inv E args m temp L0 k (st\<lparr>rp_uploads := rp_uploads st + 1\<rparr>) (record_effect ?e (advance 1 w))"
    using l groups_seen_snoc nodes_seen_snoc by (auto simp: repair_inv_def record_effect_def intro!: exI [of _ "l @ [?e]"])
  then show ?thesis by (simp add: upload_node_def Let_def) (simp add: record_effect_def)
qed

text \<open>The state after an upload phase: the invariant, and the files still hold their parts.\<close>

definition upload_ok ::
  "penv \<Rightarrow> repair_args \<Rightarrow> manifest \<Rightarrow> string \<Rightarrow> peffect list \<Rightarrow> string list \<Rightarrow> nat \<Rightarrow> repair_pass_state \<Rightarrow> pworld \<Rightarrow> bool" where
  "upload_ok E args m temp L0 fs k st w \<longleftrightarrow> repair_inv E args m temp L0 k st w \<and> files_ok E m (pw_disk w) fs"

lemma upload_ok_less: "upload_ok E args m temp L0 fs k st w \<Longrightarrow> k' \<le> k \<Longrightarrow> upload_ok E args m temp L0 fs k' st w"
  by (auto simp: upload_ok_def intro: inv_less)

lemma upload_ok_failed: "upload_ok E args m temp L0 fs k st w \<Longrightarrow> e \<noteq> Panic \<Longrightarrow> failed E args m L0 e w"
  by (auto simp: upload_ok_def intro: inv_failed)

lemma upload_ok_advance [simp]: "upload_ok E args m temp L0 fs k st (advance n w) = upload_ok E args m temp L0 fs k st w"
  by (simp add: upload_ok_def)

lemma check_upload:
  assumes "upload_ok E args m temp L0 fs k st w"
  shows "wp (\<lambda>_ w'. upload_ok E args m temp L0 fs k st w' \<and> ready L0 w' \<and> (evidenced L0 w pt n \<longrightarrow> evidenced L0 w' pt n))
    (failed E args m L0) (repair_check E args bs w)"
proof -
  have "repair_inv E args m temp L0 k st w" using assms by (simp add: upload_ok_def)
  from check_inv [OF this] show ?thesis
    by (rule wp_mono) (use assms in \<open>auto simp: upload_ok_def intro: evidenced_snoc\<close>)
qed

lemma send_upload_inv:
  assumes wf: "pool_wf R m p" and ok: "upload_ok E args m temp L0 fs (pt_size pt * 2) st w"
    and pt: "pt \<in> set (m_parts m)" "n \<in> set (pt_targets pt)"
    and auth: "upload_authorised E args m (target_of n) (part_blob pt) header" and may: "\<not> check_only args"
  shows "wp (upload_ok E args m temp L0 fs 0) (failed E args m L0) (send_upload E args p bs fs pt n header st w)"
proof -
  let ?st = "st\<lparr>rp_uploads := rp_uploads st + 1\<rparr>" and ?P = "upload_ok E args m temp L0 fs"
  have seen: "wp (\<lambda>_ w'. ?P 0 (count_group pt n (see_node n ''verified'' ?st)) w') (failed E args m L0) (repair_check E args bs w1)"
    if "?P 0 ?st w1" "evidenced L0 w1 pt n" for w1
    by (rule wp_mono [OF check_upload [OF that(1), of pt n]]) (use that(2) verified_inv [OF wf _ _ pt] in \<open>auto simp: upload_ok_def\<close>)
  have read: "wp (\<lambda>r w'. ?P 0 ?st w' \<and> (is_ok r \<longrightarrow> evidenced L0 w' pt n)) (failed E args m L0)
      (verify_node E p (target_of n) (part_blob pt) w1)" if "?P (pt_size pt) ?st w1" "ready L0 w1" for w1
  proof -
    have "repair_inv E args m temp L0 (pt_size pt + 0) ?st w1" using that(1) by (simp add: upload_ok_def)
    from verify_inv [OF this that(2) pt] show ?thesis by (rule wp_mono) (use that(1) in \<open>auto simp: upload_ok_def\<close>)
  qed
  have sent: "wp (\<lambda>r w'. ?P (pt_size pt) ?st w') (failed E args m L0)
      (upload_node E p (target_of n) (part_blob pt) (fs ! pt_index pt) header w1)" if "?P (pt_size pt * 2) st w1" "ready L0 w1" for w1
  proof -
    have "repair_inv E args m temp L0 (pt_size pt + pt_size pt) st w1" using that(1) by (simp add: upload_ok_def mult_2_right)
    moreover have "holds (pn_digest E) (pw_disk w1) (fs ! pt_index pt) (part_blob pt)"
      using that(1) part_at [OF wf pt(1)] by (auto simp: upload_ok_def files_ok_def)
    ultimately show ?thesis
      by (intro wp_mono [OF upload_inv [OF wf _ that(2) auth may]]) (use that(1) in \<open>auto simp: upload_ok_def\<close>)
  qed
  have idx: "index_or_panic fs (pt_index pt) = Inr (fs ! pt_index pt)"
    using ok part_at(1) [OF wf pt(1)] by (simp add: upload_ok_def files_ok_def index_or_panic_def)
  have verify: "wp (?P 0) (failed E args m L0) (st_then (verify_node E p (target_of n) (part_blob pt) w1) (\<lambda>r w.
        if is_err r then (w, Inr ?st) else st_then (repair_check E args bs w) (\<lambda>_ w.
          (w, Inr (count_group pt n (see_node n ''verified'' ?st))))))" if "?P (pt_size pt) ?st w1" "ready L0 w1" for w1
    unfolding wp_then by (rule wp_mono [OF read [OF that]]) (use seen in \<open>auto simp: is_err_def\<close>)
  have again: "wp (?P 0) (failed E args m L0) (st_then (repair_check E args bs w1) (\<lambda>_ w.
        st_then (verify_node E p (target_of n) (part_blob pt) w) (\<lambda>r w.
          if is_err r then (w, Inr ?st) else st_then (repair_check E args bs w) (\<lambda>_ w.
            (w, Inr (count_group pt n (see_node n ''verified'' ?st)))))))" if "?P (pt_size pt) ?st w1" for w1
    by (subst wp_then, rule wp_mono [OF check_upload [OF that]]) (use verify in blast)+
  show ?thesis
    unfolding send_upload_def Let_def
    by (subst wp_then, rule wp_mono [OF check_upload [OF ok]], subst idx, simp only: st_then_simps,
        subst wp_then, rule wp_mono [OF sent])
      (use again upload_ok_less in \<open>auto simp: is_err_def\<close>)
qed

lemma template_error: "upload_template R args pt n now = Inl e \<Longrightarrow> e = Internal"
  by (auto simp: upload_template_def try_then_Inl ok_or_def split: option.splits)

lemma sign_upload:
  assumes "upload_ok E args m temp L0 fs k st w" "ready L0 w" "\<not> check_only args"
  shows "wp (\<lambda>_ w'. upload_ok E args m temp L0 fs k st w') X (sign_request E args request w)"
proof -
  have "repair_inv E args m temp L0 k st (record_effect (P_Sign request) (advance 1 w))"
    by (rule inv_record) (use assms in \<open>simp_all add: upload_ok_def\<close>)
  then show ?thesis using assms(1) by (simp add: sign_request_def upload_ok_def) (simp add: record_effect_def)
qed

lemma upload_one_inv:
  assumes wf: "pool_wf R m p" and ok: "upload_ok E args m temp L0 fs 0 st w"
    and pt: "pt \<in> set (m_parts m)" "n \<in> set (pt_targets pt)" and may: "\<not> check_only args"
  shows "wp (upload_ok E args m temp L0 fs 0) (failed E args m L0) (upload_one E args p bs fs pt n st w)"
proof -
  let ?P = "upload_ok E args m temp L0 fs"
  let ?send = "\<lambda>st request signature now w. case verify_return (rl (pe E)) signature request now of
      Inl e \<Rightarrow> (w, Inr st)
    | Inr ev \<Rightarrow> send_upload E args p bs fs pt n (nostr_header (rl (pe E)) (event_to_json (rl (pe E)) ev)) st w"
  let ?answer = "\<lambda>st request returned w. case returned of
      None \<Rightarrow> (w, Inr st) | Some signature \<Rightarrow> st_then (now_at E w) (\<lambda>now w. ?send st request signature now w)"
  have send: "wp (?P 0) (failed E args m L0) (?send st1 request signature now' w1)"
    if "?P (pt_size pt * 2) st1 w1" "upload_template (rl (pe E)) args pt n now = Inr request" for st1 w1 request signature now now'
  proof (cases "verify_return (rl (pe E)) signature request now'")
    case (Inr ev)
    have "upload_authorised E args m (target_of n) (part_blob pt) (nostr_header (rl (pe E)) (event_to_json (rl (pe E)) ev))"
      unfolding upload_authorised_def using pt that(2) Inr by blast
    then show ?thesis using Inr send_upload_inv [OF wf that(1) pt _ may] by simp
  qed (use upload_ok_less [OF that(1)] in simp)
  have answer: "wp (?P 0) (failed E args m L0) (?answer st1 request returned w1)"
    if "?P (pt_size pt * 2) st1 w1" "upload_template (rl (pe E)) args pt n now = Inr request" for st1 w1 request returned now
    using send [OF _ that(2)] that(1) upload_ok_less [OF that(1)] by (simp split: option.split)
  have signed: "wp (?P 0) (failed E args m L0) (st_then (sign_request E args request w1) (\<lambda>returned w.
        st_then (repair_check E args bs w) (\<lambda>_ w. ?answer st1 request returned w)))"
    if "?P (pt_size pt * 2) st1 w1" "ready L0 w1" "upload_template (rl (pe E)) args pt n now = Inr request" for st1 w1 request now
  proof (subst wp_then, rule wp_mono [OF sign_upload [OF that(1,2) may]])
    fix returned w2 assume a: "?P (pt_size pt * 2) st1 w2"
    show "wp (?P 0) (failed E args m L0) (st_then (repair_check E args bs w2) (\<lambda>_ w. ?answer st1 request returned w))"
      by (subst wp_then, rule wp_mono [OF check_upload [OF a]]) (use answer [OF _ that(3)] in blast)+
  qed assumption
  have asked: "wp (?P 0) (failed E args m L0) (st_then (w1, upload_template (rl (pe E)) args pt n now) (\<lambda>request w.
        st_then (sign_request E args request w) (\<lambda>returned w.
        st_then (repair_check E args bs w) (\<lambda>_ w. ?answer st1 request returned w))))"
    if "?P (pt_size pt * 2) st1 w1" "ready L0 w1" for st1 w1 now
    using signed [OF that] upload_ok_failed [OF that(1)] template_error [of "rl (pe E)" args pt n now]
    by (cases "upload_template (rl (pe E)) args pt n now") auto
  have reserved: "?P (pt_size pt * 2) (st\<lparr>rp_left := left\<rparr>) w1"
    if "?P 0 st w1" "reserve (rp_left st) (pt_size pt * 2) = Inr left" for w1 left
    using reserve_inv [OF _ that(2)] that(1) by (auto simp: upload_ok_def)
  have final: "wp (?P 0) (failed E args m L0) (st_then (w1, reserve (rp_left st) (pt_size pt * 2)) (\<lambda>left w.
        st_then (now_at E w) (\<lambda>now w.
        st_then (w, upload_template (rl (pe E)) args pt n now) (\<lambda>request w.
        st_then (sign_request E args request w) (\<lambda>returned w.
        st_then (repair_check E args bs w) (\<lambda>_ w. ?answer (st\<lparr>rp_left := left\<rparr>) request returned w))))))"
    if "?P 0 st w1" "ready L0 w1" for w1
    using asked [OF _ _, of _ "advance 1 w1"] reserved [OF that(1)] that upload_ok_failed [OF that(1) reserve_error]
    by (cases "reserve (rp_left st) (pt_size pt * 2)") (simp_all add: now_at_def)
  show ?thesis
    unfolding upload_one_def Let_def
    by (subst wp_then, rule wp_mono [OF check_upload [OF ok]]) (use final in blast)+
qed

lemma upload_nodes_inv:
  assumes wf: "pool_wf R m p" and pt: "pt \<in> set (m_parts m)" and may: "\<not> check_only args"
  shows "set ns \<subseteq> set (pt_targets pt) \<Longrightarrow> upload_ok E args m temp L0 fs 0 st w
    \<Longrightarrow> wp (upload_ok E args m temp L0 fs 0) (failed E args m L0) (upload_nodes E args p bs copies fs pt ns st w)"
proof (induction ns arbitrary: st w)
  case (Cons n ns)
  have sub: "set ns \<subseteq> set (pt_targets pt)" "n \<in> set (pt_targets pt)" using Cons.prems(1) by auto
  have ig: "index_or_panic (rp_groups st) (pt_index pt) = Inr (rp_groups st ! pt_index pt)"
    using Cons.prems(2) index_groups [OF wf _ pt] by (auto simp: upload_ok_def)
  have "wp (\<lambda>st w. wp (upload_ok E args m temp L0 fs 0) (failed E args m L0) (upload_nodes E args p bs copies fs pt ns st w))
      (failed E args m L0) (upload_one E args p bs fs pt n st w)"
    by (rule wp_mono [OF upload_one_inv [OF wf Cons.prems(2) pt sub(2) may]]) (rule Cons.IH [OF sub(1)])
  then show ?case using Cons.IH [OF sub(1) Cons.prems(2)] Cons.prems(2) by (simp add: ig)
qed simp

lemma upload_parts_inv:
  assumes wf: "pool_wf R m p" and may: "\<not> check_only args"
  shows "set pts \<subseteq> set (m_parts m) \<Longrightarrow> upload_ok E args m temp L0 fs 0 st w
    \<Longrightarrow> wp (upload_ok E args m temp L0 fs 0) (failed E args m L0) (upload_parts E args p bs copies fs pts st w)"
proof (induction pts arbitrary: st w)
  case (Cons pt pts)
  have "wp (\<lambda>st w. wp (upload_ok E args m temp L0 fs 0) (failed E args m L0) (upload_parts E args p bs copies fs pts st w))
      (failed E args m L0) (upload_nodes E args p bs copies fs pt (pt_targets pt) st w)"
    by (rule wp_mono [OF upload_nodes_inv [OF wf _ may subset_refl Cons.prems(2)]]) (use Cons in auto)
  then show ?case by simp
qed simp

section \<open>The pass\<close>

lemma restore_phase_inv:
  assumes wf: "pool_wf R m p" "mode_ok m" and inv: "repair_inv E args m temp L0 0 st w"
  shows "wp (\<lambda>(rebuilt, st) w. repair_inv E args m temp L0 0 st w) (failed E args m L0) (restore_phase E args p bs m temp st w)"
proof (cases "\<not> check_only args \<and> m_required m \<le> length (rp_sources st) \<and> (\<exists>g \<in> set (rp_groups st). card g < m_copies m)")
  case True
  have up: "wp (\<lambda>st w. repair_inv E args m temp L0 0 st w) (failed E args m L0) (upload_parts E args p bs (m_copies m) fs (m_parts m) st w1)"
    if "repair_inv E args m temp L0 0 st w1" "files_ok E m (pw_disk w1) fs" for fs w1
    by (rule wp_mono [OF upload_parts_inv [OF wf(1) _ subset_refl]]) (use True that in \<open>auto simp: upload_ok_def\<close>)
  have "wp (\<lambda>(rebuilt, fs) w1. wp (\<lambda>(rebuilt, st) w. repair_inv E args m temp L0 0 st w) (failed E args m L0)
        (st_then (upload_parts E args p bs (m_copies m) fs (m_parts m) st w1) (\<lambda>st w. (w, Inr (rebuilt, st)))))
      (failed E args m L0) (restore_files E args bs m temp st w)"
    by (rule wp_mono [OF restore_files_inv [OF wf inv]]) (use True up in auto)
  then show ?thesis using True by (simp add: restore_phase_def case_prod_unfold)
next
  case False
  then show ?thesis using inv by (auto simp: restore_phase_def)
qed

lemma first_inv:
  assumes "pool_wf R m p" "pw_log w = L0 @ [P_Checked now]" "now < ra_expires_at args"
  shows "repair_inv E args m temp L0 0 (first_state args m) w"
  using assms by (auto simp: repair_inv_def first_state_def pool_log_ok_def groups_seen_def nodes_seen_def first_nodes_def
      custody_def chained_snoc [of _ "[]", simplified])

text \<open>
  A pass over a validated receipt: the report is the one of a state in the invariant; a failed
  pass did not panic and left a log in order.
\<close>

lemma repair_pass_inv:
  assumes wf: "pool_wf R m p" "mode_ok m"
  shows "wp (\<lambda>r w'. \<exists>st temp rebuilt now. repair_inv E args m temp (pw_log w) 0 st w' \<and> r = repair_report_of args m rebuilt now st)
    (failed E args m (pw_log w)) (repair_pass E args p bs m w)"
proof -
  let ?L = "pw_log w"
  let ?Q = "\<lambda>r w'. \<exists>st temp rebuilt now. repair_inv E args m temp ?L 0 st w' \<and> r = repair_report_of args m rebuilt now st"
  have fin: "wp ?Q (failed E args m ?L) (st_then (repair_check E args bs w1) (\<lambda>_ w.
      st_then (now_at E w) (\<lambda>now w. (w, Inr (repair_report_of args m rebuilt now st)))))"
    if "repair_inv E args m temp ?L 0 st w1" for temp st rebuilt w1
    unfolding wp_then by (rule wp_mono [OF check_inv [OF that]]) (auto intro: exI)
  have rest: "wp ?Q (failed E args m ?L) (st_then (restore_phase E args p bs m temp st w1) (\<lambda>(rebuilt, st) w.
      st_then (repair_check E args bs w) (\<lambda>_ w.
      st_then (now_at E w) (\<lambda>now w. (w, Inr (repair_report_of args m rebuilt now st))))))"
    if "repair_inv E args m temp ?L 0 st w1" for temp st w1
    by (subst wp_then, rule wp_mono [OF restore_phase_inv [OF wf that]]) (use fin in auto)
  have parts: "distinct (map pt_index (m_parts m))"
    using wf(1) by (auto simp: pool_wf_def part_wf_def distinct_conv_nth)
  have scan: "wp ?Q (failed E args m ?L) (st_then (scan_parts E args p bs (m_copies m) temp (m_parts m) (first_state args m) w1) (\<lambda>st w.
      st_then (restore_phase E args p bs m temp st w) (\<lambda>(rebuilt, st) w.
      st_then (repair_check E args bs w) (\<lambda>_ w.
      st_then (now_at E w) (\<lambda>now w. (w, Inr (repair_report_of args m rebuilt now st)))))))"
    if "repair_inv E args m temp ?L 0 (first_state args m) w1" for temp w1
    by (subst wp_then, rule wp_mono [OF scan_parts_inv [OF wf(1) subset_refl parts that]])
      (use rest in \<open>auto simp: first_state_def\<close>)
  have disk: "required_disk m = Inl e \<Longrightarrow> e \<noteq> Panic" for e
    using wf_parts [OF wf(1)] by (auto simp: required_disk_def Let_def split: list.splits if_splits)
  show ?thesis
  proof (unfold repair_pass_def, subst wp_then, rule repair_check_wp, goal_cases)
    case (1 w1 now)
    have i: "repair_inv E args m temp ?L 0 (first_state args m) (w1\<lparr>pw_disk := d\<rparr>)" for temp d
      by (rule first_inv [OF wf(1)]) (use 1 in simp_all)
    then have f: "e \<noteq> Panic \<Longrightarrow> failed E args m ?L e w1" for e
      using inv_failed [OF i, of e] by simp
    show ?case
      using scan [OF i [THEN inv_advance [THEN iffD2]]] f disk
      by (cases "required_disk m") (auto split: option.split)
  next
    case (2 e w1)
    then show ?case by (auto simp: failed_def pool_log_ok_def)
  qed
qed

end
