(* ===== verification/Replica_Engine.thy ===== *)
theory Replica_Engine
  imports Replica_State
begin

text \<open>
  One maintenance pass of the replica coordinator: \<open>crates/wildbloomd/src/replicas/engine.rs\<close>.
  Every call that reads the clock, the policy file, the network or the signer takes its answer from
  the environment at the current step, so the policy may change or the network may fail between any
  two calls. \<open>Signer\<close> and \<open>Transport\<close> are the traits of \<open>signer.rs\<close> and \<open>transport.rs\<close>.
\<close>

section \<open>Calls\<close>

definition clock_now :: "renv \<Rightarrow> rworld \<Rightarrow> rworld \<times> (rerror + nat)" where
  "clock_now E w = (step_tick w, Inr (clock_at E (tick w)))"

definition load_policy :: "renv \<Rightarrow> string \<Rightarrow> nat \<Rightarrow> rworld \<Rightarrow> rworld \<times> (rerror + verified_policy)" where
  "load_policy E own now w =
     (w\<lparr>tick := tick w + 2\<rparr>,
      try_then (map_err State (read_bounded (policy_file_at E) (io_at E) (tick w) MAX_POLICY_BYTES)) (\<lambda>bs.
        map_err Policy (verify_policy (rl E) bs own now)))"

definition guard_check :: "renv \<Rightarrow> verified_policy \<Rightarrow> rworld \<Rightarrow> rworld \<times> (rerror + unit)" where
  "guard_check E vp w =
     st_then (clock_now E w) (\<lambda>now w.
     st_then (load_policy E (vp_owner vp) now w) (\<lambda>current w.
       if vp_event_id current \<noteq> vp_event_id vp then (w, Inl Changed)
       else (w\<lparr>effects := effects w @ [E_Checked]\<rparr>, Inr ())))"

definition net_verify :: "renv \<Rightarrow> target \<Rightarrow> blob \<Rightarrow> rworld \<Rightarrow> rworld \<times> (rerror + (network_failure + unit))" where
  "net_verify E t b w =
     (let r = verify_at E (tick w) t b
      in ((step_tick w)\<lparr>effects := effects w @ [E_Verify t b r]\<rparr>, Inr r))"

definition net_mirror ::
  "renv \<Rightarrow> target \<Rightarrow> target \<Rightarrow> blob \<Rightarrow> string \<Rightarrow> nat \<Rightarrow> rworld \<Rightarrow> rworld \<times> (rerror + (network_failure + unit))" where
  "net_mirror E t src b header now w =
     (let r = mirror_at E (tick w) t src b header
      in ((step_tick w)\<lparr>effects := effects w @ [E_Mirror t src b header now r]\<rparr>, Inr r))"

definition net_sign :: "renv \<Rightarrow> unsigned_event \<Rightarrow> rworld \<Rightarrow> rworld \<times> (rerror + bytes option)" where
  "net_sign E request w =
     ((step_tick w)\<lparr>effects := effects w @ [E_Sign request]\<rparr>, Inr (sign_at E (tick w) request))"

definition snapshot_of :: "rworld \<Rightarrow> rworld \<times> (rerror + snapshot)" where
  "snapshot_of w = (w, ok_or Internal (snap w))"

definition update_snapshot :: "(snapshot \<Rightarrow> snapshot) \<Rightarrow> rworld \<Rightarrow> rworld \<times> (rerror + unit)" where
  "update_snapshot f w = st_then (snapshot_of w) (\<lambda>s w. (w\<lparr>snap := Some (f s)\<rparr>, Inr ()))"

definition save_e :: "renv \<Rightarrow> rworld \<Rightarrow> rworld \<times> (rerror + unit)" where
  "save_e E w = st_map_err State (save E w)"

section \<open>Limits\<close>

record pass_limits =
  verification_bytes :: nat
  mirrors :: nat

definition limits_validate :: "pass_limits \<Rightarrow> verified_policy \<Rightarrow> rerror + unit" where
  "limits_validate l vp =
     (if \<not> (1 \<le> mirrors l \<and> mirrors l \<le> 16) \<or> verification_bytes l = 0
         \<or> verification_bytes l > 256 * MAX_BLOB_BYTES
      then Inl (Configuration ''invalid replica work limits'')
      else if desired_groups (vp_policy vp) > 0
         \<and> (\<exists>b \<in> set (blobs (vp_policy vp)).
              b_size b * (length (targets (vp_policy vp)) + mirrors l) > verification_bytes l)
      then Inl (Configuration ''verification budget cannot fit one complete blob scan and repair read-backs'')
      else Inr ())"

section \<open>Authorisation\<close>

datatype authorisation = Ready string | Awaiting | NoSignature

definition pending_key :: "blob \<Rightarrow> target \<Rightarrow> string" where
  "pending_key b t = b_sha256 b @ '':'' @ t_id t"

definition live_request :: "pending \<Rightarrow> nat \<Rightarrow> bool" where
  "live_request p now \<longleftrightarrow> requested_at p \<le> now \<and> now < sat_add (requested_at p) 120"

definition request_time :: "renv \<Rightarrow> string \<Rightarrow> nat \<Rightarrow> rworld \<Rightarrow> rworld \<times> (rerror + nat)" where
  "request_time E key now w =
     st_then (snapshot_of w) (\<lambda>s w.
       case bt_get key (s_pending s) of
         None \<Rightarrow> (w, Inr now)
       | Some p \<Rightarrow>
           if live_request p now then (w, Inr (requested_at p))
           else st_then (st_map_err State (remove_request E (pd_event_id p) w)) (\<lambda>_ w.
                st_then (update_snapshot (\<lambda>s. s\<lparr>s_pending := bt_remove key (s_pending s)\<rparr>) w) (\<lambda>_ w.
                  (w, Inr now))))"

text \<open>
  Without a signer the request is recorded, saved and written out, and the answer is what the owner
  left in the pending directory: \<open>None\<close> when there is none yet.
\<close>

definition offer_request ::
  "renv \<Rightarrow> string \<Rightarrow> nat \<Rightarrow> unsigned_event \<Rightarrow> rworld \<Rightarrow> rworld \<times> (rerror + bytes option option)" where
  "offer_request E key requested request w =
     (let i = compute_id (rl E) request
      in st_then (update_snapshot (\<lambda>s. s\<lparr>s_pending :=
             bt_insert key \<lparr>requested_at = requested, pd_event_id = i\<rparr> (s_pending s)\<rparr>) w) (\<lambda>_ w.
         st_then (save_e E w) (\<lambda>_ w.
         st_then (w, ok_or Json (request_to_json E request)) (\<lambda>json w.
         st_then (st_map_err State (write_request E i json w)) (\<lambda>_ w.
           let w = w\<lparr>pending_dir := outside_at E (tick w) (pending_dir w)\<rparr>;
               look = map_of (pending_dir w) (pending_name i True);
               w' = w\<lparr>tick := tick w + 3\<rparr>
           in if \<not> io_at E (tick w) then (w', Inl (State S_Io))
              else case look of
                None \<Rightarrow> (w', Inr None)
              | Some f \<Rightarrow>
                  (w', Inr (Some (ok_opt (read_bounded (\<lambda>_. Some f) (io_at E) (tick w + 1) MAX_EVENT_BYTES)))))))))"

definition fetch_signature ::
  "renv \<Rightarrow> verified_policy \<Rightarrow> bool \<Rightarrow> string \<Rightarrow> nat \<Rightarrow> unsigned_event \<Rightarrow> rworld
     \<Rightarrow> rworld \<times> (rerror + bytes option option)" where
  "fetch_signature E vp signer key requested request w =
     (if signer then
        st_then (guard_check E vp w) (\<lambda>_ w.
        st_then (net_sign E request w) (\<lambda>result w.
        st_then (guard_check E vp w) (\<lambda>_ w. (w, Inr (Some result)))))
      else offer_request E key requested request w)"

definition consume_signature ::
  "renv \<Rightarrow> verified_policy \<Rightarrow> string \<Rightarrow> unsigned_event \<Rightarrow> bytes option \<Rightarrow> rworld \<Rightarrow> rworld \<times> (rerror + authorisation)" where
  "consume_signature E vp key request bytes_opt w =
     st_then (guard_check E vp w) (\<lambda>_ w.
     st_then (case bytes_opt of
                None \<Rightarrow> (w, Inr None)
              | Some bs \<Rightarrow> st_then (clock_now E w) (\<lambda>now w. (w, Inr (ok_opt (verify_return (rl E) bs request now)))))
       (\<lambda>event w.
     st_then (update_snapshot (\<lambda>s. s\<lparr>s_pending := bt_remove key (s_pending s)\<rparr>) w) (\<lambda>_ w.
     st_then (save_e E w) (\<lambda>_ w.
     st_then (st_map_err State (remove_request E (compute_id (rl E) request) w)) (\<lambda>_ w.
       (w, Inr (case event of
                  Some ev \<Rightarrow> Ready (nostr_header (rl E) (event_to_json (rl E) ev))
                | None \<Rightarrow> NoSignature)))))))"

definition authorise ::
  "renv \<Rightarrow> verified_policy \<Rightarrow> bool \<Rightarrow> blob \<Rightarrow> target \<Rightarrow> rworld \<Rightarrow> rworld \<times> (rerror + authorisation)" where
  "authorise E vp signer b t w =
     (let key = pending_key b t
      in st_then (guard_check E vp w) (\<lambda>_ w.
         st_then (clock_now E w) (\<lambda>now w.
         st_then (request_time E key now w) (\<lambda>requested w.
         st_then (w, map_err Policy (repair_template (rl E) vp b t requested)) (\<lambda>request w.
         st_then (snapshot_of w) (\<lambda>s w.
           if (case bt_get key (s_pending s) of
                 None \<Rightarrow> False
               | Some old \<Rightarrow> pd_event_id old \<noteq> compute_id (rl E) request)
           then (w, Inl Internal)
           else st_then (fetch_signature E vp signer key requested request w) (\<lambda>r w.
             case r of
               None \<Rightarrow> (w, Inr Awaiting)
             | Some bytes_opt \<Rightarrow> consume_signature E vp key request bytes_opt w)))))))"

section \<open>Groups and pending requests\<close>

definition is_verified :: "observation option \<Rightarrow> bool" where
  "is_verified obs = (case obs of Some (Verified at) \<Rightarrow> True | _ \<Rightarrow> False)"

definition groups :: "verified_policy \<Rightarrow> (string, observation) btree \<Rightarrow> string set" where
  "groups vp obs =
     set (map t_failure_group
       (filter (\<lambda>t. t_retention t = Owner \<and> is_verified (bt_get (t_id t) obs)) (targets (vp_policy vp))))"

definition floor_met :: "verified_policy \<Rightarrow> (string, observation) btree \<Rightarrow> bool" where
  "floor_met vp obs \<longleftrightarrow> card (groups vp obs) \<ge> desired_groups (vp_policy vp)"

definition keep_pending :: "renv \<Rightarrow> verified_policy \<Rightarrow> snapshot \<Rightarrow> nat \<Rightarrow> string \<Rightarrow> pending \<Rightarrow> bool" where
  "keep_pending E vp s now key p =
     (case split_once (CHR '':'') key of
        None \<Rightarrow> False
      | Some (hash, i) \<Rightarrow>
          (case List.find (\<lambda>b. b_sha256 b = hash) (blobs (vp_policy vp)) of
             None \<Rightarrow> False
           | Some b \<Rightarrow>
               (case List.find (\<lambda>t. t_id t = i \<and> t_retention t = Owner) (targets (vp_policy vp)) of
                  None \<Rightarrow> False
                | Some t \<Rightarrow>
                    \<not> (\<exists>(h, obs) \<in> set (observations s). h = hash \<and> floor_met vp obs)
                    \<and> live_request p now
                    \<and> \<not> is_verified (case bt_get hash (observations s) of None \<Rightarrow> None | Some ts \<Rightarrow> bt_get i ts)
                    \<and> (case repair_template (rl E) vp b t (requested_at p) of
                         Inl e \<Rightarrow> False
                       | Inr request \<Rightarrow> compute_id (rl E) request = pd_event_id p))))"

definition prune_pending :: "renv \<Rightarrow> verified_policy \<Rightarrow> rworld \<Rightarrow> rworld \<times> (rerror + unit)" where
  "prune_pending E vp w =
     st_then (snapshot_of w) (\<lambda>s w.
     st_then (clock_now E w) (\<lambda>now w.
       let kept = bt_retain (keep_pending E vp s now) (s_pending s);
           w = w\<lparr>snap := Some (s\<lparr>s_pending := kept\<rparr>)\<rparr>
       in st_then (save_e E w) (\<lambda>_ w.
            st_map_err State (reconcile_pending_files E (map (pd_event_id \<circ> snd) kept) w))))"

section \<open>The pass\<close>

record scan_state =
  sc_obs :: "(string, observation) btree"
  sc_sources :: "target list"
  sc_used :: nat

fun scan_targets :: "renv \<Rightarrow> verified_policy \<Rightarrow> blob \<Rightarrow> target list \<Rightarrow> scan_state \<Rightarrow> rworld \<Rightarrow> rworld \<times> (rerror + scan_state)" where
  "scan_targets E vp b [] sc w = (w, Inr sc)"
| "scan_targets E vp b (t # ts) sc w =
     st_then (guard_check E vp w) (\<lambda>_ w.
     st_then (net_verify E t b w) (\<lambda>result w.
     st_then (guard_check E vp w) (\<lambda>_ w.
     st_then (case result of
                Inr u \<Rightarrow> st_then (clock_now E w) (\<lambda>now w. (w, Inr (Verified now, sc_sources sc @ [t])))
              | Inl reason \<Rightarrow> (w, Inr (Failed reason, sc_sources sc)))
       (\<lambda>(obs, sources) w.
          scan_targets E vp b ts
            \<lparr>sc_obs = bt_insert (t_id t) obs (sc_obs sc), sc_sources = sources, sc_used = sc_used sc + b_size b\<rparr> w))))"

definition repair_pairs :: "target list \<Rightarrow> target list \<Rightarrow> (target \<times> target) list" where
  "repair_pairs sources ts =
     concat (map (\<lambda>source. map (\<lambda>t. (t, source))
       (filter (\<lambda>t. t_retention t = Owner \<and> t_origin source \<noteq> t_origin t) ts)) sources)"

record repair_state =
  rs_obs :: "(string, observation) btree"
  rs_waiting :: "string set"
  rs_used :: nat
  rs_attempts :: nat
  rs_writes :: nat

definition observe :: "target \<Rightarrow> observation \<Rightarrow> repair_state \<Rightarrow> repair_state" where
  "observe t obs st = st\<lparr>rs_obs := bt_insert (t_id t) obs (rs_obs st)\<rparr>"

definition read_back :: "renv \<Rightarrow> verified_policy \<Rightarrow> blob \<Rightarrow> target \<Rightarrow> repair_state \<Rightarrow> rworld \<Rightarrow> rworld \<times> (rerror + repair_state)" where
  "read_back E vp b t st w =
     (let st = observe t Acknowledged st
      in st_then (update_snapshot (\<lambda>s. s\<lparr>observations := bt_insert (b_sha256 b) (rs_obs st) (observations s)\<rparr>) w) (\<lambda>_ w.
         st_then (save_e E w) (\<lambda>_ w.
         st_then (guard_check E vp w) (\<lambda>_ w.
         st_then (net_verify E t b w) (\<lambda>result w.
         st_then (guard_check E vp w) (\<lambda>_ w.
           let st = st\<lparr>rs_used := rs_used st + b_size b\<rparr>
           in case result of
                Inr u \<Rightarrow> st_then (clock_now E w) (\<lambda>now w. (w, Inr (observe t (Verified now) st)))
              | Inl reason \<Rightarrow> (w, Inr (observe t (Failed reason) st))))))))"

definition send_mirror ::
  "renv \<Rightarrow> verified_policy \<Rightarrow> blob \<Rightarrow> target \<Rightarrow> target \<Rightarrow> string \<Rightarrow> repair_state \<Rightarrow> rworld \<Rightarrow> rworld \<times> (rerror + repair_state)" where
  "send_mirror E vp b t src header st w =
     st_then (guard_check E vp w) (\<lambda>_ w.
     st_then (w, ok_or Internal (url_parse (rl E) (t_origin t))) (\<lambda>origin w.
     st_then (w, ok_or Internal (u_host origin)) (\<lambda>host w.
     st_then (clock_now E w) (\<lambda>now w.
       if \<not> verify_upload (rl E) host (vp_owner vp) header (b_sha256 b) now
       then (w, Inr (observe t SignerUnavailable st))
       else
         let st = st\<lparr>rs_writes := rs_writes st + 1\<rparr>
         in st_then (net_mirror E t src b header now w) (\<lambda>result w.
            st_then (guard_check E vp w) (\<lambda>_ w.
              case result of
                Inr u \<Rightarrow> read_back E vp b t st w
              | Inl reason \<Rightarrow> (w, Inr (observe t (Failed reason) st))))))))"

definition repair_pair ::
  "renv \<Rightarrow> verified_policy \<Rightarrow> bool \<Rightarrow> blob \<Rightarrow> nat \<Rightarrow> nat \<Rightarrow> target \<Rightarrow> target \<Rightarrow> repair_state \<Rightarrow> rworld
     \<Rightarrow> rworld \<times> (rerror + repair_state)" where
  "repair_pair E vp signer b pair_index npairs t src st w =
     st_then (update_snapshot (\<lambda>s. s\<lparr>repair_cursors :=
         bt_insert (b_sha256 b) ((pair_index + 1) mod npairs) (repair_cursors s)\<rparr>) w) (\<lambda>_ w.
     st_then (save_e E w) (\<lambda>_ w.
       let st = st\<lparr>rs_attempts := rs_attempts st + 1\<rparr>
       in st_then (authorise E vp signer b t w) (\<lambda>auth w.
            case auth of
              Awaiting \<Rightarrow> (w, Inr (observe t AwaitingAuthorisation (st\<lparr>rs_waiting := insert (t_id t) (rs_waiting st)\<rparr>)))
            | NoSignature \<Rightarrow> (w, Inr (observe t SignerUnavailable (st\<lparr>rs_waiting := insert (t_id t) (rs_waiting st)\<rparr>)))
            | Ready header \<Rightarrow> send_mirror E vp b t src header st w)))"

fun repair_loop ::
  "renv \<Rightarrow> verified_policy \<Rightarrow> bool \<Rightarrow> pass_limits \<Rightarrow> blob \<Rightarrow> (target \<times> target) list \<Rightarrow> nat \<Rightarrow> nat list \<Rightarrow> repair_state
     \<Rightarrow> rworld \<Rightarrow> rworld \<times> (rerror + repair_state)" where
  "repair_loop E vp signer l b pairs start [] st w = (w, Inr st)"
| "repair_loop E vp signer l b pairs start (offset # offsets) st w =
     (let pair_index = (start + offset) mod length pairs; t = fst (pairs ! pair_index); src = snd (pairs ! pair_index)
      in if floor_met vp (rs_obs st) \<or> rs_attempts st \<ge> mirrors l then (w, Inr st)
         else if t_retention t \<noteq> Owner \<or> t_failure_group t \<in> groups vp (rs_obs st) \<or> t_id t \<in> rs_waiting st
         then repair_loop E vp signer l b pairs start offsets st w
         else st_then (repair_pair E vp signer b pair_index (length pairs) t src st w) (\<lambda>st w.
           repair_loop E vp signer l b pairs start offsets st w))"

record pass_state =
  ps_used :: nat
  ps_attempts :: nat
  ps_writes :: nat

definition pass_blob ::
  "renv \<Rightarrow> verified_policy \<Rightarrow> bool \<Rightarrow> pass_limits \<Rightarrow> nat \<Rightarrow> pass_state \<Rightarrow> rworld \<Rightarrow> rworld \<times> (rerror + pass_state)" where
  "pass_blob E vp signer l index ps w =
     (let p = vp_policy vp; b = blobs p ! index
      in st_then (scan_targets E vp b (targets p) \<lparr>sc_obs = [], sc_sources = [], sc_used = ps_used ps\<rparr> w) (\<lambda>sc w.
         st_then (snapshot_of w) (\<lambda>s w.
           let pairs = repair_pairs (sc_sources sc) (targets p);
               repair_start = (case bt_get (b_sha256 b) (repair_cursors s) of None \<Rightarrow> 0 | Some c \<Rightarrow> c)
           in st_then (repair_loop E vp signer l b pairs repair_start [0..<length pairs]
                \<lparr>rs_obs = sc_obs sc, rs_waiting = {}, rs_used = sc_used sc, rs_attempts = ps_attempts ps,
                 rs_writes = ps_writes ps\<rparr> w) (\<lambda>st w.
              st_then (update_snapshot (\<lambda>s. s\<lparr>observations := bt_insert (b_sha256 b) (rs_obs st) (observations s),
                  s_cursor := (index + 1) mod length (blobs p)\<rparr>) w) (\<lambda>_ w.
              st_then (save_e E w) (\<lambda>_ w.
                (w, Inr \<lparr>ps_used = rs_used st, ps_attempts = rs_attempts st, ps_writes = rs_writes st\<rparr>)))))))"

fun blob_loop ::
  "renv \<Rightarrow> verified_policy \<Rightarrow> bool \<Rightarrow> pass_limits \<Rightarrow> nat \<Rightarrow> nat list \<Rightarrow> pass_state \<Rightarrow> rworld \<Rightarrow> rworld \<times> (rerror + pass_state)" where
  "blob_loop E vp signer l start [] ps w = (w, Inr ps)"
| "blob_loop E vp signer l start (offset # offsets) ps w =
     (let p = vp_policy vp; index = (start + offset) mod length (blobs p);
          reserve = b_size (blobs p ! index) * (length (targets p) + mirrors l - ps_attempts ps)
      in if ps_used ps + reserve > verification_bytes l then (w, Inr ps)
         else st_then (pass_blob E vp signer l index ps w) (\<lambda>ps w.
           blob_loop E vp signer l start offsets ps w))"

record blob_report =
  br_sha256 :: string
  verified_configured_groups :: nat
  br_desired_groups :: nat
  br_observations :: "(string, observation) btree"

record pass_report =
  r_policy_id :: string
  r_revision :: nat
  r_observed_at :: nat
  stopped :: bool
  verification_bytes_reserved :: nat
  mirror_attempts :: nat
  repair_attempts :: nat
  r_blobs :: "blob_report list"
  pending_event_ids :: "string list"

definition deferred_observations :: "policy \<Rightarrow> (string, (string, observation) btree) btree" where
  "deferred_observations p =
     bt_collect (map (\<lambda>b. (b_sha256 b, bt_collect (map (\<lambda>t. (t_id t, Deferred)) (targets p)))) (blobs p))"

definition blob_report_of :: "verified_policy \<Rightarrow> snapshot \<Rightarrow> blob \<Rightarrow> blob_report" where
  "blob_report_of vp s b =
     (let obs = (case bt_get (b_sha256 b) (observations s) of None \<Rightarrow> [] | Some obs \<Rightarrow> obs)
      in \<lparr>br_sha256 = b_sha256 b, verified_configured_groups = card (groups vp obs),
          br_desired_groups = desired_groups (vp_policy vp), br_observations = obs\<rparr>)"

definition report_of :: "verified_policy \<Rightarrow> snapshot \<Rightarrow> nat \<Rightarrow> bool \<Rightarrow> pass_state \<Rightarrow> pass_report" where
  "report_of vp s now stop ps =
     \<lparr>r_policy_id = p_id (vp_policy vp), r_revision = p_revision (vp_policy vp), r_observed_at = now, stopped = stop,
      verification_bytes_reserved = ps_used ps, mirror_attempts = ps_writes ps, repair_attempts = ps_attempts ps,
      r_blobs = map (blob_report_of vp s) (blobs (vp_policy vp)),
      pending_event_ids = map (pd_event_id \<circ> snd) (s_pending s)\<rparr>"

definition pass_finish :: "renv \<Rightarrow> verified_policy \<Rightarrow> pass_state \<Rightarrow> rworld \<Rightarrow> rworld \<times> (rerror + pass_report)" where
  "pass_finish E vp ps w =
     st_then (guard_check E vp w) (\<lambda>_ w.
     st_then (prune_pending E vp w) (\<lambda>_ w.
     st_then (clock_now E w) (\<lambda>now w.
     st_then (update_snapshot (\<lambda>s. s\<lparr>observed_at := Some now\<rparr>) w) (\<lambda>_ w.
     st_then (snapshot_of w) (\<lambda>s w.
     st_then (save_e E w) (\<lambda>_ w.
       (w, Inr (report_of vp s now (desired_groups (vp_policy vp) = 0) ps))))))))"

definition pass_work ::
  "renv \<Rightarrow> verified_policy \<Rightarrow> bool \<Rightarrow> pass_limits \<Rightarrow> nat \<Rightarrow> rworld \<Rightarrow> rworld \<times> (rerror + pass_report)" where
  "pass_work E vp signer l start w =
     st_then
       (if desired_groups (vp_policy vp) = 0 then (w, Inr \<lparr>ps_used = 0, ps_attempts = 0, ps_writes = 0\<rparr>)
        else blob_loop E vp signer l start [0..<length (blobs (vp_policy vp))]
               \<lparr>ps_used = 0, ps_attempts = 0, ps_writes = 0\<rparr> w)
       (\<lambda>ps w. pass_finish E vp ps w)"

definition pass_begin :: "renv \<Rightarrow> verified_policy \<Rightarrow> bool \<Rightarrow> pass_limits \<Rightarrow> rworld \<Rightarrow> rworld \<times> (rerror + pass_report)" where
  "pass_begin E vp signer l w =
     st_then (snapshot_of w) (\<lambda>s w.
     st_then (update_snapshot
       (\<lambda>s. s\<lparr>observations := deferred_observations (vp_policy vp), observed_at := None\<rparr>) w) (\<lambda>_ w.
     st_then (save_e E w) (\<lambda>_ w.
     st_then (prune_pending E vp w) (\<lambda>_ w.
       pass_work E vp signer l (s_cursor s) w))))"

definition pass_inner :: "renv \<Rightarrow> verified_policy \<Rightarrow> bool \<Rightarrow> pass_limits \<Rightarrow> rworld \<Rightarrow> rworld \<times> (rerror + pass_report)" where
  "pass_inner E vp signer l w =
     st_then (guard_check E vp w) (\<lambda>_ w.
     st_then (w, limits_validate l vp) (\<lambda>_ w.
     st_then (st_map_err State (accept E vp w)) (\<lambda>_ w.
     st_then (if desired_groups (vp_policy vp) = 0 then st_map_err State (invalidate E w) else (w, Inr ())) (\<lambda>_ w.
       pass_begin E vp signer l w))))"

definition run_pass :: "renv \<Rightarrow> verified_policy \<Rightarrow> bool \<Rightarrow> pass_limits \<Rightarrow> rworld \<Rightarrow> rworld \<times> (rerror + pass_report)" where
  "run_pass E vp signer l w =
     (case pass_inner E vp signer l w of
        (w, Inr r) \<Rightarrow> (w, Inr r)
      | (w, Inl e) \<Rightarrow> st_then (st_map_err State (invalidate E w)) (\<lambda>_ w. (w, Inl e)))"

end
