(* ===== verification/Replica_Pass.thy ===== *)
theory Replica_Pass
  imports Replica_Engine
begin

text \<open>
  What a maintenance pass guarantees: an invariant of the snapshot and of the ordered record of
  network effects, kept by every step of \<open>Replica_Engine\<close>, on success and on failure, in every
  environment.
\<close>

section \<open>Postconditions of the calls\<close>

lemma wp_clock [simp]: "wp Q X (clock_now E w) = Q (clock_at E (tick w)) (step_tick w)"
  by (simp add: clock_now_def)

lemma wp_snapshot_of [simp]:
  "wp Q X (snapshot_of w) = (case snap w of None \<Rightarrow> X Internal w | Some s \<Rightarrow> Q s w)"
  by (simp add: snapshot_of_def ok_or_def split: option.splits)

lemma wp_update [simp]:
  "wp Q X (update_snapshot f w)
     = (case snap w of None \<Rightarrow> X Internal w | Some s \<Rightarrow> Q () (w\<lparr>snap := Some (f s)\<rparr>))"
  by (simp add: update_snapshot_def split: option.splits)

lemma guard_check_wp:
  assumes "\<And>w'. snap w' = snap w \<Longrightarrow> effects w' = effects w @ [E_Checked] \<Longrightarrow> Q () w'"
    and "\<And>e w'. same w w' \<Longrightarrow> X e w'"
  shows "wp Q X (guard_check E vp w)"
proof -
  have "same (step_tick w) (fst (load_policy E own now (step_tick w)))" for own now
    by (simp add: load_policy_def same_def)
  then show ?thesis
    unfolding guard_check_def wp_then wp_clock
    by (rule wp_same) (auto simp: same_def intro!: assms)
qed

lemma wp_net_verify [simp]:
  "wp Q X (net_verify E t b w) =
     Q (verify_at E (tick w) t b) ((step_tick w)\<lparr>effects := effects w @ [E_Verify t b (verify_at E (tick w) t b)]\<rparr>)"
  by (simp add: net_verify_def Let_def)

lemma wp_net_mirror [simp]:
  "wp Q X (net_mirror E t src b h now w) =
     Q (mirror_at E (tick w) t src b h)
       ((step_tick w)\<lparr>effects := effects w @ [E_Mirror t src b h now (mirror_at E (tick w) t src b h)]\<rparr>)"
  by (simp add: net_mirror_def Let_def)

lemma wp_net_sign [simp]:
  "wp Q X (net_sign E req w) =
     Q (sign_at E (tick w) req) ((step_tick w)\<lparr>effects := effects w @ [E_Sign req]\<rparr>)"
  by (simp add: net_sign_def)

section \<open>The invariant\<close>

definition policy_hashes :: "verified_policy \<Rightarrow> string set" where
  "policy_hashes vp = b_sha256 ` set (blobs (vp_policy vp))"

definition policy_keys :: "verified_policy \<Rightarrow> string set" where
  "policy_keys vp = (\<lambda>(b, t). pending_key b t) ` (set (blobs (vp_policy vp)) \<times> set (targets (vp_policy vp)))"

text \<open>The signed authority a mirror carries: the owner's return of exactly this repair request.\<close>

definition authorised :: "renv \<Rightarrow> verified_policy \<Rightarrow> blob \<Rightarrow> target \<Rightarrow> string \<Rightarrow> bool" where
  "authorised E vp b t header \<longleftrightarrow>
     (\<exists>bs request requested now ev. repair_template (rl E) vp b t requested = Inr request
        \<and> verify_return (rl E) bs request now = Inr ev
        \<and> header = nostr_header (rl E) (event_to_json (rl E) ev))"

text \<open>What must already have happened when an effect happens.\<close>

fun step_ok :: "renv \<Rightarrow> verified_policy \<Rightarrow> effect list \<Rightarrow> effect \<Rightarrow> bool" where
  "step_ok E vp pre E_Checked = True"
| "step_ok E vp pre (E_Verify t b r) =
     (pre \<noteq> [] \<and> last pre = E_Checked \<and> t \<in> set (targets (vp_policy vp)) \<and> b \<in> set (blobs (vp_policy vp)))"
| "step_ok E vp pre (E_Mirror t src b header now r) =
     (pre \<noteq> [] \<and> last pre = E_Checked \<and> t \<in> set (targets (vp_policy vp)) \<and> src \<in> set (targets (vp_policy vp))
      \<and> b \<in> set (blobs (vp_policy vp)) \<and> t_retention t = Owner \<and> t_origin src \<noteq> t_origin t
      \<and> E_Verify src b (Inr ()) \<in> set pre \<and> authorised E vp b t header
      \<and> (\<exists>origin host. url_parse (rl E) (t_origin t) = Some origin \<and> u_host origin = Some host
           \<and> verify_upload (rl E) host (vp_owner vp) header (b_sha256 b) now))"
| "step_ok E vp pre (E_Sign request) =
     (pre \<noteq> [] \<and> last pre = E_Checked
      \<and> (\<exists>b t requested. b \<in> set (blobs (vp_policy vp)) \<and> t \<in> set (targets (vp_policy vp)) \<and> t_retention t = Owner
           \<and> repair_template (rl E) vp b t requested = Inr request))"

definition log_ok :: "renv \<Rightarrow> verified_policy \<Rightarrow> effect list \<Rightarrow> bool" where
  "log_ok E vp log \<longleftrightarrow> (\<forall>i < length log. step_ok E vp (take i log) (log ! i))"

definition evidence :: "verified_policy \<Rightarrow> effect list \<Rightarrow> string \<Rightarrow> string \<Rightarrow> bool" where
  "evidence vp log hash tid \<longleftrightarrow>
     (\<exists>t b. t \<in> set (targets (vp_policy vp)) \<and> b \<in> set (blobs (vp_policy vp)) \<and> t_id t = tid \<and> b_sha256 b = hash
        \<and> E_Verify t b (Inr ()) \<in> set log)"

definition obs_ok :: "verified_policy \<Rightarrow> effect list \<Rightarrow> string \<Rightarrow> (string, observation) btree \<Rightarrow> bool" where
  "obs_ok vp log hash obs \<longleftrightarrow> bt_ok obs \<and> bt_keys obs \<subseteq> t_id ` set (targets (vp_policy vp))
     \<and> (\<forall>tid at. (tid, Verified at) \<in> set obs \<longrightarrow> evidence vp log hash tid)"

text \<open>Between passes: a snapshot that opens again, in key order, and cursors of this policy's blobs.\<close>

definition state_inv :: "verified_policy \<Rightarrow> snapshot \<Rightarrow> bool" where
  "state_inv vp s \<longleftrightarrow> snapshot_ok s \<and> bt_ok (repair_cursors s) \<and> bt_ok (observations s) \<and> bt_ok (s_pending s)
     \<and> (s_event_id s = vp_event_id vp \<longrightarrow> bt_keys (repair_cursors s) \<subseteq> policy_hashes vp)"

text \<open>Within a pass: moreover only requests and observations of this policy, backed by the effects.\<close>

definition snap_inv :: "verified_policy \<Rightarrow> effect list \<Rightarrow> snapshot \<Rightarrow> bool" where
  "snap_inv vp log s \<longleftrightarrow> state_inv vp s \<and> s_event_id s = vp_event_id vp
     \<and> bt_keys (s_pending s) \<subseteq> policy_keys vp \<and> bt_keys (observations s) \<subseteq> policy_hashes vp
     \<and> (\<forall>hash obs. (hash, obs) \<in> set (observations s) \<longrightarrow> obs_ok vp log hash obs)"

definition pass_inv :: "renv \<Rightarrow> verified_policy \<Rightarrow> rworld \<Rightarrow> bool" where
  "pass_inv E vp w \<longleftrightarrow> log_ok E vp (effects w) \<and> (\<exists>s. snap w = Some s \<and> snap_inv vp (effects w) s)"

definition fail_inv :: "renv \<Rightarrow> verified_policy \<Rightarrow> rworld \<Rightarrow> bool" where
  "fail_inv E vp w \<longleftrightarrow> log_ok E vp (effects w) \<and> (\<forall>s. snap w = Some s \<longrightarrow> state_inv vp s)"

text \<open>What the libraries and the clock provide, and the policy a guard holds.\<close>

definition env_ok :: "renv \<Rightarrow> verified_policy \<Rightarrow> bool" where
  "env_ok E vp \<longleftrightarrow> wf_policy (rl E) (vp_policy vp) \<and> canonical_hex (vp_owner vp) 32 \<and> canonical_hex (vp_event_id vp) 32
     \<and> (\<forall>u. canonical_hex (compute_id (rl E) u) 32) \<and> (\<forall>n. 0 < clock_at E n)"

lemma log_ok_snoc: "log_ok E vp (log @ [e]) \<longleftrightarrow> log_ok E vp log \<and> step_ok E vp log e"
  by (auto simp: log_ok_def nth_append less_Suc_eq)

lemma log_ok_Nil [simp]: "log_ok E vp []"
  by (simp add: log_ok_def)

lemma evidence_mono: "evidence vp log h t \<Longrightarrow> set log \<subseteq> set log' \<Longrightarrow> evidence vp log' h t"
  by (auto simp: evidence_def)

lemma obs_ok_mono: "obs_ok vp log h obs \<Longrightarrow> set log \<subseteq> set log' \<Longrightarrow> obs_ok vp log' h obs"
  unfolding obs_ok_def by (blast intro: evidence_mono)

lemma snap_inv_mono: "snap_inv vp log s \<Longrightarrow> set log \<subseteq> set log' \<Longrightarrow> snap_inv vp log' s"
  unfolding snap_inv_def by (blast intro: obs_ok_mono)

lemma pass_fail: "pass_inv E vp w \<Longrightarrow> fail_inv E vp w"
  by (auto simp: pass_inv_def fail_inv_def snap_inv_def)

lemma pass_inv_same: "pass_inv E vp w \<Longrightarrow> same w w' \<Longrightarrow> pass_inv E vp w'"
  by (auto simp: pass_inv_def same_def)

lemma fail_inv_same: "fail_inv E vp w \<Longrightarrow> same w w' \<Longrightarrow> fail_inv E vp w'"
  by (auto simp: fail_inv_def same_def)

lemma pass_inv_effect:
  "pass_inv E vp w \<Longrightarrow> step_ok E vp (effects w) e \<Longrightarrow> snap w' = snap w \<Longrightarrow> effects w' = effects w @ [e]
     \<Longrightarrow> pass_inv E vp w'"
  unfolding pass_inv_def by (auto simp: log_ok_snoc elim!: snap_inv_mono)

lemma fail_inv_effect:
  "fail_inv E vp w \<Longrightarrow> step_ok E vp (effects w) e \<Longrightarrow> snap w' = snap w \<Longrightarrow> effects w' = effects w @ [e]
     \<Longrightarrow> fail_inv E vp w'"
  by (auto simp: fail_inv_def log_ok_snoc)

section \<open>Bounds that make a snapshot loadable\<close>

lemma wf_policy_hash: "wf_policy R p \<Longrightarrow> b \<in> set (blobs p) \<Longrightarrow> canonical_hex (b_sha256 b) 32"
  by (auto simp: wf_policy_def wf_blob_def)

lemma wf_policy_target: "wf_policy R p \<Longrightarrow> t \<in> set (targets p) \<Longrightarrow> identifier_ok (t_id t)"
  by (auto simp: wf_policy_def wf_target_def)

lemma split_pending_key:
  assumes "canonical_hex (b_sha256 b) 32"
  shows "split_once (CHR '':'') (pending_key b t) = Some (b_sha256 b, t_id t)"
proof -
  have "CHR '':'' \<notin> set (b_sha256 b)"
    using assms lower_hex_not_colon by (auto simp: canonical_hex_def)
  then show ?thesis using split_once_append [of _ "b_sha256 b" "t_id t"] by (simp add: pending_key_def)
qed

lemma policy_sets:
  assumes "wf_policy R (vp_policy vp)"
  shows "finite (policy_hashes vp)" "card (policy_hashes vp) \<le> 128"
    "finite (policy_keys vp)" "card (policy_keys vp) \<le> 2048"
    "card (t_id ` set (targets (vp_policy vp))) \<le> 16"
proof -
  have b: "length (blobs (vp_policy vp)) \<le> 128" and t: "length (targets (vp_policy vp)) \<le> 16"
    using assms by (auto simp: wf_policy_def)
  have cb: "card (set (blobs (vp_policy vp))) \<le> 128" and ct: "card (set (targets (vp_policy vp))) \<le> 16"
    using b t card_length le_trans by blast+
  show "finite (policy_hashes vp)" "finite (policy_keys vp)" by (auto simp: policy_hashes_def policy_keys_def)
  show "card (policy_hashes vp) \<le> 128"
    unfolding policy_hashes_def using cb card_image_le [of "set (blobs (vp_policy vp))" b_sha256] by simp
  show "card (t_id ` set (targets (vp_policy vp))) \<le> 16"
    using ct card_image_le [of "set (targets (vp_policy vp))" t_id] by simp
  have "card (policy_keys vp) \<le> card (set (blobs (vp_policy vp)) \<times> set (targets (vp_policy vp)))"
    unfolding policy_keys_def by (rule card_image_le) simp
  also have "\<dots> \<le> 128 * 16" using mult_le_mono [OF cb ct] by (simp add: card_cartesian_product)
  finally show "card (policy_keys vp) \<le> 2048" by simp
qed

lemma obs_ok_bounds:
  assumes "wf_policy R (vp_policy vp)" "obs_ok vp log h obs"
  shows "length obs \<le> 16" "\<forall>(tid, x) \<in> set obs. identifier_ok tid"
proof -
  have keys: "bt_keys obs \<subseteq> t_id ` set (targets (vp_policy vp))" and "bt_ok obs"
    using assms(2) by (auto simp: obs_ok_def)
  then show "length obs \<le> 16" using policy_sets(5) [OF assms(1)] bt_length_le [of obs] by simp
  show "\<forall>(tid, x) \<in> set obs. identifier_ok tid"
  proof clarify
    fix tid x assume "(tid, x) \<in> set obs"
    then have "tid \<in> bt_keys obs" by (force simp: bt_keys_def)
    then show "identifier_ok tid" using keys wf_policy_target [OF assms(1)] by auto
  qed
qed

lemma state_inv_observations:
  assumes "state_inv vp s" "wf_policy R (vp_policy vp)" "bt_ok m" "bt_keys m \<subseteq> policy_hashes vp"
    and "\<And>hash obs. (hash, obs) \<in> set m \<Longrightarrow> obs_ok vp log hash obs"
  shows "state_inv vp (s\<lparr>observations := m\<rparr>)"
proof -
  have l: "length m \<le> 128" using assms policy_sets [OF assms(2)] bt_length_le by blast
  have "canonical_hex hash 32 \<and> length obs \<le> 16 \<and> (\<forall>(tid, x) \<in> set obs. identifier_ok tid)"
    if "(hash, obs) \<in> set m" for hash obs
  proof -
    have "hash \<in> bt_keys m" using that by (force simp: bt_keys_def)
    then have "canonical_hex hash 32"
      using assms(4) wf_policy_hash [OF assms(2)] by (auto simp: policy_hashes_def)
    then show ?thesis using obs_ok_bounds [OF assms(2) assms(5) [OF that]] by simp
  qed
  then show ?thesis using assms(1,3) l by (fastforce simp: state_inv_def snapshot_ok_def)
qed

lemma state_inv_pending:
  assumes "state_inv vp s" "bt_ok m" "length m \<le> 2048" "\<And>key p. (key, p) \<in> set m \<Longrightarrow> pending_key_ok key p"
  shows "state_inv vp (s\<lparr>s_pending := m\<rparr>)"
  using assms by (auto simp: state_inv_def snapshot_ok_def)

lemma state_inv_pendingD: "state_inv vp s \<Longrightarrow> (key, p) \<in> set (s_pending s) \<Longrightarrow> pending_key_ok key p"
  by (auto simp: state_inv_def snapshot_ok_def)

lemma snap_inv_pending:
  assumes "snap_inv vp log s" "wf_policy R (vp_policy vp)" "bt_ok m" "bt_keys m \<subseteq> policy_keys vp"
    and "\<And>key p. (key, p) \<in> set m \<Longrightarrow> pending_key_ok key p"
  shows "snap_inv vp log (s\<lparr>s_pending := m\<rparr>)"
proof -
  have "length m \<le> 2048" using policy_sets [OF assms(2)] bt_length_le assms(3,4) by blast
  then show ?thesis
    using assms state_inv_pending [of vp s m] by (auto simp: snap_inv_def)
qed

lemma snap_inv_pending_remove:
  assumes "snap_inv vp log s" "wf_policy R (vp_policy vp)"
  shows "snap_inv vp log (s\<lparr>s_pending := bt_remove key (s_pending s)\<rparr>)"
proof (rule snap_inv_pending [OF assms])
  show "bt_ok (bt_remove key (s_pending s))"
    using assms(1) by (simp add: snap_inv_def state_inv_def bt.ok_del)
  show "bt_keys (bt_remove key (s_pending s)) \<subseteq> policy_keys vp"
    using assms(1) by (auto simp: snap_inv_def bt_keys_remove)
  show "pending_key_ok k p" if "(k, p) \<in> set (bt_remove key (s_pending s))" for k p
    using that assms(1) bt_set_remove state_inv_pendingD by (fastforce simp: snap_inv_def)
qed

lemma snap_inv_pending_insert:
  assumes "snap_inv vp log s" "env_ok E vp" "b \<in> set (blobs (vp_policy vp))" "t \<in> set (targets (vp_policy vp))"
    and "0 < r" "canonical_hex i 32"
  shows "snap_inv vp log (s\<lparr>s_pending :=
    bt_insert (pending_key b t) \<lparr>requested_at = r, pd_event_id = i\<rparr> (s_pending s)\<rparr>)"
proof -
  have wf: "wf_policy (rl E) (vp_policy vp)" using assms(2) by (simp add: env_ok_def)
  let ?m = "bt_insert (pending_key b t) \<lparr>requested_at = r, pd_event_id = i\<rparr> (s_pending s)"
  have "pending_key_ok (pending_key b t) \<lparr>requested_at = r, pd_event_id = i\<rparr>"
    using assms wf_policy_hash [OF wf] wf_policy_target [OF wf] split_pending_key
    by (simp add: pending_key_ok_def)
  then have "pending_key_ok k p" if "(k, p) \<in> set ?m" for k p
    using that assms(1) bt_set_insert [of "pending_key b t" _ "s_pending s"] state_inv_pendingD
    by (fastforce simp: snap_inv_def)
  moreover have "pending_key b t \<in> policy_keys vp" using assms(3,4) by (auto simp: policy_keys_def)
  ultimately show ?thesis
    using assms(1) by (intro snap_inv_pending [OF _ wf]) (auto simp: snap_inv_def state_inv_def bt_ok_insert bt_keys_insert)
qed

lemma snap_inv_observe:
  assumes "snap_inv vp log s" "wf_policy R (vp_policy vp)" "b \<in> set (blobs (vp_policy vp))"
    and "obs_ok vp log (b_sha256 b) obs"
  shows "snap_inv vp log (s\<lparr>observations := bt_insert (b_sha256 b) obs (observations s)\<rparr>)"
proof -
  let ?m = "bt_insert (b_sha256 b) obs (observations s)"
  have o: "obs_ok vp log h x" if "(h, x) \<in> set ?m" for h x
    using that assms(1,4) bt_set_insert [of "b_sha256 b" obs "observations s"] by (fastforce simp: snap_inv_def)
  have k: "bt_ok ?m" "bt_keys ?m \<subseteq> policy_hashes vp"
    using assms(1,3) by (auto simp: snap_inv_def state_inv_def bt_ok_insert bt_keys_insert policy_hashes_def)
  show ?thesis
    using state_inv_observations [OF _ assms(2) k o] assms(1) k o by (auto simp: snap_inv_def)
qed

lemma snap_inv_cursor:
  assumes "snap_inv vp log s" "wf_policy R (vp_policy vp)" "b \<in> set (blobs (vp_policy vp))" "c < 256"
  shows "snap_inv vp log (s\<lparr>repair_cursors := bt_insert (b_sha256 b) c (repair_cursors s)\<rparr>)"
proof -
  let ?m = "bt_insert (b_sha256 b) c (repair_cursors s)"
  have k: "bt_ok ?m" "bt_keys ?m \<subseteq> policy_hashes vp"
    using assms(1,3) by (auto simp: snap_inv_def state_inv_def bt_ok_insert bt_keys_insert policy_hashes_def)
  then have "length ?m \<le> 128" using policy_sets [OF assms(2)] bt_length_le by blast
  moreover have "canonical_hex h 32 \<and> x < 256" if "(h, x) \<in> set ?m" for h x
    using that assms wf_policy_hash [OF assms(2,3)] bt_set_insert [of "b_sha256 b" c "repair_cursors s"]
    by (fastforce simp: snap_inv_def state_inv_def snapshot_ok_def)
  ultimately show ?thesis using assms(1) k by (fastforce simp: snap_inv_def state_inv_def snapshot_ok_def)
qed

section \<open>Authorisation keeps the invariant\<close>

definition vbytes :: "effect list \<Rightarrow> nat" where
  "vbytes log = sum_list (map (\<lambda>e. case e of E_Verify t b r \<Rightarrow> b_size b | _ \<Rightarrow> 0) log)"

definition nmirrors :: "effect list \<Rightarrow> nat" where
  "nmirrors log = length (filter (\<lambda>e. case e of E_Mirror t s b h n r \<Rightarrow> True | _ \<Rightarrow> False) log)"

lemma vbytes_simps [simp]:
  "vbytes [] = 0" "vbytes (log @ log') = vbytes log + vbytes log'"
  "vbytes (e # log) = (case e of E_Verify t b r \<Rightarrow> b_size b | _ \<Rightarrow> 0) + vbytes log"
  by (simp_all add: vbytes_def)

lemma nmirrors_simps [simp]:
  "nmirrors [] = 0" "nmirrors (log @ log') = nmirrors log + nmirrors log'"
  "nmirrors (e # log) = (case e of E_Mirror t s b h n r \<Rightarrow> 1 | _ \<Rightarrow> 0) + nmirrors log"
  by (auto simp: nmirrors_def split: effect.splits)

text \<open>Steps that read and write no remote blob.\<close>

definition quiet :: "effect list \<Rightarrow> effect list \<Rightarrow> bool" where
  "quiet log log' \<longleftrightarrow> set log \<subseteq> set log' \<and> vbytes log' = vbytes log \<and> nmirrors log' = nmirrors log"

lemma quiet_refl [simp]: "quiet log log"
  by (simp add: quiet_def)

lemma quiet_trans: "quiet a b \<Longrightarrow> quiet b c \<Longrightarrow> quiet a c"
  by (auto simp: quiet_def)

lemma guard_pass:
  assumes "pass_inv E vp w"
    and "\<And>w'. pass_inv E vp w' \<Longrightarrow> effects w' = effects w @ [E_Checked] \<Longrightarrow> snap w' = snap w \<Longrightarrow> Q () w'"
  shows "wp Q (\<lambda>_. fail_inv E vp) (guard_check E vp w)"
proof (rule guard_check_wp)
  fix w' :: rworld assume "snap w' = snap w" "effects w' = effects w @ [E_Checked]"
  then show "Q () w'" using assms pass_inv_effect [OF assms(1), of E_Checked w'] by simp
next
  fix e w' assume "same w w'"
  then show "fail_inv E vp w'" using assms(1) pass_fail fail_inv_same by blast
qed

lemma save_pass:
  assumes "pass_inv E vp w" "\<And>w'. pass_inv E vp w' \<Longrightarrow> same w w' \<Longrightarrow> Q () w'"
  shows "wp Q (\<lambda>_. fail_inv E vp) (save_e E w)"
  unfolding save_e_def wp_map_err
  by (rule save_wp) (use assms pass_inv_same pass_fail in \<open>auto intro: fail_inv_same\<close>)

lemma remove_request_pass:
  assumes "pass_inv E vp w" "\<And>w'. pass_inv E vp w' \<Longrightarrow> same w w' \<Longrightarrow> Q () w'"
  shows "wp Q (\<lambda>_. fail_inv E vp) (remove_request E i w)"
  by (rule remove_request_wp) (use assms pass_inv_same pass_fail in \<open>auto intro: fail_inv_same\<close>)

lemma write_request_pass:
  assumes "pass_inv E vp w" "\<And>w'. pass_inv E vp w' \<Longrightarrow> same w w' \<Longrightarrow> Q () w'"
  shows "wp Q (\<lambda>_. fail_inv E vp) (write_request E i json w)"
  by (rule write_request_wp) (use assms pass_inv_same pass_fail in \<open>auto intro: fail_inv_same\<close>)

lemma update_pass:
  assumes "pass_inv E vp w" "\<And>s. snap_inv vp (effects w) s \<Longrightarrow> snap_inv vp (effects w) (f s)"
    and "\<And>w'. pass_inv E vp w' \<Longrightarrow> effects w' = effects w \<Longrightarrow> Q () w'"
  shows "wp Q (\<lambda>_. fail_inv E vp) (update_snapshot f w)"
  using assms by (auto simp: pass_inv_def split: option.splits)

lemma pass_inv_step [simp]: "pass_inv E vp (step_tick w) = pass_inv E vp w"
  by (simp add: pass_inv_def)

lemma env_wf: "env_ok E vp \<Longrightarrow> wf_policy (rl E) (vp_policy vp)"
  by (simp add: env_ok_def)

lemma request_time_pass:
  assumes "pass_inv E vp w" "env_ok E vp" "0 < now"
  shows "wp (\<lambda>r w'. pass_inv E vp w' \<and> effects w' = effects w \<and> 0 < r) (\<lambda>_. fail_inv E vp) (request_time E key now w)"
proof -
  obtain s where s: "snap w = Some s" "snap_inv vp (effects w) s" using assms(1) by (auto simp: pass_inv_def)
  show ?thesis
  proof (cases "bt_get key (s_pending s)")
    case None
    then show ?thesis using s assms by (simp add: request_time_def)
  next
    case (Some p)
    then have "(key, p) \<in> set (s_pending s)" using s by (simp add: snap_inv_def state_inv_def bt_get_set)
    then have "0 < requested_at p"
      using s state_inv_pendingD [of vp s key p] by (auto simp: snap_inv_def pending_key_ok_def split: option.splits)
    moreover have "wp (\<lambda>r w'. pass_inv E vp w' \<and> effects w' = effects w \<and> 0 < r) (\<lambda>_. fail_inv E vp)
      (st_then (st_map_err State (remove_request E (pd_event_id p) w)) (\<lambda>_ w.
        st_then (update_snapshot (\<lambda>s. s\<lparr>s_pending := bt_remove key (s_pending s)\<rparr>) w) (\<lambda>_ w. (w, Inr now))))"
      unfolding wp_then wp_map_err
      by (intro remove_request_pass [OF assms(1)] update_pass)
        (auto simp: assms(3) same_def intro: snap_inv_pending_remove env_wf [OF assms(2)])
    ultimately show ?thesis using Some s assms by (simp add: request_time_def)
  qed
qed

lemma offer_request_pass:
  assumes "pass_inv E vp w" "env_ok E vp" "b \<in> set (blobs (vp_policy vp))" "t \<in> set (targets (vp_policy vp))" "0 < requested"
  shows "wp (\<lambda>r w'. pass_inv E vp w' \<and> quiet (effects w) (effects w')) (\<lambda>_. fail_inv E vp)
    (offer_request E (pending_key b t) requested request w)"
proof -
  have final: "pass_inv E vp (w'\<lparr>pending_dir := d, tick := n\<rparr>)" if "pass_inv E vp w'" for w' d n
    using that by (simp add: pass_inv_def)
  have hex: "canonical_hex (compute_id (rl E) request) 32" using assms(2) by (simp add: env_ok_def)
  show ?thesis
    unfolding offer_request_def Let_def wp_then
  proof (intro update_pass [OF assms(1)] save_pass, goal_cases)
    case (1 s)
    then show ?case using snap_inv_pending_insert [OF _ assms(2-5) hex] by simp
  next
    case (3 w1 w2)
    then have e: "effects w2 = effects w" by (simp add: same_def)
    show ?case
    proof (cases "request_to_json E request")
      case None
      then show ?thesis using 3 pass_fail by simp
    next
      case (Some json)
      then show ?thesis
        using 3 e by (auto intro!: write_request_pass pass_fail final simp: same_def split: option.splits)
    qed
  qed
qed

lemma fetch_signature_pass:
  assumes "pass_inv E vp w" "env_ok E vp" "b \<in> set (blobs (vp_policy vp))" "t \<in> set (targets (vp_policy vp))" "0 < requested"
    and "t_retention t = Owner" "repair_template (rl E) vp b t requested = Inr request"
  shows "wp (\<lambda>r w'. pass_inv E vp w' \<and> quiet (effects w) (effects w')) (\<lambda>_. fail_inv E vp)
    (fetch_signature E vp signer (pending_key b t) requested request w)"
proof (cases signer)
  case True
  have sign: "pass_inv E vp ((step_tick w')\<lparr>effects := effects w' @ [E_Sign request]\<rparr>)"
    if "pass_inv E vp w'" "effects w' = effects w @ [E_Checked]" for w'
    by (rule pass_inv_effect [OF that(1), of "E_Sign request"]) (use that assms in auto)
  show ?thesis
    unfolding fetch_signature_def if_P [OF True] wp_then wp_net_sign
    by (rule guard_pass [OF assms(1)], rule guard_pass [OF sign]) (auto simp: quiet_def)
qed (use offer_request_pass [OF assms(1-5)] in \<open>simp add: fetch_signature_def\<close>)

lemma authorisedI:
  "repair_template (rl E) vp b t requested = Inr request \<Longrightarrow> verify_return (rl E) bs request now = Inr ev
     \<Longrightarrow> authorised E vp b t (nostr_header (rl E) (event_to_json (rl E) ev))"
  unfolding authorised_def by blast

lemma consume_signature_pass:
  assumes "pass_inv E vp w" "env_ok E vp" "repair_template (rl E) vp b t requested = Inr request"
  shows "wp (\<lambda>a w'. pass_inv E vp w' \<and> quiet (effects w) (effects w') \<and> (\<forall>h. a = Ready h \<longrightarrow> authorised E vp b t h))
    (\<lambda>_. fail_inv E vp) (consume_signature E vp key request bytes_opt w)"
proof -
  let ?Q = "\<lambda>a w'. pass_inv E vp w' \<and> quiet (effects w) (effects w') \<and> (\<forall>h. a = Ready h \<longrightarrow> authorised E vp b t h)"
  have rest: "wp ?Q (\<lambda>_. fail_inv E vp)
    (st_then (update_snapshot (\<lambda>s. s\<lparr>s_pending := bt_remove key (s_pending s)\<rparr>) w') (\<lambda>_ w.
     st_then (save_e E w) (\<lambda>_ w.
     st_then (st_map_err State (remove_request E (compute_id (rl E) request) w)) (\<lambda>_ w.
       (w, Inr (case event of
                  Some ev \<Rightarrow> Ready (nostr_header (rl E) (event_to_json (rl E) ev))
                | None \<Rightarrow> NoSignature))))))"
    if "pass_inv E vp w'" "effects w' = effects w @ [E_Checked]"
      "\<And>ev. event = Some ev \<Longrightarrow> \<exists>bs now. verify_return (rl E) bs request now = Inr ev" for w' event
    unfolding wp_then wp_map_err
    by (intro update_pass [OF that(1)] save_pass remove_request_pass)
      (use that assms(3) in \<open>auto simp: same_def quiet_def split: option.splits
         intro: snap_inv_pending_remove env_wf [OF assms(2)] dest!: authorisedI [OF assms(3)] that(3)\<close>)
  show ?thesis
    unfolding consume_signature_def wp_then [where r = "guard_check E vp w"]
  proof (rule guard_pass [OF assms(1)])
    fix w' assume w': "pass_inv E vp w'" "effects w' = effects w @ [E_Checked]"
    then have s: "pass_inv E vp (step_tick w')" "effects (step_tick w') = effects w @ [E_Checked]" by simp_all
    show "wp ?Q (\<lambda>_. fail_inv E vp) (st_then (case bytes_opt of None \<Rightarrow> (w', Inr None)
        | Some bs \<Rightarrow> st_then (clock_now E w') (\<lambda>now w. (w, Inr (ok_opt (verify_return (rl E) bs request now)))))
      (\<lambda>event w.
        st_then (update_snapshot (\<lambda>s. s\<lparr>s_pending := bt_remove key (s_pending s)\<rparr>) w) (\<lambda>_ w.
        st_then (save_e E w) (\<lambda>_ w.
        st_then (st_map_err State (remove_request E (compute_id (rl E) request) w)) (\<lambda>_ w.
          (w, Inr (case event of
                     Some ev \<Rightarrow> Ready (nostr_header (rl E) (event_to_json (rl E) ev))
                   | None \<Rightarrow> NoSignature)))))))"
    proof (cases bytes_opt)
      case None
      then show ?thesis using rest [OF w', of None] by simp
    next
      case (Some bs)
      have ev: "\<exists>bs now. verify_return (rl E) bs request now = Inr ev"
        if "ok_opt (verify_return (rl E) bs request (clock_at E (tick w'))) = Some ev" for ev
        using that by auto
      show ?thesis
        using rest [OF s, of "ok_opt (verify_return (rl E) bs request (clock_at E (tick w')))", OF ev] Some
        by (simp add: clock_now_def del: wp_then wp_update)
    qed
  qed
qed

lemma authorise_pass:
  assumes "pass_inv E vp w" "env_ok E vp" "b \<in> set (blobs (vp_policy vp))" "t \<in> set (targets (vp_policy vp))"
    and "t_retention t = Owner"
  shows "wp (\<lambda>a w'. pass_inv E vp w' \<and> quiet (effects w) (effects w') \<and> (\<forall>h. a = Ready h \<longrightarrow> authorised E vp b t h))
    (\<lambda>_. fail_inv E vp) (authorise E vp signer b t w)"
proof -
  let ?Q = "\<lambda>a w'. pass_inv E vp w' \<and> quiet (effects w) (effects w') \<and> (\<forall>h. a = Ready h \<longrightarrow> authorised E vp b t h)"
  have fetch: "wp ?Q (\<lambda>_. fail_inv E vp)
      (st_then (fetch_signature E vp signer (pending_key b t) requested request w') (\<lambda>r w.
         case r of None \<Rightarrow> (w, Inr Awaiting) | Some bo \<Rightarrow> consume_signature E vp (pending_key b t) request bo w))"
    if "pass_inv E vp w'" "quiet (effects w) (effects w')" "0 < requested"
      "repair_template (rl E) vp b t requested = Inr request" for w' requested request
    unfolding wp_then
    by (rule wp_mono [OF fetch_signature_pass [OF that(1) assms(2-4) that(3) assms(5) that(4)]])
      (auto split: option.splits intro: quiet_trans [OF that(2)]
         elim!: wp_mono [OF consume_signature_pass [OF _ assms(2) that(4)]] dest: quiet_trans [OF that(2)]
         intro: quiet_trans)
  have clock: "0 < clock_at E n" for n using assms(2) by (simp add: env_ok_def)
  show ?thesis
    unfolding authorise_def Let_def wp_then wp_clock
  proof (rule guard_pass [OF assms(1)], rule wp_mono [OF request_time_pass [OF _ assms(2) clock]], goal_cases)
    case (2 w1 requested w2)
    then have q: "pass_inv E vp w2" "quiet (effects w) (effects w2)" "0 < requested" by (auto simp: quiet_def)
    then show ?case
      using fetch [OF q] pass_fail [OF q(1)] by (auto split: sum.splits option.splits)
  qed simp_all
qed

section \<open>Scanning and repairing keep the invariant\<close>

lemma obs_ok_insert:
  assumes "obs_ok vp log h obs" "t \<in> set (targets (vp_policy vp))" "\<And>at. x = Verified at \<Longrightarrow> evidence vp log h (t_id t)"
  shows "obs_ok vp log h (bt_insert (t_id t) x obs)"
proof -
  have "evidence vp log h tid" if entry: "(tid, Verified at) \<in> set (bt_insert (t_id t) x obs)" for tid at
  proof -
    consider "tid = t_id t" "x = Verified at" | "(tid, Verified at) \<in> set obs"
      using subsetD [OF bt_set_insert entry] by auto
    then show ?thesis using assms by cases (auto simp: obs_ok_def)
  qed
  then show ?thesis using assms(1,2) by (auto simp: obs_ok_def bt_ok_insert bt_keys_insert)
qed

lemma evidenceI:
  "t \<in> set (targets (vp_policy vp)) \<Longrightarrow> b \<in> set (blobs (vp_policy vp)) \<Longrightarrow> E_Verify t b (Inr ()) \<in> set log
     \<Longrightarrow> evidence vp log (b_sha256 b) (t_id t)"
  by (auto simp: evidence_def)

lemma verify_pass:
  assumes "pass_inv E vp w" "effects w = log @ [E_Checked]" "t \<in> set (targets (vp_policy vp))" "b \<in> set (blobs (vp_policy vp))"
  shows "pass_inv E vp ((step_tick w)\<lparr>effects := effects w @ [E_Verify t b r]\<rparr>)"
  by (rule pass_inv_effect [OF assms(1), of "E_Verify t b r"]) (use assms in auto)

definition scan_ok :: "verified_policy \<Rightarrow> blob \<Rightarrow> effect list \<Rightarrow> scan_state \<Rightarrow> bool" where
  "scan_ok vp b log sc \<longleftrightarrow> obs_ok vp log (b_sha256 b) (sc_obs sc) \<and> sc_used sc = vbytes log
     \<and> (\<forall>src \<in> set (sc_sources sc). src \<in> set (targets (vp_policy vp)) \<and> E_Verify src b (Inr ()) \<in> set log)"

lemma scan_pass:
  assumes "b \<in> set (blobs (vp_policy vp))"
  shows "pass_inv E vp w \<Longrightarrow> set ts \<subseteq> set (targets (vp_policy vp)) \<Longrightarrow> scan_ok vp b (effects w) sc \<Longrightarrow>
    wp (\<lambda>sc' w'. pass_inv E vp w' \<and> scan_ok vp b (effects w') sc' \<and> nmirrors (effects w') = nmirrors (effects w)
        \<and> sc_used sc' = sc_used sc + b_size b * length ts \<and> length (sc_sources sc') \<le> length (sc_sources sc) + length ts
        \<and> set (effects w) \<subseteq> set (effects w') \<and> (\<forall>t \<in> set ts. \<exists>r. E_Verify t b r \<in> set (effects w')))
      (\<lambda>_. fail_inv E vp) (scan_targets E vp b ts sc w)"
proof (induction ts arbitrary: sc w)
  case (Cons t ts)
  have t: "t \<in> set (targets (vp_policy vp))" using Cons.prems by simp
  show ?case
    unfolding scan_targets.simps wp_then wp_net_verify
  proof (rule guard_pass [OF Cons.prems(1)], rule guard_pass, goal_cases)
    case (1 w1)
    then show ?case using verify_pass [OF _ _ t assms] by simp
  next
    case (2 w1 w2)
    let ?r = "verify_at E (tick w1) t b"
    let ?sc = "\<lambda>obs src. \<lparr>sc_obs = bt_insert (t_id t) obs (sc_obs sc), sc_sources = src, sc_used = sc_used sc + b_size b\<rparr>"
    have log: "effects w2 = effects w @ [E_Checked, E_Verify t b ?r, E_Checked]" using 2 by simp
    have old: "obs_ok vp (effects w2) (b_sha256 b) (sc_obs sc)"
      using Cons.prems(3) log by (auto simp: scan_ok_def elim: obs_ok_mono)
    have ev: "evidence vp (effects w2) (b_sha256 b) (t_id t)" if "?r = Inr u" for u
      using that log by (intro evidenceI [OF t assms]) simp
    have ok: "scan_ok vp b (effects w2) (?sc (Verified n) (sc_sources sc @ [t]))" if "?r = Inr u" for u n
      using that Cons.prems(3) log t obs_ok_insert [OF old t, of "Verified n"] ev by (auto simp: scan_ok_def)
    have bad: "scan_ok vp b (effects w2) (?sc (Failed reason) (sc_sources sc))" for reason
      using Cons.prems(3) log obs_ok_insert [OF old t, of "Failed reason"] by (auto simp: scan_ok_def split: sum.splits)
    show ?case
    proof (cases ?r)
      case (Inl reason)
      then show ?thesis
        using Cons.prems(2) 2 log by (auto intro!: wp_mono [OF Cons.IH [OF _ _ bad]])
    next
      case (Inr u)
      then show ?thesis
        using Cons.prems(2) 2 log by (auto intro!: wp_mono [OF Cons.IH [OF _ _ ok [OF Inr, folded same_step(2) [of w2]]]])
    qed
  qed
qed simp

definition rep_ok :: "verified_policy \<Rightarrow> blob \<Rightarrow> effect list \<Rightarrow> repair_state \<Rightarrow> bool" where
  "rep_ok vp b log st \<longleftrightarrow> obs_ok vp log (b_sha256 b) (rs_obs st) \<and> rs_used st = vbytes log
     \<and> rs_writes st = nmirrors log \<and> rs_writes st \<le> rs_attempts st"

text \<open>One repair attempt: the invariant, one attempt more, and at most one read-back.\<close>

definition rep_post :: "renv \<Rightarrow> verified_policy \<Rightarrow> blob \<Rightarrow> effect list \<Rightarrow> nat \<Rightarrow> nat \<Rightarrow> repair_state \<Rightarrow> rworld \<Rightarrow> bool" where
  "rep_post E vp b log attempts used st w \<longleftrightarrow> pass_inv E vp w \<and> rep_ok vp b (effects w) st \<and> set log \<subseteq> set (effects w)
     \<and> rs_attempts st = attempts \<and> rs_used st \<le> used + b_size b"

lemma observe_simps [simp]:
  "rs_obs (observe t x st) = bt_insert (t_id t) x (rs_obs st)" "rs_used (observe t x st) = rs_used st"
  "rs_writes (observe t x st) = rs_writes st" "rs_attempts (observe t x st) = rs_attempts st"
  "rs_waiting (observe t x st) = rs_waiting st"
  by (simp_all add: observe_def)

lemma rep_ok_observe:
  assumes "rep_ok vp b log st" "t \<in> set (targets (vp_policy vp))" "\<And>at. x = Verified at \<Longrightarrow> evidence vp log (b_sha256 b) (t_id t)"
  shows "rep_ok vp b log (observe t x st)"
  using assms obs_ok_insert [of vp log "b_sha256 b" "rs_obs st" t x] by (simp add: rep_ok_def)

lemma rep_ok_quiet: "rep_ok vp b log st \<Longrightarrow> quiet log log' \<Longrightarrow> rep_ok vp b log' st"
  by (auto simp: rep_ok_def quiet_def elim: obs_ok_mono)

lemma read_back_pass:
  assumes "pass_inv E vp w" "env_ok E vp" "b \<in> set (blobs (vp_policy vp))" "t \<in> set (targets (vp_policy vp))"
    and "rep_ok vp b (effects w) st"
  shows "wp (rep_post E vp b (effects w) (rs_attempts st) (rs_used st)) (\<lambda>_. fail_inv E vp) (read_back E vp b t st w)"
proof -
  have ack: "rep_ok vp b (effects w) (observe t Acknowledged st)"
    using rep_ok_observe [OF assms(5,4), of Acknowledged] by simp
  show ?thesis
    unfolding read_back_def Let_def wp_then wp_net_verify
  proof (intro update_pass [OF assms(1)] save_pass guard_pass, goal_cases)
    case (1 s)
    then show ?case using ack snap_inv_observe [OF _ env_wf [OF assms(2)] assms(3)] by (simp add: rep_ok_def)
  next
    case (4 w1 w2 w3)
    then show ?case using verify_pass [OF _ _ assms(4,3)] by simp
  next
    case (5 w1 w2 w3 w4)
    let ?r = "verify_at E (tick w3) t b"
    let ?st = "(observe t Acknowledged st)\<lparr>rs_used := rs_used (observe t Acknowledged st) + b_size b\<rparr>"
    have log: "effects w4 = effects w @ [E_Checked, E_Verify t b ?r, E_Checked]" using 5 by (simp add: same_def)
    have st: "rep_ok vp b (effects w4) ?st"
      using ack log by (auto simp: rep_ok_def elim: obs_ok_mono)
    have ok: "rep_ok vp b (effects w4) (observe t x ?st)" if "\<And>at. x = Verified at \<Longrightarrow> ?r = Inr ()" for x
      using that log by (intro rep_ok_observe [OF st assms(4)] evidenceI [OF assms(4,3)]) simp
    show ?case
      using 5 log ok [of "Failed (projl ?r)"] ok [of "Verified (clock_at E (tick w4))"]
      by (auto simp: rep_post_def split: sum.splits)
  qed (use assms in \<open>simp_all\<close>)
qed

lemma send_mirror_pass:
  assumes "pass_inv E vp w" "env_ok E vp" "b \<in> set (blobs (vp_policy vp))" "t \<in> set (targets (vp_policy vp))"
    and "rep_ok vp b (effects w) st" "rs_writes st < rs_attempts st" "t_retention t = Owner"
    and "src \<in> set (targets (vp_policy vp))" "t_origin src \<noteq> t_origin t" "E_Verify src b (Inr ()) \<in> set (effects w)"
    and "authorised E vp b t header"
  shows "wp (rep_post E vp b (effects w) (rs_attempts st) (rs_used st)) (\<lambda>_. fail_inv E vp)
    (send_mirror E vp b t src header st w)"
  unfolding send_mirror_def wp_then [where r = "guard_check E vp w"]
proof (rule guard_pass [OF assms(1)])
  fix w1 assume w1: "pass_inv E vp w1" "effects w1 = effects w @ [E_Checked]"
  let ?st = "st\<lparr>rs_writes := rs_writes st + 1\<rparr>"
  have checked: "rep_ok vp b (effects w1) (observe t SignerUnavailable st)"
    using w1 assms(5) by (intro rep_ok_observe assms(4)) (auto simp: quiet_def elim: rep_ok_quiet)
  have sent: "wp (rep_post E vp b (effects w) (rs_attempts st) (rs_used st)) (\<lambda>_. fail_inv E vp)
      (st_then (net_mirror E t src b header now (step_tick w1)) (\<lambda>result w.
       st_then (guard_check E vp w) (\<lambda>_ w.
         case result of Inr u \<Rightarrow> read_back E vp b t ?st w | Inl reason \<Rightarrow> (w, Inr (observe t (Failed reason) ?st)))))"
    if "url_parse (rl E) (t_origin t) = Some origin" "u_host origin = Some host"
      "verify_upload (rl E) host (vp_owner vp) header (b_sha256 b) now" for origin host now
    unfolding wp_then wp_net_mirror
  proof (rule guard_pass, goal_cases)
    case 1
    then show ?case
      by (rule pass_inv_effect [OF w1(1), of "E_Mirror t src b header now (mirror_at E (tick (step_tick w1)) t src b header)"])
        (use w1 assms that in auto)
  next
    case (2 w2)
    let ?r = "mirror_at E (tick (step_tick w1)) t src b header"
    have st: "rep_ok vp b (effects w2) ?st"
      using 2 w1 assms(5,6) by (auto simp: rep_ok_def elim: obs_ok_mono)
    show ?case
    proof (cases ?r)
      case (Inl reason)
      then show ?thesis
        using 2 w1 rep_ok_observe [OF st assms(4), of "Failed reason"] by (auto simp: rep_post_def)
    next
      case (Inr u)
      have "wp (rep_post E vp b (effects w) (rs_attempts st) (rs_used st)) (\<lambda>_. fail_inv E vp)
        (read_back E vp b t ?st w2)"
        by (rule wp_mono [OF read_back_pass [OF 2(1) assms(2-4) st]]) (use 2 w1 in \<open>auto simp: rep_post_def\<close>)
      then show ?thesis using Inr by simp
    qed
  qed
  show "wp (rep_post E vp b (effects w) (rs_attempts st) (rs_used st)) (\<lambda>_. fail_inv E vp)
    (st_then (w1, ok_or Internal (url_parse (rl E) (t_origin t))) (\<lambda>origin w.
     st_then (w, ok_or Internal (u_host origin)) (\<lambda>host w.
     st_then (clock_now E w) (\<lambda>now w.
       if \<not> verify_upload (rl E) host (vp_owner vp) header (b_sha256 b) now
       then (w, Inr (observe t SignerUnavailable st))
       else
         let st = st\<lparr>rs_writes := rs_writes st + 1\<rparr>
         in st_then (net_mirror E t src b header now w) (\<lambda>result w.
            st_then (guard_check E vp w) (\<lambda>_ w.
              case result of
                Inr u \<Rightarrow> read_back E vp b t st w
              | Inl reason \<Rightarrow> (w, Inr (observe t (Failed reason) st))))))))"
  proof (cases "url_parse (rl E) (t_origin t)")
    case None
    then show ?thesis using pass_fail [OF w1(1)] by simp
  next
    case url: (Some origin)
    show ?thesis
    proof (cases "u_host origin")
      case None
      then show ?thesis using url pass_fail [OF w1(1)] by simp
    next
      case (Some host)
      then show ?thesis
        using url w1 checked sent [OF url Some, of "clock_at E (tick w1)"]
        by (cases "verify_upload (rl E) host (vp_owner vp) header (b_sha256 b) (clock_at E (tick w1))")
          (auto simp: rep_post_def Let_def clock_now_def simp del: wp_then wp_net_mirror One_nat_def)
    qed
  qed
qed

lemma repair_pair_pass:
  assumes "pass_inv E vp w" "env_ok E vp" "b \<in> set (blobs (vp_policy vp))" "t \<in> set (targets (vp_policy vp))"
    and "rep_ok vp b (effects w) st" "t_retention t = Owner"
    and "src \<in> set (targets (vp_policy vp))" "t_origin src \<noteq> t_origin t" "E_Verify src b (Inr ()) \<in> set (effects w)"
    and "0 < npairs" "npairs \<le> 256"
  shows "wp (rep_post E vp b (effects w) (rs_attempts st + 1) (rs_used st)) (\<lambda>_. fail_inv E vp)
    (repair_pair E vp signer b pair_index npairs t src st w)"
  unfolding repair_pair_def Let_def wp_then
proof (intro update_pass [OF assms(1)] save_pass, goal_cases)
  case (1 s)
  have "(pair_index + 1) mod npairs < 256" using assms(10,11) by (meson less_le_trans mod_less_divisor)
  then show ?case using 1 snap_inv_cursor [OF _ env_wf [OF assms(2)] assms(3)] by blast
next
  case (3 w1 w2)
  let ?st = "st\<lparr>rs_attempts := rs_attempts st + 1\<rparr>"
  have e: "effects w2 = effects w" using 3 by (simp add: same_def)
  show ?case
  proof (rule wp_mono [OF authorise_pass [OF 3(3) assms(2-4,6), of signer]], goal_cases)
    case (1 a w3)
    then have w3: "pass_inv E vp w3" "quiet (effects w) (effects w3)" by (auto simp: e)
    have st: "rep_ok vp b (effects w3) ?st" "rs_writes ?st < rs_attempts ?st"
      using rep_ok_quiet [OF assms(5) w3(2)] by (auto simp: rep_ok_def)
    have q: "rep_ok vp b (effects w3) (observe t x (?st\<lparr>rs_waiting := W\<rparr>))" if "\<And>at. x \<noteq> Verified at" for x W
      using that st(1) by (intro rep_ok_observe [OF _ assms(4)]) (auto simp: rep_ok_def)
    show ?case
    proof (cases a)
      case (Ready h)
      have "wp (rep_post E vp b (effects w3) (rs_attempts ?st) (rs_used ?st)) (\<lambda>_. fail_inv E vp)
          (send_mirror E vp b t src h ?st w3)"
        by (rule send_mirror_pass [OF w3(1) assms(2-4) st assms(6-8)])
          (use 1 Ready assms(9) w3(2) in \<open>auto simp: quiet_def\<close>)
      then have "wp (rep_post E vp b (effects w) (rs_attempts st + 1) (rs_used st)) (\<lambda>_. fail_inv E vp)
          (send_mirror E vp b t src h ?st w3)"
        by (rule wp_mono) (use w3(2) in \<open>auto simp: rep_post_def quiet_def\<close>)
      then show ?thesis using Ready by simp
    qed (use w3 q [of AwaitingAuthorisation] q [of SignerUnavailable] in \<open>auto simp: rep_post_def quiet_def\<close>)
  qed simp
qed simp

definition pairs_ok :: "verified_policy \<Rightarrow> blob \<Rightarrow> effect list \<Rightarrow> (target \<times> target) list \<Rightarrow> bool" where
  "pairs_ok vp b log pairs \<longleftrightarrow> length pairs \<le> 256 \<and>
     (\<forall>(t, src) \<in> set pairs. t \<in> set (targets (vp_policy vp)) \<and> src \<in> set (targets (vp_policy vp))
        \<and> t_retention t = Owner \<and> t_origin src \<noteq> t_origin t \<and> E_Verify src b (Inr ()) \<in> set log)"

definition rep_room :: "pass_limits \<Rightarrow> blob \<Rightarrow> repair_state \<Rightarrow> bool" where
  "rep_room l b st \<longleftrightarrow> rs_attempts st \<le> mirrors l
     \<and> rs_used st + b_size b * (mirrors l - rs_attempts st) \<le> verification_bytes l"

lemma rep_room_step:
  assumes "rep_room l b st" "rs_attempts st < mirrors l" "rs_attempts st' = rs_attempts st + 1"
    and "rs_used st' \<le> rs_used st + b_size b"
  shows "rep_room l b st'"
proof -
  obtain k where k: "mirrors l - rs_attempts st = Suc k" using assms(2) by (metis Suc_diff_Suc)
  then have "mirrors l - rs_attempts st' = k" using assms(3) by simp
  then show ?thesis using assms k by (simp add: rep_room_def)
qed

lemma repair_loop_pass:
  assumes "env_ok E vp" "b \<in> set (blobs (vp_policy vp))"
  shows "pass_inv E vp w \<Longrightarrow> pairs_ok vp b (effects w) pairs \<Longrightarrow> (offsets \<noteq> [] \<Longrightarrow> pairs \<noteq> [])
    \<Longrightarrow> rep_ok vp b (effects w) st \<Longrightarrow> rep_room l b st \<Longrightarrow>
    wp (\<lambda>st' w'. pass_inv E vp w' \<and> rep_ok vp b (effects w') st' \<and> rep_room l b st'
        \<and> set (effects w) \<subseteq> set (effects w'))
      (\<lambda>_. fail_inv E vp) (repair_loop E vp signer l b pairs start offsets st w)"
proof (induction offsets arbitrary: st w)
  case (Cons offset offsets)
  let ?i = "(start + offset) mod length pairs"
  obtain t src where p: "pairs ! ?i = (t, src)" by (cases "pairs ! ?i")
  have ne: "0 < length pairs" using Cons.prems(3) by simp
  then have "(t, src) \<in> set pairs" using p by (metis mod_less_divisor nth_mem)
  then have ts: "t \<in> set (targets (vp_policy vp))" "t_retention t = Owner" "src \<in> set (targets (vp_policy vp))"
    "t_origin src \<noteq> t_origin t" "E_Verify src b (Inr ()) \<in> set (effects w)" "length pairs \<le> 256"
    using Cons.prems(2) by (auto simp: pairs_ok_def)
  consider "floor_met vp (rs_obs st) \<or> rs_attempts st \<ge> mirrors l"
    | "\<not> (floor_met vp (rs_obs st) \<or> rs_attempts st \<ge> mirrors l)"
      "t_failure_group t \<in> groups vp (rs_obs st) \<or> t_id t \<in> rs_waiting st"
    | "\<not> (floor_met vp (rs_obs st) \<or> rs_attempts st \<ge> mirrors l)"
      "\<not> (t_failure_group t \<in> groups vp (rs_obs st) \<or> t_id t \<in> rs_waiting st)" by blast
  then show ?case
  proof cases
    case 1
    then show ?thesis using Cons.prems by (simp add: Let_def)
  next
    case 2
    then show ?thesis using Cons.IH [OF Cons.prems(1,2) _ Cons.prems(4,5)] ne p by (simp add: Let_def)
  next
    case 3
    have "wp (\<lambda>st' w'. wp (\<lambda>st' w'. pass_inv E vp w' \<and> rep_ok vp b (effects w') st' \<and> rep_room l b st'
          \<and> set (effects w) \<subseteq> set (effects w'))
        (\<lambda>_. fail_inv E vp) (repair_loop E vp signer l b pairs start offsets st' w'))
      (\<lambda>_. fail_inv E vp) (repair_pair E vp signer b ?i (length pairs) t src st w)"
    proof (rule wp_mono [OF repair_pair_pass [OF Cons.prems(1) assms ts(1) Cons.prems(4) ts(2-5) ne ts(6)]], goal_cases)
      case (1 st' w')
      then have "pairs_ok vp b (effects w') pairs" "rep_room l b st'"
        using Cons.prems(2,5) 3 by (auto simp: pairs_ok_def rep_post_def intro: rep_room_step)
      then show ?case
        using 1 ne by (intro wp_mono [OF Cons.IH]) (auto simp: rep_post_def)
    qed
    then show ?thesis using 3 p ts(2) by (simp add: Let_def)
  qed
qed simp

section \<open>The whole pass\<close>

definition acct :: "pass_limits \<Rightarrow> effect list \<Rightarrow> pass_state \<Rightarrow> bool" where
  "acct l log ps \<longleftrightarrow> ps_used ps = vbytes log \<and> ps_writes ps = nmirrors log \<and> ps_writes ps \<le> ps_attempts ps
     \<and> ps_attempts ps \<le> mirrors l \<and> ps_used ps \<le> verification_bytes l"

lemma length_repair_pairs: "length (repair_pairs sources ts) \<le> length sources * length ts"
proof (induction sources)
  case (Cons source sources)
  then show ?case
    using length_filter_le [of "\<lambda>t. t_retention t = Owner \<and> t_origin source \<noteq> t_origin t" ts]
    by (simp add: repair_pairs_def add_le_mono)
qed (simp add: repair_pairs_def)

lemma repair_pairs_ok:
  assumes "wf_policy R (vp_policy vp)" "scan_ok vp b log sc" "length (sc_sources sc) \<le> length (targets (vp_policy vp))"
  shows "pairs_ok vp b log (repair_pairs (sc_sources sc) (targets (vp_policy vp)))"
proof -
  have "length (targets (vp_policy vp)) \<le> 16" using assms(1) by (simp add: wf_policy_def)
  then have "length (sc_sources sc) * length (targets (vp_policy vp)) \<le> 16 * 16"
    using assms(3) by (intro mult_le_mono) auto
  then have "length (repair_pairs (sc_sources sc) (targets (vp_policy vp))) \<le> 256"
    using length_repair_pairs [of "sc_sources sc" "targets (vp_policy vp)"] by simp
  then show ?thesis using assms(2) by (auto simp: pairs_ok_def repair_pairs_def scan_ok_def)
qed

definition scanned :: "verified_policy \<Rightarrow> effect list \<Rightarrow> nat \<Rightarrow> bool" where
  "scanned vp log i \<longleftrightarrow> (\<forall>t \<in> set (targets (vp_policy vp)). \<exists>r. E_Verify t (blobs (vp_policy vp) ! i) r \<in> set log)"

lemma scanned_mono: "scanned vp log i \<Longrightarrow> set log \<subseteq> set log' \<Longrightarrow> scanned vp log' i"
  unfolding scanned_def by blast

lemma state_inv_scalars:
  "state_inv vp s \<Longrightarrow> c < 128 \<Longrightarrow> state_inv vp (s\<lparr>s_cursor := c\<rparr>)"
  "state_inv vp s \<Longrightarrow> state_inv vp (s\<lparr>observed_at := n\<rparr>)"
  by (simp_all add: state_inv_def snapshot_ok_def)

lemma snap_inv_scalars:
  "snap_inv vp log s \<Longrightarrow> c < 128 \<Longrightarrow> snap_inv vp log (s\<lparr>s_cursor := c\<rparr>)"
  "snap_inv vp log s \<Longrightarrow> snap_inv vp log (s\<lparr>observed_at := n\<rparr>)"
  using state_inv_scalars by (auto simp: snap_inv_def)

lemma snap_inv_blob:
  assumes "snap_inv vp log s" "wf_policy R (vp_policy vp)" "i < length (blobs (vp_policy vp))"
    and "obs_ok vp log (b_sha256 (blobs (vp_policy vp) ! i)) obs"
  shows "snap_inv vp log (s\<lparr>observations := bt_insert (b_sha256 (blobs (vp_policy vp) ! i)) obs (observations s),
    s_cursor := (i + 1) mod length (blobs (vp_policy vp))\<rparr>)"
proof -
  have b: "blobs (vp_policy vp) ! i \<in> set (blobs (vp_policy vp))" using assms(3) by simp
  have "(i + 1) mod length (blobs (vp_policy vp)) < length (blobs (vp_policy vp))" using assms(3) by (intro mod_less_divisor) linarith
  moreover have "length (blobs (vp_policy vp)) \<le> 128" using assms(2) by (simp add: wf_policy_def)
  ultimately have c: "(i + 1) mod length (blobs (vp_policy vp)) < 128" by linarith
  show ?thesis
    using snap_inv_scalars(1) [OF snap_inv_observe [OF assms(1,2) b assms(4)] c] .
qed

lemma pass_blob_pass:
  assumes "pass_inv E vp w" "env_ok E vp" "i < length (blobs (vp_policy vp))" "acct l (effects w) ps"
    and "ps_used ps + b_size (blobs (vp_policy vp) ! i) * (length (targets (vp_policy vp)) + mirrors l - ps_attempts ps)
      \<le> verification_bytes l"
  shows "wp (\<lambda>ps' w'. pass_inv E vp w' \<and> acct l (effects w') ps' \<and> set (effects w) \<subseteq> set (effects w')
        \<and> scanned vp (effects w') i
        \<and> (\<exists>s. snap w' = Some s \<and> s_cursor s = (i + 1) mod length (blobs (vp_policy vp))))
      (\<lambda>_. fail_inv E vp) (pass_blob E vp signer l i ps w)"
proof -
  let ?b = "blobs (vp_policy vp) ! i"
  let ?T = "length (targets (vp_policy vp))"
  let ?Q = "\<lambda>ps' w'. pass_inv E vp w' \<and> acct l (effects w') ps' \<and> set (effects w) \<subseteq> set (effects w')
        \<and> scanned vp (effects w') i
        \<and> (\<exists>s. snap w' = Some s \<and> s_cursor s = (i + 1) mod length (blobs (vp_policy vp)))"
  have b: "?b \<in> set (blobs (vp_policy vp))" using assms(3) by simp
  have wf: "wf_policy (rl E) (vp_policy vp)" using assms(2) by (simp add: env_ok_def)
  have scan0: "scan_ok vp ?b (effects w) \<lparr>sc_obs = [], sc_sources = [], sc_used = ps_used ps\<rparr>"
    using assms(4) by (simp add: scan_ok_def obs_ok_def acct_def)
  have attempts: "ps_attempts ps \<le> mirrors l" using assms(4) by (simp add: acct_def)
  have split: "b_size ?b * (?T + mirrors l - ps_attempts ps) = b_size ?b * ?T + b_size ?b * (mirrors l - ps_attempts ps)"
    using attempts by (simp add: add_mult_distrib2 [symmetric])
  have done_blob: "wp ?Q (\<lambda>_. fail_inv E vp)
      (st_then (update_snapshot (\<lambda>s. s\<lparr>observations := bt_insert (b_sha256 ?b) (rs_obs st) (observations s),
            s_cursor := (i + 1) mod length (blobs (vp_policy vp))\<rparr>) w') (\<lambda>_ w.
       st_then (save_e E w) (\<lambda>_ w.
         (w, Inr \<lparr>ps_used = rs_used st, ps_attempts = rs_attempts st, ps_writes = rs_writes st\<rparr>))))"
    if st: "pass_inv E vp w'" "rep_ok vp ?b (effects w') st" "rep_room l ?b st" "set (effects w) \<subseteq> set (effects w')"
      "scanned vp (effects w') i" for st w'
  proof -
    obtain s where s: "snap w' = Some s" "snap_inv vp (effects w') s" using st(1) by (auto simp: pass_inv_def)
    let ?w = "w'\<lparr>snap := Some (s\<lparr>observations := bt_insert (b_sha256 ?b) (rs_obs st) (observations s),
            s_cursor := (i + 1) mod length (blobs (vp_policy vp))\<rparr>)\<rparr>"
    have "pass_inv E vp ?w"
      using st(1) snap_inv_blob [OF s(2) wf assms(3), of "rs_obs st"] st(2) by (simp add: pass_inv_def rep_ok_def)
    then have "wp (\<lambda>_ w. ?Q \<lparr>ps_used = rs_used st, ps_attempts = rs_attempts st, ps_writes = rs_writes st\<rparr> w)
        (\<lambda>_. fail_inv E vp) (save_e E ?w)"
      by (rule save_pass) (use st in \<open>auto simp: same_def acct_def rep_ok_def rep_room_def\<close>)
    then show ?thesis using s(1) by simp
  qed
  show ?thesis
    unfolding pass_blob_def Let_def wp_then
  proof (rule wp_mono [OF scan_pass [OF b assms(1) subset_refl scan0]], goal_cases)
    case (1 sc w1)
    then obtain s where s: "snap w1 = Some s" by (auto simp: pass_inv_def)
    have len: "length (sc_sources sc) \<le> ?T" using 1 by simp
    have room: "rep_room l ?b \<lparr>rs_obs = sc_obs sc, rs_waiting = {}, rs_used = sc_used sc,
        rs_attempts = ps_attempts ps, rs_writes = ps_writes ps\<rparr>"
      using 1 assms(5) attempts split by (simp add: rep_room_def)
    have rep: "rep_ok vp ?b (effects w1) \<lparr>rs_obs = sc_obs sc, rs_waiting = {}, rs_used = sc_used sc,
        rs_attempts = ps_attempts ps, rs_writes = ps_writes ps\<rparr>"
      using 1 assms(4) by (simp add: rep_ok_def scan_ok_def acct_def)
    have pairs: "pairs_ok vp ?b (effects w1) (repair_pairs (sc_sources sc) (targets (vp_policy vp)))"
      using repair_pairs_ok [OF wf _ len] 1 by blast
    have scd: "scanned vp (effects w1) i" using 1 by (simp add: scanned_def)
    show ?case
      unfolding wp_snapshot_of s option.case
    proof (rule wp_mono [OF repair_loop_pass [OF assms(2) b _ pairs _ rep room]], goal_cases)
      case (3 st w2)
      then show ?case using 1 scanned_mono [OF scd] by (intro done_blob [unfolded wp_then]) auto
    qed (use 1 in auto)
  qed simp
qed

text \<open>
  \<open>cursor_at\<close>: the cursor stands \<open>k\<close> blobs after \<open>start\<close>, and those \<open>k\<close> blobs were scanned.
\<close>

definition cursor_at :: "verified_policy \<Rightarrow> nat \<Rightarrow> nat \<Rightarrow> rworld \<Rightarrow> bool" where
  "cursor_at vp start k w \<longleftrightarrow>
     (\<exists>s. snap w = Some s \<and> s_cursor s mod length (blobs (vp_policy vp)) = (start + k) mod length (blobs (vp_policy vp)))
     \<and> (\<forall>j < k. scanned vp (effects w) ((start + j) mod length (blobs (vp_policy vp))))"

lemma blob_loop_pass:
  assumes "env_ok E vp" "n = length (blobs (vp_policy vp))"
  shows "pass_inv E vp w \<Longrightarrow> acct l (effects w) ps \<Longrightarrow> cursor_at vp start (n - length offsets) w
    \<Longrightarrow> offsets = [n - length offsets..<n] \<Longrightarrow> length offsets \<le> n \<Longrightarrow>
    wp (\<lambda>ps' w'. pass_inv E vp w' \<and> acct l (effects w') ps' \<and> (\<exists>k. n - length offsets \<le> k \<and> k \<le> n \<and> cursor_at vp start k w'
          \<and> (offsets \<noteq> [] \<and> (\<forall>b \<in> set (blobs (vp_policy vp)).
               ps_used ps + b_size b * (length (targets (vp_policy vp)) + mirrors l - ps_attempts ps) \<le> verification_bytes l)
             \<longrightarrow> n - length offsets < k)))
      (\<lambda>_. fail_inv E vp) (blob_loop E vp signer l start offsets ps w)"
proof (induction offsets arbitrary: ps w)
  case Nil
  then show ?case by auto
next
  case (Cons offset offsets)
  let ?m = "n - length (offset # offsets)"
  let ?i = "(start + offset) mod n"
  let ?r = "b_size (blobs (vp_policy vp) ! ?i) * (length (targets (vp_policy vp)) + mirrors l - ps_attempts ps)"
  have n: "?m < n" "Suc ?m = n - length offsets" using Cons.prems(5) by auto
  have "offset # offsets = ?m # [Suc ?m..<n]"
    using Cons.prems(4) upt_conv_Cons [OF n(1)] by (rule trans)
  then have m: "offset = ?m" "offsets = [Suc ?m..<n]" by (metis list.inject)+
  have i: "?i < length (blobs (vp_policy vp))" using n(1) assms(2) by (metis less_nat_zero_code mod_less_divisor neq0_conv)
  show ?case
  proof (cases "ps_used ps + ?r > verification_bytes l")
    case True
    then have run: "blob_loop E vp signer l start (offset # offsets) ps w = (w, Inr ps)"
      using assms(2) by (simp add: Let_def)
    have "\<not> (\<forall>b \<in> set (blobs (vp_policy vp)).
        ps_used ps + b_size b * (length (targets (vp_policy vp)) + mirrors l - ps_attempts ps) \<le> verification_bytes l)"
      using True nth_mem [OF i] by (meson not_le)
    then show ?thesis
      unfolding run wp_simps using Cons.prems(1-3) n(1) less_imp_le by blast
  next
    case False
    have "wp (\<lambda>ps' w'. wp (\<lambda>ps'' w''. pass_inv E vp w'' \<and> acct l (effects w'') ps''
          \<and> (\<exists>k. ?m < k \<and> k \<le> n \<and> cursor_at vp start k w''))
        (\<lambda>_. fail_inv E vp) (blob_loop E vp signer l start offsets ps' w')) (\<lambda>_. fail_inv E vp)
      (pass_blob E vp signer l ?i ps w)"
    proof (rule wp_mono [OF pass_blob_pass [OF Cons.prems(1) assms(1) i Cons.prems(2)]], goal_cases)
      case (2 ps' w')
      then obtain s where s: "snap w' = Some s" "s_cursor s = (?i + 1) mod n" using assms(2) by auto
      have "scanned vp (effects w') ((start + j) mod n)" if "j < Suc ?m" for j
      proof (cases "j = ?m")
        case True
        then show ?thesis using 2 m(1) by simp
      next
        case False
        then have "scanned vp (effects w) ((start + j) mod n)"
          using Cons.prems(3) that assms(2) by (simp add: cursor_at_def)
        then show ?thesis using 2 scanned_mono by blast
      qed
      moreover have "s_cursor s mod n = (start + Suc ?m) mod n"
        using s m(1) by (simp add: mod_Suc_eq)
      ultimately have cur: "cursor_at vp start (n - length offsets) w'"
        unfolding cursor_at_def n(2) [symmetric] using s(1) assms(2) by blast
      have "offsets = [n - length offsets..<n]" "length offsets \<le> n" using m(2) n by simp_all
      then show ?case
      proof (intro wp_mono [OF Cons.IH [of w' ps']], goal_cases)
        case (6 ps'' w'')
        then obtain k where "n - length offsets \<le> k" "k \<le> n" "cursor_at vp start k w''" by blast
        moreover have "?m < k" using calculation(1) n(2) by linarith
        ultimately show ?case using 6 by blast
      qed (use 2 cur in auto)
    qed (use False in auto)
    then have "wp (\<lambda>ps'' w''. pass_inv E vp w'' \<and> acct l (effects w'') ps''
          \<and> (\<exists>k. ?m < k \<and> k \<le> n \<and> cursor_at vp start k w''))
        (\<lambda>_. fail_inv E vp) (blob_loop E vp signer l start (offset # offsets) ps w)"
      using False assms(2) by (simp add: Let_def)
    then show ?thesis by (rule wp_mono) (use less_imp_le in blast)+
  qed
qed

lemma reconcile_pass:
  assumes "pass_inv E vp w" "\<And>w'. pass_inv E vp w' \<Longrightarrow> same w w' \<Longrightarrow> Q () w'"
  shows "wp Q (\<lambda>_. fail_inv E vp) (reconcile_pending_files E keep w)"
  by (rule reconcile_wp) (use assms pass_inv_same pass_fail in \<open>auto intro: fail_inv_same\<close>)

lemma keep_pending_key:
  assumes "keep_pending E vp s now key p"
  shows "key \<in> policy_keys vp"
proof -
  from assms obtain h i where k: "split_once (CHR '':'') key = Some (h, i)"
    by (auto simp: keep_pending_def split: option.splits)
  obtain b where b: "List.find (\<lambda>b. b_sha256 b = h) (blobs (vp_policy vp)) = Some b"
    using assms k by (auto simp: keep_pending_def split: option.splits)
  obtain t where t: "List.find (\<lambda>t. t_id t = i \<and> t_retention t = Owner) (targets (vp_policy vp)) = Some t"
    using assms k b by (auto simp: keep_pending_def split: option.splits)
  have "key = h @ CHR '':'' # i" using split_once_Some [OF k] by simp
  then have "key = pending_key b t" using b t by (auto simp: find_Some_iff pending_key_def)
  moreover have "b \<in> set (blobs (vp_policy vp))" "t \<in> set (targets (vp_policy vp))"
    using b t by (auto simp: find_Some_iff)
  ultimately show ?thesis by (auto simp: policy_keys_def)
qed

text \<open>Pruning leaves exactly the requests of this policy, whatever was pending before.\<close>

lemma prune_pass:
  assumes "log_ok E vp (effects w)" "env_ok E vp" "snap w = Some s" "state_inv vp s" "s_event_id s = vp_event_id vp"
    and "bt_keys (observations s) \<subseteq> policy_hashes vp"
    and "\<And>hash obs. (hash, obs) \<in> set (observations s) \<Longrightarrow> obs_ok vp (effects w) hash obs"
  shows "wp (\<lambda>_ w'. pass_inv E vp w' \<and> effects w' = effects w
      \<and> (\<exists>s' now. snap w' = Some s' \<and> s' = s\<lparr>s_pending := bt_retain (keep_pending E vp s now) (s_pending s)\<rparr>))
    (\<lambda>_. fail_inv E vp) (prune_pending E vp w)"
proof -
  let ?kept = "bt_retain (keep_pending E vp s (clock_at E (tick w))) (s_pending s)"
  let ?w = "(step_tick w)\<lparr>snap := Some (s\<lparr>s_pending := ?kept\<rparr>)\<rparr>"
  have ok: "bt_ok ?kept" using assms(4) by (simp add: state_inv_def bt.ok_ret)
  have keys: "bt_keys ?kept \<subseteq> policy_keys vp"
    using keep_pending_key by (fastforce simp: bt_keys_def bt_set_retain)
  have len: "length ?kept \<le> 2048" using policy_sets [OF env_wf [OF assms(2)]] bt_length_le [OF ok keys] by blast
  have "state_inv vp (s\<lparr>s_pending := ?kept\<rparr>)"
    using assms(4) ok len state_inv_pendingD [OF assms(4)] by (intro state_inv_pending) (auto simp: bt_set_retain)
  then have inv: "pass_inv E vp ?w"
    using assms keys by (simp add: pass_inv_def snap_inv_def)
  have "wp (\<lambda>_ w'. pass_inv E vp w' \<and> effects w' = effects w
      \<and> (\<exists>s' now. snap w' = Some s' \<and> s' = s\<lparr>s_pending := bt_retain (keep_pending E vp s now) (s_pending s)\<rparr>))
     (\<lambda>_. fail_inv E vp) (st_then (save_e E ?w) (\<lambda>_ w.
       st_map_err State (reconcile_pending_files E (map (pd_event_id \<circ> snd) ?kept) w)))"
    unfolding wp_then wp_map_err by (intro save_pass [OF inv] reconcile_pass) (auto simp: same_def)
  then show ?thesis using assms(3) by (simp add: prune_pending_def Let_def)
qed

lemma deferred_ok:
  "bt_ok (deferred_observations (vp_policy vp))"
  "bt_keys (deferred_observations (vp_policy vp)) = policy_hashes vp"
  "(hash, obs) \<in> set (deferred_observations (vp_policy vp)) \<Longrightarrow> obs_ok vp log hash obs"
proof -
  let ?one = "bt_collect (map (\<lambda>t. (t_id t, Deferred)) (targets (vp_policy vp)))"
  have set_fold: "set (fold (\<lambda>(k, v). bt_insert k v) kvs m) \<subseteq> set kvs \<union> set m"
    for kvs :: "('a::linorder \<times> 'b) list" and m
  proof (induction kvs arbitrary: m)
    case (Cons kv kvs)
    then show ?case using bt_set_insert [of "fst kv" "snd kv" m] by (cases kv) fastforce
  qed simp
  show "bt_ok (deferred_observations (vp_policy vp))"
    by (simp add: deferred_observations_def bt_ok_collect)
  show "bt_keys (deferred_observations (vp_policy vp)) = policy_hashes vp"
    by (force simp: deferred_observations_def bt_keys_collect policy_hashes_def)
  assume "(hash, obs) \<in> set (deferred_observations (vp_policy vp))"
  then have o: "obs = ?one"
    using set_fold [of "map (\<lambda>b. (b_sha256 b, ?one)) (blobs (vp_policy vp))" "[]"]
    by (auto simp: deferred_observations_def bt_collect_def)
  have "x = Deferred" if "(k, x) \<in> set ?one" for k x
    using that set_fold [of "map (\<lambda>t. (t_id t, Deferred)) (targets (vp_policy vp))" "[]"] by (auto simp: bt_collect_def)
  then show "obs_ok vp log hash obs"
    by (force simp: obs_ok_def o bt_ok_collect bt_keys_collect)
qed

lemma state_inv_fresh:
  assumes "env_ok E vp"
  shows "state_inv vp (fresh_snapshot vp)"
  using assms by (auto simp: state_inv_def snapshot_ok_def env_ok_def wf_policy_def)

lemma state_inv_invalid: "state_inv vp s \<Longrightarrow> state_inv vp (invalid_snapshot s)"
  by (auto simp: state_inv_def snapshot_ok_def invalid_snapshot_def)

lemma invalidate_fail:
  assumes "fail_inv E vp w"
    and "\<And>w'. fail_inv E vp w' \<Longrightarrow> effects w' = effects w \<Longrightarrow> snap w' = map_option invalid_snapshot (snap w) \<Longrightarrow> Q () w'"
    and "\<And>e w'. fail_inv E vp w' \<Longrightarrow> effects w' = effects w \<Longrightarrow> snap w' = map_option invalid_snapshot (snap w) \<Longrightarrow> X e w'"
  shows "wp Q X (invalidate E w)"
proof -
  have clear: "wp Q X (clear_pending_files E w1)"
    if "fail_inv E vp w1" "effects w1 = effects w" "snap w1 = map_option invalid_snapshot (snap w)" for w1
  proof (rule clear_wp)
    fix x w2 assume "same w1 w2"
    then show "Q x w2" using that assms(2) [of w2] fail_inv_same [OF that(1)] by (simp add: same_def)
  next
    fix e w2 assume "same w1 w2"
    then show "X e w2" using that assms(3) [of w2] fail_inv_same [OF that(1)] by (simp add: same_def)
  qed
  show ?thesis
  proof (cases "snap w")
    case None
    then show ?thesis using clear [OF assms(1)] by (simp add: invalidate_def)
  next
    case (Some s)
    let ?w = "w\<lparr>snap := Some (invalid_snapshot s)\<rparr>"
    have "fail_inv E vp ?w" using assms(1) Some state_inv_invalid by (simp add: fail_inv_def)
    then have i: "fail_inv E vp w' \<and> effects w' = effects w \<and> snap w' = map_option invalid_snapshot (snap w)"
      if "same ?w w'" for w'
      using that fail_inv_same [of E vp ?w w'] Some by (simp add: same_def)
    have "wp (\<lambda>_ w. wp Q X (clear_pending_files E w)) X (save E ?w)"
      by (rule save_wp) (use i clear assms(3) in blast)+
    then show ?thesis using Some by (simp add: invalidate_def)
  qed
qed

text \<open>The first half of a pass: check, accept, reset the observations and prune.\<close>

lemma limits_validate_Inr:
  "limits_validate l vp = Inr u \<longleftrightarrow> 1 \<le> mirrors l \<and> mirrors l \<le> 16 \<and> 0 < verification_bytes l
     \<and> verification_bytes l \<le> 256 * MAX_BLOB_BYTES
     \<and> (0 < desired_groups (vp_policy vp) \<longrightarrow> (\<forall>b \<in> set (blobs (vp_policy vp)).
          b_size b * (length (targets (vp_policy vp)) + mirrors l) \<le> verification_bytes l))"
  by (auto simp: limits_validate_def not_less not_le Suc_le_eq)

text \<open>Where the rotation resumes: a policy event that was not yet accepted starts at the first blob.\<close>

definition start_cursor :: "verified_policy \<Rightarrow> rworld \<Rightarrow> nat" where
  "start_cursor vp w =
     (case snap w of None \<Rightarrow> 0 | Some s \<Rightarrow> if s_event_id s = vp_event_id vp then s_cursor s else 0)"

lemma accept_pass:
  assumes "log_ok E vp (effects w)" "env_ok E vp" "\<And>s. snap w = Some s \<Longrightarrow> state_inv vp s"
    and "\<And>w' s. effects w' = effects w \<Longrightarrow> snap w' = Some s \<Longrightarrow> state_inv vp s \<Longrightarrow> s_event_id s = vp_event_id vp
      \<Longrightarrow> s_cursor s = start_cursor vp w \<Longrightarrow> Q () w'"
  shows "wp Q (\<lambda>_. fail_inv E vp) (accept E vp w)"
proof (rule accept_wp)
  fix w' :: rworld and s' assume "snap w' = Some s'" "effects w' = effects w"
    "s' = fresh_snapshot vp \<and> (\<forall>s. snap w = Some s \<longrightarrow> s_event_id s \<noteq> vp_event_id vp)
      \<or> snap w = Some s' \<and> s_event_id s' = vp_event_id vp"
  then show "Q () w'"
    using assms(3,4) state_inv_fresh [OF assms(2)] by (auto simp: start_cursor_def split: option.splits)
next
  fix e :: state_error and w' :: rworld assume "effects w' = effects w"
    "snap w' = snap w \<or> snap w' = Some (fresh_snapshot vp) \<and> (\<forall>s. snap w = Some s \<longrightarrow> succeeds s (fresh_snapshot vp))"
  then show "fail_inv E vp w'" using assms(1,3) state_inv_fresh [OF assms(2)] by (auto simp: fail_inv_def)
qed

text \<open>Everything after the queue was pruned.\<close>

definition pass_shape :: "verified_policy \<Rightarrow> nat \<Rightarrow> rworld \<Rightarrow> bool" where
  "pass_shape vp start w =
     (if desired_groups (vp_policy vp) = 0 then set (effects w) \<subseteq> {E_Checked}
      else \<exists>k. k \<le> length (blobs (vp_policy vp)) \<and> (blobs (vp_policy vp) \<noteq> [] \<longrightarrow> 0 < k) \<and> cursor_at vp start k w)"

definition pass_post :: "renv \<Rightarrow> verified_policy \<Rightarrow> pass_limits \<Rightarrow> nat \<Rightarrow> pass_report \<Rightarrow> rworld \<Rightarrow> bool" where
  "pass_post E vp l start r w \<longleftrightarrow> pass_inv E vp w \<and> limits_validate l vp = Inr ()
     \<and> (\<exists>s now ps. snap w = Some s \<and> observed_at s = Some now
          \<and> r = report_of vp s now (desired_groups (vp_policy vp) = 0) ps \<and> acct l (effects w) ps) \<and> pass_shape vp start w"

lemma pass_shape_mono:
  assumes "pass_shape vp start w" "snap w = Some s" "snap w' = Some s'" "s_cursor s' = s_cursor s"
    and "effects w' = effects w @ [E_Checked]"
  shows "pass_shape vp start w'"
proof -
  have "cursor_at vp start k w'" if "cursor_at vp start k w" for k
    using that assms scanned_mono [of vp "effects w" _ "effects w'"] by (auto simp: cursor_at_def)
  then show ?thesis using assms(1,5) by (fastforce simp: pass_shape_def split: if_splits)
qed

lemma finish_pass:
  assumes "pass_inv E vp w" "env_ok E vp" "limits_validate l vp = Inr ()" "acct l (effects w) ps" "pass_shape vp start w"
  shows "wp (pass_post E vp l start) (\<lambda>_. fail_inv E vp) (pass_finish E vp ps w)"
  unfolding pass_finish_def wp_then
proof (rule guard_pass [OF assms(1)])
  fix w1 assume w1: "pass_inv E vp w1" "effects w1 = effects w @ [E_Checked]" "snap w1 = snap w"
  then obtain s where s: "snap w1 = Some s" "snap_inv vp (effects w1) s" by (auto simp: pass_inv_def)
  have prune: "wp (\<lambda>_ w'. pass_inv E vp w' \<and> effects w' = effects w1
      \<and> (\<exists>s' now. snap w' = Some s' \<and> s' = s\<lparr>s_pending := bt_retain (keep_pending E vp s now) (s_pending s)\<rparr>))
    (\<lambda>_. fail_inv E vp) (prune_pending E vp w1)"
    by (rule prune_pass) (use w1(1) s assms(2) in \<open>auto simp: pass_inv_def snap_inv_def\<close>)
  show "wp (\<lambda>_ w. wp (\<lambda>now w. wp (\<lambda>_ w. wp (\<lambda>s w. wp (\<lambda>_ w. wp (pass_post E vp l start) (\<lambda>_. fail_inv E vp)
      (w, Inr (report_of vp s now (desired_groups (vp_policy vp) = 0) ps))) (\<lambda>_. fail_inv E vp) (save_e E w))
      (\<lambda>_. fail_inv E vp) (snapshot_of w)) (\<lambda>_. fail_inv E vp) (update_snapshot (\<lambda>s. s\<lparr>observed_at := Some now\<rparr>) w))
      (\<lambda>_. fail_inv E vp) (clock_now E w)) (\<lambda>_. fail_inv E vp) (prune_pending E vp w1)"
  proof (rule wp_mono [OF prune], goal_cases)
    case (1 x w2)
    then obtain s2 where s2: "snap w2 = Some s2" "s_cursor s2 = s_cursor s" "snap_inv vp (effects w2) s2"
      by (auto simp: pass_inv_def)
    let ?s = "s2\<lparr>observed_at := Some (clock_at E (tick w2))\<rparr>"
    let ?w = "(step_tick w2)\<lparr>snap := Some ?s\<rparr>"
    have inv: "pass_inv E vp ?w"
      using 1 s2 snap_inv_scalars(2) [OF s2(3)] by (auto simp: pass_inv_def)
    have "wp (\<lambda>_ w3. pass_post E vp l start (report_of vp ?s (clock_at E (tick w2)) (desired_groups (vp_policy vp) = 0) ps) w3)
        (\<lambda>_. fail_inv E vp) (save_e E ?w)"
    proof (rule save_pass [OF inv])
      fix w3 assume w3: "pass_inv E vp w3" "same ?w w3"
      then have e: "effects w3 = effects w @ [E_Checked]" "snap w3 = Some ?s" using 1 w1 by (simp_all add: same_def)
      then have "pass_shape vp start w3" using pass_shape_mono [OF assms(5), of s w3 ?s] s w1 s2 by simp
      then show "pass_post E vp l start (report_of vp ?s (clock_at E (tick w2)) (desired_groups (vp_policy vp) = 0) ps) w3"
        unfolding pass_post_def using w3(1) e assms(3,4) by (auto simp: acct_def)
    qed
    then show ?case using s2 by simp
  qed simp
qed

lemma work_pass:
  assumes "env_ok E vp" "limits_validate l vp = Inr ()" "pass_inv E vp w" "effects w = [E_Checked]" "snap w = Some s"
  shows "wp (pass_post E vp l (s_cursor s)) (\<lambda>_. fail_inv E vp) (pass_work E vp signer l (s_cursor s) w)"
proof -
  let ?ps0 = "\<lparr>ps_used = 0, ps_attempts = 0, ps_writes = 0\<rparr>"
  have a0: "acct l (effects w) ?ps0" using assms(4) by (simp add: acct_def)
  show ?thesis
  proof (cases "desired_groups (vp_policy vp) = 0")
    case True
    then show ?thesis
      using finish_pass [OF assms(3,1,2) a0] assms(4) by (simp add: pass_work_def pass_shape_def)
  next
    case False
    let ?n = "length (blobs (vp_policy vp))"
    have cur: "cursor_at vp (s_cursor s) (?n - length [0..<?n]) w" using assms(5) by (simp add: cursor_at_def)
    have "wp (\<lambda>ps w. wp (pass_post E vp l (s_cursor s)) (\<lambda>_. fail_inv E vp) (pass_finish E vp ps w)) (\<lambda>_. fail_inv E vp)
        (blob_loop E vp signer l (s_cursor s) [0..<?n] ?ps0 w)"
    proof (rule wp_mono [OF blob_loop_pass [OF assms(1) refl assms(3) a0 cur]], goal_cases)
      case (3 ps w')
      have "\<forall>b \<in> set (blobs (vp_policy vp)).
          b_size b * (length (targets (vp_policy vp)) + mirrors l) \<le> verification_bytes l"
        using assms(2) False by (simp add: limits_validate_Inr)
      then have "pass_shape vp (s_cursor s) w'" using 3 False by (auto simp: pass_shape_def)
      then show ?case using 3 by (intro finish_pass assms) auto
    qed auto
    then show ?thesis using False by (simp add: pass_work_def)
  qed
qed

lemma begin_pass:
  assumes "env_ok E vp" "limits_validate l vp = Inr ()" "effects w = [E_Checked]" "snap w = Some s" "state_inv vp s"
    and "s_event_id s = vp_event_id vp"
  shows "wp (pass_post E vp l (s_cursor s)) (\<lambda>_. fail_inv E vp) (pass_begin E vp signer l w)"
proof -
  let ?s = "s\<lparr>observations := deferred_observations (vp_policy vp), observed_at := None\<rparr>"
  let ?w = "w\<lparr>snap := Some ?s\<rparr>"
  have log: "log_ok E vp [E_Checked]" using log_ok_snoc [of E vp "[]" E_Checked] by simp
  have s: "state_inv vp ?s"
    by (rule state_inv_scalars(2), rule state_inv_observations [OF assms(5) env_wf [OF assms(1)]])
      (use deferred_ok in auto)
  have "wp (\<lambda>_ w. wp (\<lambda>_ w. wp (pass_post E vp l (s_cursor s)) (\<lambda>_. fail_inv E vp) (pass_work E vp signer l (s_cursor s) w))
      (\<lambda>_. fail_inv E vp) (prune_pending E vp w)) (\<lambda>_. fail_inv E vp) (save_e E ?w)"
    unfolding save_e_def wp_map_err
  proof (rule save_wp)
    fix x w1 assume "same ?w w1"
    then have e: "effects w1 = [E_Checked]" "snap w1 = Some ?s" using assms(3) by (simp_all add: same_def)
    have prune: "wp (\<lambda>_ w'. pass_inv E vp w' \<and> effects w' = effects w1
        \<and> (\<exists>s' now. snap w' = Some s' \<and> s' = ?s\<lparr>s_pending := bt_retain (keep_pending E vp ?s now) (s_pending ?s)\<rparr>))
      (\<lambda>_. fail_inv E vp) (prune_pending E vp w1)"
      by (rule prune_pass [OF _ assms(1) e(2) s]) (use log e(1) assms(6) deferred_ok in auto)
    show "wp (\<lambda>_ w. wp (pass_post E vp l (s_cursor s)) (\<lambda>_. fail_inv E vp) (pass_work E vp signer l (s_cursor s) w))
        (\<lambda>_. fail_inv E vp) (prune_pending E vp w1)"
    proof (rule wp_mono [OF prune], goal_cases)
      case (1 x w2)
      then obtain s2 where "snap w2 = Some s2" "s_cursor s2 = s_cursor s" by auto
      then show ?case using work_pass [OF assms(1,2), of w2 s2 signer] 1 e(1) by simp
    qed simp
  next
    fix e w1 assume "same ?w w1"
    then show "fail_inv E vp w1" using assms(3) log s by (simp add: same_def fail_inv_def)
  qed
  then show ?thesis using assms(4) by (simp add: pass_begin_def)
qed

lemma pass_inner_pass:
  assumes "env_ok E vp" "effects w = []" "\<And>s. snap w = Some s \<Longrightarrow> state_inv vp s"
  shows "wp (pass_post E vp l (start_cursor vp w)) (\<lambda>_. fail_inv E vp) (pass_inner E vp signer l w)"
  unfolding pass_inner_def wp_then wp_map_err
proof (rule guard_check_wp)
  fix e :: rerror and w1 assume "same w w1"
  then show "fail_inv E vp w1" using assms by (auto simp: same_def fail_inv_def)
next
  let ?fin = "\<lambda>v. wp (pass_post E vp l (start_cursor vp w)) (\<lambda>_. fail_inv E vp) (pass_begin E vp signer l v)"
  fix w1 :: rworld assume "snap w1 = snap w" "effects w1 = effects w @ [E_Checked]"
  then have w1: "snap w1 = snap w" "effects w1 = [E_Checked]" "log_ok E vp (effects w1)"
    using assms(2) log_ok_snoc [of E vp "[]" E_Checked] by auto
  have stop: "wp (\<lambda>_. ?fin) (\<lambda>_. fail_inv E vp)
      (if desired_groups (vp_policy vp) = 0 then st_map_err State (invalidate E w2) else (w2, Inr ()))"
    if l: "limits_validate l vp = Inr ()" and w2: "effects w2 = effects w1" "snap w2 = Some s2" "state_inv vp s2"
      "s_event_id s2 = vp_event_id vp" "s_cursor s2 = start_cursor vp w" for w2 s2
  proof -
    have "fail_inv E vp w2" using w2 w1 by (simp add: fail_inv_def)
    then have "wp (\<lambda>_. ?fin) (\<lambda>_. fail_inv E vp) (invalidate E w2)"
    proof (rule invalidate_fail)
      fix w' assume "fail_inv E vp w'" "effects w' = effects w2" "snap w' = map_option invalid_snapshot (snap w2)"
      then show "?fin w'"
        using w1 w2 state_inv_invalid [OF w2(3)] begin_pass [OF assms(1) l, of w' "invalid_snapshot s2"]
        by (simp add: invalid_snapshot_def)
    qed
    then show ?thesis using begin_pass [OF assms(1) l, of w2 s2] w1 w2 by simp
  qed
  have ok: "wp (\<lambda>_ w. wp (\<lambda>_. ?fin) (\<lambda>_. fail_inv E vp)
      (if desired_groups (vp_policy vp) = 0 then st_map_err State (invalidate E w) else (w, Inr ())))
      (\<lambda>_. fail_inv E vp) (accept E vp w1)" if "limits_validate l vp = Inr ()"
    by (rule accept_pass [OF w1(3) assms(1)]) (use w1 assms(3) stop [OF that] in \<open>auto simp: start_cursor_def\<close>)
  show "wp (\<lambda>_ w. wp (\<lambda>_ w. wp (\<lambda>_. ?fin) (\<lambda>_. fail_inv E vp)
      (if desired_groups (vp_policy vp) = 0 then st_map_err State (invalidate E w) else (w, Inr ())))
      (\<lambda>e. fail_inv E vp) (accept E vp w)) (\<lambda>_. fail_inv E vp) (w1, limits_validate l vp)"
  proof (cases "limits_validate l vp")
    case (Inl e)
    then show ?thesis using w1 assms(3) by (simp add: fail_inv_def)
  next
    case (Inr u)
    then have l: "limits_validate l vp = Inr ()" by simp
    show ?thesis unfolding l wp_simps by (rule ok [OF l])
  qed
qed

text \<open>A pass that fails leaves no observation and no pending request behind.\<close>

lemma run_pass_pass:
  assumes "env_ok E vp" "effects w = []" "\<And>s. snap w = Some s \<Longrightarrow> state_inv vp s"
  shows "wp (pass_post E vp l (start_cursor vp w)) (\<lambda>_ w'. fail_inv E vp w'
      \<and> (\<forall>s. snap w' = Some s \<longrightarrow> observations s = [] \<and> observed_at s = None \<and> s_pending s = []))
    (run_pass E vp signer l w)"
proof (cases "pass_inner E vp signer l w")
  case (Pair w' r)
  let ?X = "\<lambda>w'. fail_inv E vp w'
      \<and> (\<forall>s. snap w' = Some s \<longrightarrow> observations s = [] \<and> observed_at s = None \<and> s_pending s = [])"
  have inner: "wp (pass_post E vp l (start_cursor vp w)) (\<lambda>_. fail_inv E vp) (w', r)"
    using pass_inner_pass [OF assms] Pair by metis
  show ?thesis
  proof (cases r)
    case (Inl e)
    have inv: "wp (\<lambda>_ w. ?X w) (\<lambda>_ w. ?X w) (invalidate E w')"
      using inner Inl by (intro invalidate_fail) (auto simp: invalid_snapshot_def)
    then show ?thesis using Pair Inl by (simp add: run_pass_def)
  qed (use inner Pair in \<open>simp add: run_pass_def\<close>)
qed

end
