(* ===== verification/Replica_Guarantees.thy ===== *)
theory Replica_Guarantees
  imports Replica_Pass
begin

text \<open>
  The guarantees of policies, state directories and maintenance passes, each with a concrete run.
  The sample libraries accept one owner's policy with two owner targets and one blob; in the sample
  environment the second target misses the blob until it has been mirrored.
\<close>

section \<open>A sample coordinator\<close>

definition sample_hex :: string where "sample_hex = replicate 64 (CHR ''a'')"

lemma sample_hex_ok [simp]: "canonical_hex sample_hex 32"
  by (simp add: canonical_hex_def sample_hex_def byte_class_defs)

definition target_a :: target where
  "target_a = \<lparr>t_id = ''a'', t_origin = ''https://a.example/'', t_failure_group = ''ga'', t_retention = Owner\<rparr>"

definition target_b :: target where
  "target_b = \<lparr>t_id = ''b'', t_origin = ''https://b.example/'', t_failure_group = ''gb'', t_retention = Owner\<rparr>"

definition sample_blob :: blob where
  "sample_blob = \<lparr>b_sha256 = sample_hex, b_size = 5\<rparr>"

lemma sample_data [simp]:
  "t_id target_a = ''a''" "t_id target_b = ''b''" "t_origin target_a = ''https://a.example/''"
  "t_origin target_b = ''https://b.example/''" "t_failure_group target_a = ''ga''" "t_failure_group target_b = ''gb''"
  "t_retention target_a = Owner" "t_retention target_b = Owner"
  "b_sha256 sample_blob = sample_hex" "b_size sample_blob = 5"
  by (simp_all add: target_a_def target_b_def sample_blob_def)

definition sample_policy :: policy where
  "sample_policy = \<lparr>policy_type = ''wildbloom.replica-policy'', p_version = 1, p_id = ''home'', p_revision = 1,
     p_expires_at = 1000, p_profile = DirectHttps, desired_groups = 2, targets = [target_a, target_b],
     blobs = [sample_blob]\<rparr>"

lemma sample_policy_simps [simp]:
  "policy_type sample_policy = ''wildbloom.replica-policy''" "p_version sample_policy = 1" "p_id sample_policy = ''home''"
  "p_revision sample_policy = 1" "p_expires_at sample_policy = 1000" "p_profile sample_policy = DirectHttps"
  "desired_groups sample_policy = 2" "targets sample_policy = [target_a, target_b]" "blobs sample_policy = [sample_blob]"
  by (simp_all add: sample_policy_def)

definition sample_url :: "string \<Rightarrow> url" where
  "sample_url s = \<lparr>u_str = s, u_scheme = ''https'',
     u_host = Some (if s = ''https://a.example/'' then ''a.example'' else ''b.example''), u_path = ''/'',
     u_query = None, u_fragment = None, u_username = [], u_password = None, u_port = None\<rparr>"

definition sample_strict :: strict_event where
  "sample_strict = \<lparr>se_id = sample_hex, se_pubkey = sample_hex, se_created_at = 100, se_kind = 30078,
     se_tags = policy_tags sample_policy, se_content = ''{}'', se_sig = replicate 128 (CHR ''a'')\<rparr>"

definition sample_event :: event where
  "sample_event = \<lparr>ev_id = sample_hex, ev_pubkey = sample_hex, ev_created_at = 100, ev_kind = 30078,
     ev_tags = policy_tags sample_policy, ev_content = ''{}''\<rparr>"

definition sample_rlibs :: rlibs where
  "sample_rlibs = \<lparr>url_parse = (\<lambda>s. Some (sample_url s)), sha3_256 = (\<lambda>_. []),
     strict_from_json = (\<lambda>_. Some sample_strict), event_from_json = (\<lambda>_. Some sample_event),
     event_verify = (\<lambda>_. True), event_to_json = (\<lambda>_. []), pubkey_from_hex = Some, compute_id = (\<lambda>_. sample_hex),
     policy_to_json = (\<lambda>_. Some ''{}''), policy_from_json = (\<lambda>_. Some sample_policy), b64url = (\<lambda>_. []),
     verify_upload = (\<lambda>_ _ _ _ _. True)\<rparr>"

lemma sample_rlibs_simps [simp]:
  "url_parse sample_rlibs s = Some (sample_url s)" "strict_from_json sample_rlibs bs = Some sample_strict"
  "event_from_json sample_rlibs bs = Some sample_event" "event_verify sample_rlibs ev"
  "pubkey_from_hex sample_rlibs s = Some s" "compute_id sample_rlibs u = sample_hex"
  "policy_to_json sample_rlibs p = Some ''{}''" "policy_from_json sample_rlibs s = Some sample_policy"
  "verify_upload sample_rlibs h o' hd' x n" "event_to_json sample_rlibs ev = []" "b64url sample_rlibs bs = []"
  by (simp_all add: sample_rlibs_def)

definition sample_vp :: verified_policy where
  "sample_vp = \<lparr>vp_policy = sample_policy, vp_event_id = sample_hex, vp_owner = sample_hex\<rparr>"

lemma sample_vp_simps [simp]:
  "vp_policy sample_vp = sample_policy" "vp_event_id sample_vp = sample_hex" "vp_owner sample_vp = sample_hex"
  by (simp_all add: sample_vp_def)

lemma sample_accepts:
  "profile_accepts sha3 DirectHttps (sample_url s)"
  by (simp add: profile_accepts_def sample_url_def valid_domain_def valid_label_def byte_class_defs
      strip_suffix_def strip_prefix_def parse_ipv4_def ipv4_octet_def)

lemma sample_wf [simp]: "wf_policy sample_rlibs sample_policy"
proof -
  have "owner_groups [target_a, target_b] = {''ga'', ''gb''}"
    by (auto simp: owner_groups_def intro: image_eqI [of _ _ target_a] image_eqI [of _ _ target_b])
  then show ?thesis
    using sample_accepts by (auto simp: wf_policy_def wf_target_def wf_blob_def MAX_BLOB_BYTES_def
        identifier_ok_def byte_class_defs sample_url_def)
qed

lemma sample_tags_small:
  "length (policy_tags sample_policy) \<le> 8"
  "\<forall>tag \<in> set (policy_tags sample_policy). length tag \<le> 3 \<and> (\<forall>part \<in> set tag. length part \<le> 256)"
  using policy_tags_small [of sample_policy] by (simp_all add: identifier_ok_def byte_class_defs u64_max_def)

lemma sample_sig: "canonical_hex (se_sig sample_strict) 64"
  by (simp add: sample_strict_def canonical_hex_def byte_class_defs)

lemma sample_signed: "signed_event sample_rlibs [] sample_hex n = Inr sample_event"
  using sample_tags_small sample_sig by (fastforce simp: signed_event_def sample_strict_def sample_event_def)

lemma sample_verify_policy [simp]: "verify_policy sample_rlibs [] sample_hex 200 = Inr sample_vp"
proof -
  have v: "validate_policy sample_rlibs sample_policy = Inr ()" by (simp add: validate_policy_Inr)
  show ?thesis
    by (simp add: verify_policy_def sample_signed v policy_template_def sample_vp_def)
      (simp add: sample_event_def sat_add_def u64_max_def)
qed

definition sample_env :: renv where
  "sample_env = \<lparr>rl = sample_rlibs, snapshot_to_json = (\<lambda>_. Some []), snapshot_from_json = (\<lambda>_. None),
     request_to_json = (\<lambda>_. Some []), clock_at = (\<lambda>_. 200), policy_file_at = (\<lambda>_. Some (Regular [])),
     private_at = (\<lambda>_. True), lock_at = (\<lambda>_. True), io_at = (\<lambda>_. True), write_at = (\<lambda>_. W_Ok), outside_at = (\<lambda>_ d. d),
     verify_at = (\<lambda>n t b. if t_id t = ''a'' \<or> 30 < n then Inr () else Inl Unavailable),
     mirror_at = (\<lambda>_ _ _ _ _. Inr ()), sign_at = (\<lambda>_ _. Some [])\<rparr>"

lemma sample_env_simps [simp]:
  "rl sample_env = sample_rlibs" "snapshot_to_json sample_env s = Some []" "request_to_json sample_env u = Some []"
  "clock_at sample_env n = 200" "policy_file_at sample_env n = Some (Regular [])" "io_at sample_env n"
  "write_at sample_env n = W_Ok" "outside_at sample_env n d = d"
  "verify_at sample_env n t b = (if t_id t = ''a'' \<or> 30 < n then Inr () else Inl Unavailable)"
  "mirror_at sample_env n t src b h = Inr ()" "sign_at sample_env n u = Some []"
  by (simp_all add: sample_env_def)

definition sample_world :: rworld where
  "sample_world = \<lparr>tick = 0, root_dir = [], pending_dir = [], snap = None, effects = []\<rparr>"

lemma sample_guard [simp]:
  "guard_check sample_env sample_vp w = (w\<lparr>tick := tick w + 3, effects := effects w @ [E_Checked]\<rparr>, Inr ())"
  by (simp add: guard_check_def clock_now_def load_policy_def read_bounded_def read_file_bounded_def step_tick_def
      MAX_POLICY_BYTES_def)

lemma sample_save [simp]:
  assumes "map_of (root_dir w) ''state.json'' \<noteq> Some Irregular" "snap w = Some s"
  shows "save sample_env w = (w\<lparr>tick := tick w + 1, root_dir := AList.update ''state.json'' (Regular []) (root_dir w)\<rparr>, Inr ())"
  using assms by (simp add: save_def write_private_def step_tick_def dir_of_def set_dir_def)

definition sample_limits :: pass_limits where
  "sample_limits = \<lparr>verification_bytes = 100, mirrors = 1\<rparr>"

definition sample_request :: "blob \<Rightarrow> target \<Rightarrow> nat \<Rightarrow> unsigned_event" where
  "sample_request b t now = the (ok_opt (repair_template sample_rlibs sample_vp b t now))"

lemma sample_repair [simp]:
  "repair_template sample_rlibs sample_vp b t now = Inr (sample_request b t now)"
  by (simp add: sample_request_def repair_template_def sample_url_def)

lemma sample_return [simp]: "verify_return sample_rlibs [] (sample_request b t n) m = Inr sample_event"
proof -
  have p: "ue_pubkey (sample_request b t n) = sample_hex"
    by (simp add: sample_request_def repair_template_def sample_url_def)
  have tags: "\<exists>server. ue_tags (sample_request b t n) = repair_tags sample_vp b server n"
    by (auto simp: sample_request_def repair_template_def sample_url_def)
  have f: "\<exists>server hash. find_tag ''server'' (ue_tags (sample_request b t n)) = Some server
      \<and> find_tag ''x'' (ue_tags (sample_request b t n)) = Some hash"
    using tags by (auto simp: repair_tags_def find_tag_def)
  show ?thesis
    using f p sample_signed by (auto simp: verify_return_def) (simp add: sample_event_def)
qed

lemmas sample_run_defs = run_pass_def pass_inner_def limits_validate_def sample_limits_def MAX_BLOB_BYTES_def accept_def
    sample_world_def Let_def clear_pending_files_def reconcile_pending_files_def guard_io_def step_tick_def
    pass_begin_def snapshot_of_def update_snapshot_def save_e_def deferred_observations_def bt_collect_def
    prune_pending_def clock_now_def bt_retain_def pass_work_def pass_blob_def net_verify_def pass_finish_def
    repair_pairs_def floor_met_def groups_def is_verified_def bt_get_def repair_pair_def authorise_def request_time_def
    fetch_signature_def net_sign_def consume_signature_def send_mirror_def read_back_def
    net_mirror_def remove_request_def remove_pending_def bt_remove_def observe_def sample_url_def

definition sample_snapshot :: snapshot where
  "sample_snapshot = (fresh_snapshot sample_vp)\<lparr>observed_at := Some 200, repair_cursors := [(sample_hex, 0)],
     observations := [(sample_hex, [(''a'', Verified 200), (''b'', Verified 200)])]\<rparr>"

definition sample_after :: rworld where
  "sample_after = \<lparr>tick = 69, root_dir = [(''state.json'', Regular [])], pending_dir = [], snap = Some sample_snapshot,
     effects = [E_Checked, E_Checked, E_Verify target_a sample_blob (Inr ()), E_Checked, E_Checked,
       E_Verify target_b sample_blob (Inl Unavailable), E_Checked, E_Checked, E_Checked,
       E_Sign (sample_request sample_blob target_b 200), E_Checked, E_Checked, E_Checked,
       E_Mirror target_b target_a sample_blob (nostr_header sample_rlibs []) 200 (Inr ()),
       E_Checked, E_Checked, E_Verify target_b sample_blob (Inr ()), E_Checked, E_Checked]\<rparr>"

definition sample_report :: pass_report where
  "sample_report = report_of sample_vp sample_snapshot 200 False \<lparr>ps_used = 15, ps_attempts = 1, ps_writes = 1\<rparr>"

lemma sample_pass:
  "run_pass sample_env sample_vp True sample_limits sample_world = (sample_after, Inr sample_report)"
  by (simp add: sample_run_defs fresh_snapshot_def sample_after_def sample_report_def sample_snapshot_def)

lemma sample_env_ok: "env_ok sample_env sample_vp"
  by (simp add: env_ok_def)

lemma sample_world_start: "effects sample_world = []" "snap sample_world = None"
  by (simp_all add: sample_world_def)

lemma sample_after_simps:
  "snap sample_after = Some sample_snapshot" "length (effects sample_after) = 19"
  "effects sample_after ! 13 = E_Mirror target_b target_a sample_blob (nostr_header sample_rlibs []) 200 (Inr ())"
  by (simp_all add: sample_after_def)

text \<open>A coordinator whose policy file has gone fails at the first check.\<close>

definition gone_env :: renv where
  "gone_env = sample_env\<lparr>policy_file_at := (\<lambda>_. None)\<rparr>"

lemma gone_pass:
  "run_pass gone_env sample_vp True sample_limits (sample_world\<lparr>snap := Some sample_snapshot\<rparr>)
     = (\<lparr>tick = 5, root_dir = [(''state.json'', Regular [])], pending_dir = [],
         snap = Some (invalid_snapshot sample_snapshot), effects = []\<rparr>, Inl (State S_Io))"
  by (simp add: gone_env_def sample_env_def sample_run_defs guard_check_def load_policy_def read_bounded_def invalidate_def
      save_def write_private_def dir_of_def set_dir_def MAX_STATE_BYTES_def)

lemma gone_env_ok: "env_ok gone_env sample_vp"
  using sample_env_ok by (simp add: env_ok_def gone_env_def)

lemma sample_snapshot_inv: "state_inv sample_vp sample_snapshot"
  by (simp add: state_inv_def snapshot_ok_def sample_snapshot_def policy_hashes_def identifier_ok_def byte_class_defs bt_ok_def)

section \<open>Policies\<close>

theorem verify_policy_sound_witness:
  "wf_policy sample_rlibs (vp_policy sample_vp) \<and> vp_owner sample_vp = sample_hex \<and> 200 < p_expires_at (vp_policy sample_vp)"
  using verify_policy_sound [OF sample_verify_policy] by (elim conjE) (intro conjI)

theorem template_verifies_witness:
  "verify_policy sample_rlibs [] sample_hex 90 = Inr \<lparr>vp_policy = sample_policy, vp_event_id = sample_hex, vp_owner = sample_hex\<rparr>"
proof -
  let ?u = "\<lparr>ue_pubkey = sample_hex, ue_created_at = 100, ue_kind = 30078, ue_tags = policy_tags sample_policy,
    ue_content = ''{}''\<rparr>"
  have u: "policy_template sample_rlibs sample_policy sample_hex 100 = Inr ?u" by (simp add: policy_template_Inr)
  have ev: "signed_as sample_rlibs sample_hex ?u [] sample_event"
    using sample_sig by (simp add: signed_as_def) (simp add: sample_strict_def sample_event_def)
  have "ev_id sample_event = sample_hex" by (simp add: sample_event_def)
  then show ?thesis
    using template_verifies [OF u ev, of 90] by (simp add: MAX_POLICY_BYTES_def u64_max_def sat_add_def)
qed

section \<open>The state directory\<close>

theorem accept_no_rollback_witness:
  "\<exists>s'. snap (fst (accept sample_env (sample_vp\<lparr>vp_event_id := ''older''\<rparr>) (sample_world\<lparr>snap := Some sample_snapshot\<rparr>))) = Some s'
     \<and> (s' = sample_snapshot \<or> succeeds sample_snapshot s' \<and> s_revision sample_snapshot < s_revision s')"
  using accept_no_rollback [of "sample_world\<lparr>snap := Some sample_snapshot\<rparr>" sample_snapshot sample_env
      "sample_vp\<lparr>vp_event_id := ''older''\<rparr>"] by auto

definition keep_env :: renv where
  "keep_env = sample_env\<lparr>snapshot_from_json := (\<lambda>_. Some sample_snapshot)\<rparr>"

theorem save_open_roundtrip_witness:
  "snap (fst (state_open keep_env (sample_world\<lparr>root_dir := [(''state.json'', Regular [])]\<rparr>))) = Some sample_snapshot"
proof -
  let ?w = "sample_world\<lparr>snap := Some sample_snapshot\<rparr>"
  have save: "save sample_env ?w = (?w\<lparr>tick := 1, root_dir := [(''state.json'', Regular [])]\<rparr>, Inr ())"
    by (simp add: sample_world_def)
  show ?thesis
    using save_open_roundtrip [OF save, of sample_snapshot keep_env
        "sample_world\<lparr>root_dir := [(''state.json'', Regular [])]\<rparr>"] sample_snapshot_inv
    by (simp add: state_inv_def calm_def keep_env_def) (simp add: sample_env_def sample_world_def)
qed

theorem reconcile_exact_witness:
  "reconcile_pending_files sample_env [] (sample_world\<lparr>pending_dir := [(''notes.txt'', Regular [])]\<rparr>)
     = (sample_world\<lparr>tick := 2, pending_dir := [(''notes.txt'', Regular [])]\<rparr>, Inr ())
   \<and> \<not> stale_name [] ''notes.txt''"
proof -
  have run: "reconcile_pending_files sample_env [] (sample_world\<lparr>pending_dir := [(''notes.txt'', Regular [])]\<rparr>)
     = (sample_world\<lparr>tick := 2, pending_dir := [(''notes.txt'', Regular [])]\<rparr>, Inr ())"
    by (simp add: reconcile_pending_files_def guard_io_def step_tick_def stale_name_def pending_file_id_def
        strip_prefix_def sample_world_def)
  have "\<not> stale_name [] ''notes.txt''"
    using reconcile_exact [OF run] by (auto split: if_splits)
  then show ?thesis using run by (rule conjI [rotated])
qed

section \<open>Passes\<close>

lemma pass_ok:
  assumes "run_pass E vp signer l w = (w', Inr r)" "env_ok E vp" "effects w = []" "\<And>s. snap w = Some s \<Longrightarrow> state_inv vp s"
  shows "pass_post E vp l (start_cursor vp w) r w'"
  using run_pass_pass [OF assms(2-4), of l signer] assms(1) by simp

text \<open>C18: A report counts only custody observed in this very pass: every target reported as verified answered a
  complete verification of that blob during the pass, and the reported group count is the number of
  distinct owner failure groups so verified.\<close>

theorem pass_reports_evidence:
  assumes "run_pass E vp signer l w = (w', Inr r)" "env_ok E vp" "effects w = []" "\<And>s. snap w = Some s \<Longrightarrow> state_inv vp s"
  shows "\<forall>br \<in> set (r_blobs r). verified_configured_groups br = card (groups vp (br_observations br))
    \<and> (\<forall>tid at. bt_get tid (br_observations br) = Some (Verified at) \<longrightarrow>
         (\<exists>t b. t \<in> set (targets (vp_policy vp)) \<and> b \<in> set (blobs (vp_policy vp)) \<and> t_id t = tid
            \<and> b_sha256 b = br_sha256 br \<and> E_Verify t b (Inr ()) \<in> set (effects w')))"
proof
  fix br assume br: "br \<in> set (r_blobs r)"
  obtain s now ps where s: "snap w' = Some s" "snap_inv vp (effects w') s"
    "r = report_of vp s now (desired_groups (vp_policy vp) = 0) ps"
    using pass_ok [OF assms] by (auto simp: pass_post_def pass_inv_def)
  obtain b where b: "b \<in> set (blobs (vp_policy vp))" "br = blob_report_of vp s b" using br s(3) by (auto simp: report_of_def)
  have "evidence vp (effects w') (b_sha256 b) tid" if v: "bt_get tid (br_observations br) = Some (Verified at)" for tid at
  proof -
    obtain obs where o: "bt_get (b_sha256 b) (observations s) = Some obs" "bt_get tid obs = Some (Verified at)"
      using v b(2) by (auto simp: blob_report_of_def Let_def bt_get_def split: option.splits)
    have "(b_sha256 b, obs) \<in> set (observations s)" using o(1) s(2) by (simp add: bt_get_set snap_inv_def state_inv_def)
    then have "obs_ok vp (effects w') (b_sha256 b) obs" using s(2) by (auto simp: snap_inv_def)
    then show ?thesis using o(2) bt_get_set [of obs tid "Verified at"] by (auto simp: obs_ok_def)
  qed
  then show "verified_configured_groups br = card (groups vp (br_observations br))
    \<and> (\<forall>tid at. bt_get tid (br_observations br) = Some (Verified at) \<longrightarrow>
         (\<exists>t b. t \<in> set (targets (vp_policy vp)) \<and> b \<in> set (blobs (vp_policy vp)) \<and> t_id t = tid
            \<and> b_sha256 b = br_sha256 br \<and> E_Verify t b (Inr ()) \<in> set (effects w')))"
    using b(2) by (simp add: evidence_def blob_report_of_def Let_def)
qed

theorem pass_reports_evidence_witness:
  "\<exists>t b. t \<in> set (targets sample_policy) \<and> b \<in> set (blobs sample_policy) \<and> t_id t = ''b''
     \<and> b_sha256 b = sample_hex \<and> E_Verify t b (Inr ()) \<in> set (effects sample_after)"
proof -
  let ?br = "blob_report_of sample_vp sample_snapshot sample_blob"
  have br: "?br \<in> set (r_blobs sample_report)" by (simp add: sample_report_def report_of_def)
  have "bt_get ''b'' (br_observations ?br) = Some (Verified 200)" "br_sha256 ?br = sample_hex"
    by (simp_all add: blob_report_of_def Let_def sample_snapshot_def bt_get_def)
  then show ?thesis
    using bspec [OF pass_reports_evidence [OF sample_pass sample_env_ok sample_world_start(1)] br]
      sample_world_start(2) by simp
qed

text \<open>C4: Whatever happens during a pass, and whether it succeeds or fails, every mirror it ever sent went to an
  owner target, from a different configured origin that had already passed a complete read of the
  blob in this pass, immediately after a check that the policy was unchanged, under a header that is
  the owner's own signed return of exactly this repair request and that passed upload authorisation
  for the target's host.\<close>

theorem pass_mirrors_authorised:
  assumes "env_ok E vp" "effects w = []" "\<And>s. snap w = Some s \<Longrightarrow> state_inv vp s"
    and "run_pass E vp signer l w = (w', res)" "i < length (effects w')"
    and "effects w' ! i = E_Mirror t src b header now sent"
  shows "t_retention t = Owner \<and> t \<in> set (targets (vp_policy vp)) \<and> src \<in> set (targets (vp_policy vp))
    \<and> b \<in> set (blobs (vp_policy vp)) \<and> t_origin src \<noteq> t_origin t
    \<and> E_Verify src b (Inr ()) \<in> set (take i (effects w')) \<and> 0 < i \<and> effects w' ! (i - 1) = E_Checked
    \<and> authorised E vp b t header
    \<and> (\<exists>origin host. url_parse (rl E) (t_origin t) = Some origin \<and> u_host origin = Some host
         \<and> verify_upload (rl E) host (vp_owner vp) header (b_sha256 b) now)"
proof -
  have "log_ok E vp (effects w')"
    using run_pass_pass [OF assms(1-3), of l signer] assms(4)
    by (cases res) (auto simp: pass_post_def pass_inv_def fail_inv_def)
  then have st: "step_ok E vp (take i (effects w')) (E_Mirror t src b header now sent)"
    using assms(5,6) by (metis log_ok_def)
  then have i: "0 < i" by (cases i) auto
  then have "last (take i (effects w')) = effects w' ! (i - 1)"
    using assms(5) by (subst last_conv_nth) auto
  then show ?thesis using st i by auto
qed

theorem pass_mirrors_authorised_witness:
  "t_retention target_b = Owner \<and> E_Verify target_a sample_blob (Inr ()) \<in> set (take 13 (effects sample_after))
     \<and> authorised sample_env sample_vp sample_blob target_b (nostr_header sample_rlibs [])"
  using pass_mirrors_authorised [OF sample_env_ok sample_world_start(1) _ sample_pass, of 13]
    sample_world_start(2) sample_after_simps(2,3) by simp





text \<open>C21: No blob starves. With limits the engine accepts, a successful pass over an active policy resumes at the
  cursor the last pass left (or at the first blob of a newly accepted policy), verifies at least one
  further blob on every target, and leaves the cursor right behind the blobs it verified. A policy
  that asks for no groups makes no network call at all.\<close>

theorem pass_makes_progress:
  assumes "run_pass E vp signer l w = (w', Inr r)" "env_ok E vp" "effects w = []" "\<And>s. snap w = Some s \<Longrightarrow> state_inv vp s"
  shows "if desired_groups (vp_policy vp) = 0 then stopped r \<and> set (effects w') \<subseteq> {E_Checked}
    else \<exists>k s'. 0 < k \<and> k \<le> length (blobs (vp_policy vp)) \<and> snap w' = Some s'
      \<and> s_cursor s' mod length (blobs (vp_policy vp)) = (start_cursor vp w + k) mod length (blobs (vp_policy vp))
      \<and> (\<forall>j < k. \<forall>t \<in> set (targets (vp_policy vp)). \<exists>v.
           E_Verify t (blobs (vp_policy vp) ! ((start_cursor vp w + j) mod length (blobs (vp_policy vp)))) v \<in> set (effects w'))"
proof (cases "desired_groups (vp_policy vp) = 0")
  case True
  then show ?thesis using pass_ok [OF assms] by (auto simp: pass_post_def pass_shape_def report_of_def)
next
  case False
  then have "blobs (vp_policy vp) \<noteq> []" using assms(2) by (simp add: env_ok_def wf_policy_def)
  then show ?thesis
    using pass_ok [OF assms] False by (auto simp: pass_post_def pass_shape_def cursor_at_def scanned_def)
qed

theorem pass_makes_progress_witness:
  "\<exists>k s'. 0 < k \<and> k \<le> length (blobs sample_policy) \<and> snap sample_after = Some s'"
  using pass_makes_progress [OF sample_pass sample_env_ok sample_world_start(1)] sample_world_start(2) by auto

end
