(* ===== verification/Pool_Guarantees.thy ===== *)
theory Pool_Guarantees
  imports Pool_Pass Replica_Guarantees
begin

text \<open>
  What owner repair guarantees: exact and authorised uploads, reports backed by evidence, bounded
  transfers, no panic on a validated receipt, and an end of the process with its authority. The
  sample run restores the second copy of a one-part pool.
\<close>

section \<open>Consequences of the invariant\<close>

definition group_evidence :: "manifest \<Rightarrow> peffect list \<Rightarrow> nat \<Rightarrow> string set" where
  "group_evidence m l i =
     n_failure_group ` {n \<in> set (pt_targets (m_parts m ! i)). part_evidence l (m_parts m ! i) n}"

lemma group_evidence_finite [simp]: "finite (group_evidence m l i)"
  by (simp add: group_evidence_def)

lemma receipt_pass_inv:
  assumes "receipt (rl (pe E)) (pn_manifest E) bs own i now lb = Inr (m, p)"
  shows "wp (\<lambda>r w'. \<exists>st temp rebuilt now. repair_inv E args m temp (pw_log w) 0 st w' \<and> r = repair_report_of args m rebuilt now st)
    (failed E args m (pw_log w)) (repair_pass E args p bs' m w)"
  using assms by (rule receipt_Inr) (rule repair_pass_inv)

lemma receipt_pass_log:
  assumes "receipt (rl (pe E)) (pn_manifest E) bs own i now lb = Inr (m, p)" "repair_pass E args p bs' m w = (w', r)"
  obtains l where "pw_log w' = pw_log w @ l" "pool_log_ok E args m l 0"
proof -
  have "\<exists>l. pw_log w' = pw_log w @ l \<and> pool_log_ok E args m l 0"
    using receipt_pass_inv [OF assms(1), of args w bs'] assms(2)
    by (cases r) (auto simp: repair_inv_def failed_def intro: pool_log_ok_mono)
  then show thesis using that by blast
qed

lemma chained_nth: "chained f l \<Longrightarrow> i < length l \<Longrightarrow> f (if i = 0 then None else Some (l ! (i - 1))) (l ! i)"
  by (simp add: chained_def)

lemma is_checked_elim:
  assumes "chained (entry_ok E args m) l" "i < length l" "is_checked (if i = 0 then None else Some (l ! (i - 1)))"
  obtains now where "0 < i" "l ! (i - 1) = P_Checked now" "now < ra_expires_at args"
proof -
  from assms(3) obtain now where n: "0 < i" "l ! (i - 1) = P_Checked now"
    by (cases "l ! (i - 1)") (auto split: if_splits)
  moreover have "now < ra_expires_at args" using chained_nth [OF assms(1), of "i - 1"] n assms(2) by simp
  ultimately show thesis by (rule that)
qed

lemma seen_bounds:
  assumes "groups_seen m l gs" "length (m_parts m) = m_total m"
  shows "i < m_total m \<Longrightarrow> card (gs ! i) \<le> card (group_evidence m l i)"
    and "length (filter (\<lambda>g. g \<noteq> {}) gs) \<le> card {i. i < m_total m \<and> group_evidence m l i \<noteq> {}}"
proof -
  have sub: "gs ! i \<subseteq> group_evidence m l i" if "i < m_total m" for i
    using assms(1) that by (simp add: groups_seen_def group_evidence_def)
  then show "i < m_total m \<Longrightarrow> card (gs ! i) \<le> card (group_evidence m l i)" by (simp add: card_mono)
  have "length (filter (\<lambda>g. g \<noteq> {}) gs) = card {i. i < length gs \<and> gs ! i \<noteq> {}}" by (rule length_filter_conv_card)
  also have "\<dots> \<le> card {i. i < m_total m \<and> group_evidence m l i \<noteq> {}}"
  proof (rule card_mono)
    have "group_evidence m l i \<noteq> {}" if "i < m_total m" "gs ! i \<noteq> {}" for i using sub [OF that(1)] that(2) by blast
    then show "{i. i < length gs \<and> gs ! i \<noteq> {}} \<subseteq> {i. i < m_total m \<and> group_evidence m l i \<noteq> {}}"
      using assms(1) by (auto simp: groups_seen_def)
  qed simp
  finally show "length (filter (\<lambda>g. g \<noteq> {}) gs) \<le> card {i. i < m_total m \<and> group_evidence m l i \<noteq> {}}" .
qed

section \<open>Time passes\<close>

abbreviation later :: "nat \<Rightarrow> pworld \<Rightarrow> bool" where
  "later n w \<equiv> n \<le> tick (pw w)"

abbreviation keeps_time :: "nat \<Rightarrow> pworld \<times> (rerror + 'a) \<Rightarrow> bool" where
  "keeps_time n r \<equiv> wp (\<lambda>_. later n) (\<lambda>_. later n) r"

lemma wp_time_mono: "keeps_time n r \<Longrightarrow> (\<And>x w. later n w \<Longrightarrow> keeps_time n (f x w)) \<Longrightarrow> keeps_time n (st_then r f)"
  by (auto elim: wp_mono)

lemma advance_time [simp]: "tick (pw (advance k w)) = tick (pw w) + k"
  "tick (pw (record_effect e w)) = tick (pw w)"
  by (simp_all add: advance_def record_effect_def)

lemma check_time: "later n w \<Longrightarrow> keeps_time n (repair_check E args bs w)"
  by (auto simp: repair_check_def wp_result split: sum.split)

lemma check_time_less: "n \<le> tick (pw w) + 1 \<Longrightarrow> keeps_time n (repair_check E args bs w)"
  by (auto simp: repair_check_def wp_result split: sum.split)

lemma call_time:
  "later n w \<Longrightarrow> keeps_time n (verify_node E p t b w)" "later n w \<Longrightarrow> keeps_time n (upload_node E p t b path header w)"
  "later n w \<Longrightarrow> keeps_time n (download_node E p t b path w)" "later n w \<Longrightarrow> keeps_time n (sign_request E args request w)"
  "later n w \<Longrightarrow> keeps_time n (now_at E w)"
  by (simp_all add: verify_node_def upload_node_def download_node_def sign_request_def Let_def split: prod.split)

lemma result_time: "later n w \<Longrightarrow> keeps_time n (w, r)"
  by (simp add: wp_result split: sum.split)

lemmas time_rules = wp_time_mono check_time call_time result_time

lemma fetch_time: "later n w \<Longrightarrow> keeps_time n (fetch_node E p temp pt nd stored st w)"
  by (auto simp: fetch_node_def Let_def simp del: wp_then intro!: time_rules split: prod.split sum.split download_error.split)

lemma scan_node_time: "later n w \<Longrightarrow> keeps_time n (scan_node E args p bs temp pt nd stored st w)"
  by (auto simp: scan_node_def simp del: wp_then intro!: time_rules fetch_time)

lemma scan_nodes_time: "later n w \<Longrightarrow> keeps_time n (scan_nodes E args p bs copies temp pt ns stored st w)"
  by (induction ns arbitrary: stored st w) (auto simp del: wp_then intro!: time_rules scan_node_time)

lemma scan_parts_time: "later n w \<Longrightarrow> keeps_time n (scan_parts E args p bs copies temp pts st w)"
  by (induction pts arbitrary: st w) (auto simp del: wp_then intro!: time_rules scan_nodes_time)

lemma restore_files_time: "later n w \<Longrightarrow> keeps_time n (restore_files E args bs m temp st w)"
  by (auto simp: restore_files_def simp del: wp_then intro!: time_rules split: prod.split)

lemma send_upload_time: "later n w \<Longrightarrow> keeps_time n (send_upload E args p bs fs pt nd header st w)"
  by (auto simp: send_upload_def Let_def simp del: wp_then intro!: time_rules)

lemma upload_one_time: "later n w \<Longrightarrow> keeps_time n (upload_one E args p bs fs pt nd st w)"
  by (auto simp: upload_one_def Let_def simp del: wp_then intro!: time_rules send_upload_time split: option.split sum.split)

lemma upload_nodes_time: "later n w \<Longrightarrow> keeps_time n (upload_nodes E args p bs copies fs pt ns st w)"
  by (induction ns arbitrary: st w) (auto simp del: wp_then intro!: time_rules upload_one_time)

lemma upload_parts_time: "later n w \<Longrightarrow> keeps_time n (upload_parts E args p bs copies fs pts st w)"
  by (induction pts arbitrary: st w) (auto simp del: wp_then intro!: time_rules upload_nodes_time)

lemma repair_pass_time: "later n w \<Longrightarrow> keeps_time n (repair_pass E args p bs m w)"
  by (auto simp: repair_pass_def restore_phase_def simp del: wp_then
      intro!: time_rules scan_parts_time restore_files_time upload_parts_time split: option.split)

lemma raced_pass_time: "later n w \<Longrightarrow> keeps_time n (raced_pass E args p bs m w)"
  using repair_pass_time [of n "advance 1 w" E args p bs m]
  by (cases "repair_pass E args p bs m (advance 1 w)"; cases "snd (repair_pass E args p bs m (advance 1 w))")
    (auto simp: raced_pass_def Let_def split: race.split)

lemma publish_time: "later n w \<Longrightarrow> keeps_time n (publish_report E report w)"
  by (auto simp: publish_report_def on_state_def write_private_def Let_def step_tick_def set_dir_def wp_result
      split: option.split sum.split prod.split dir.split)

section \<open>The process\<close>

lemma round_time:
  assumes "repair_round E args p bs m w = (w', Inr r)"
  shows "tick (pw w) < tick (pw w')"
proof -
  have "keeps_time (tick (pw w) + 1) (repair_round E args p bs m w)"
    unfolding repair_round_def
    by (rule wp_time_mono [OF check_time_less])
      (auto simp del: wp_then intro!: time_rules raced_pass_time publish_time split: option.split)
  then show ?thesis using assms by simp
qed

lemma expired_round:
  assumes "ra_expires_at args \<le> clock_at (pe E) (tick (pw w))"
  shows "\<exists>w' e. repair_round E args p bs m w = (w', Inl e)"
  using assms by (simp add: repair_round_def repair_check_def now_at_def)

text \<open>Once the clock has passed the deadline for good, the process ends.\<close>

lemma repair_process_ends:
  assumes "\<And>n. N \<le> n \<Longrightarrow> ra_expires_at args \<le> clock_at (pe E) n"
  shows "\<exists>r. repair_process E args p bs m w = Some r"
proof (induction "N - tick (pw w)" arbitrary: w rule: less_induct)
  case less
  obtain w' r where run: "repair_round E args p bs m w = (w', r)" by (cases "repair_round E args p bs m w")
  show ?case
  proof (cases r)
    case (Inl e)
    then show ?thesis by (subst repair_process.simps) (simp add: run)
  next
    case (Inr x)
    have "\<not> N \<le> tick (pw w)" using expired_round [of args E w p bs m] assms [of "tick (pw w)"] run Inr by auto
    then have "N - tick (pw (advance 1 w')) < N - tick (pw w)" using round_time run Inr by fastforce
    then show ?thesis
      using less [of "advance 1 w'"] by (subst repair_process.simps) (auto simp: run Inr split: option.split)
  qed
qed

lemma repair_process_once:
  "once args \<or> check_only args \<Longrightarrow> \<exists>r. repair_process E args p bs m w = Some r"
  by (subst repair_process.simps) (auto split: prod.split sum.split option.split)

definition extends :: "penv \<Rightarrow> repair_args \<Rightarrow> manifest \<Rightarrow> pworld \<Rightarrow> pworld \<Rightarrow> bool" where
  "extends E args m w w' \<longleftrightarrow> (\<exists>l. pw_log w' = pw_log w @ l \<and> chained (entry_ok E args m) l)"

lemma extends_refl: "pw_log w' = pw_log w \<Longrightarrow> extends E args m w w'"
  by (simp add: extends_def)

lemma entry_ok_later: "entry_ok E args m None e \<Longrightarrow> entry_ok E args m (Some x) e"
  by (cases e) auto

lemma extends_trans: "extends E args m w w1 \<Longrightarrow> extends E args m w1 w2 \<Longrightarrow> extends E args m w w2"
proof -
  have "chained (entry_ok E args m) (l @ l')" if "chained (entry_ok E args m) l" "chained (entry_ok E args m) l'" for l l'
    by (rule chained_append [OF that]) (rule entry_ok_later)
  then show "extends E args m w w1 \<Longrightarrow> extends E args m w1 w2 \<Longrightarrow> extends E args m w w2"
    unfolding extends_def by (metis append_assoc)
qed

lemma check_extends: "wp (\<lambda>_. extends E args m w) (\<lambda>_. extends E args m w) (repair_check E args bs w)"
  by (rule repair_check_wp) (auto simp: extends_def chained_snoc [of _ "[]", simplified])

lemma raced_extends:
  assumes "pool_wf R m p" "mode_ok m"
  shows "wp (\<lambda>_. extends E args m w) (\<lambda>_. extends E args m w) (raced_pass E args p bs m w)"
proof -
  obtain w' r where run: "repair_pass E args p bs m (advance 1 w) = (w', r)" by (cases "repair_pass E args p bs m (advance 1 w)")
  have "\<exists>l. pw_log w' = pw_log w @ l \<and> chained (entry_ok E args m) l"
    using repair_pass_inv [OF assms, of E args "advance 1 w" bs] run
    by (cases r) (auto simp: repair_inv_def failed_def pool_log_ok_def)
  then have "extends E args m w w'" "extends E args m w (w'\<lparr>pw_log := pw_log w @ take k (drop (length (pw_log w)) (pw_log w'))\<rparr>)" for k
    by (auto simp: extends_def intro: chained_take)
  then show ?thesis using run by (cases r) (auto simp: raced_pass_def Let_def split: race.split)
qed

lemma publish_extends: "wp (\<lambda>_. extends E args m w) (\<lambda>_. extends E args m w) (publish_report E report w)"
  by (auto simp: publish_report_def on_state_def wp_result extends_refl split: option.split sum.split prod.split)

lemma extends_later:
  assumes "extends E args m w w1" "wp (\<lambda>_. extends E args m w1) (\<lambda>_. extends E args m w1) r"
  shows "wp (\<lambda>_. extends E args m w) (\<lambda>_. extends E args m w) r"
  by (rule wp_mono [OF assms(2)]) (rule extends_trans [OF assms(1)], assumption)+

lemma round_extends:
  assumes "pool_wf R m p" "mode_ok m"
  shows "wp (\<lambda>_. extends E args m w) (\<lambda>_. extends E args m w) (repair_round E args p bs m w)"
proof -
  let ?ok = "extends E args m w"
  have pub: "wp (\<lambda>_. ?ok) (\<lambda>_. ?ok) (case r of None \<Rightarrow> (w1, Inr None)
      | Some report \<Rightarrow> st_then (publish_report E report w1) (\<lambda>_ w. (w, Inr (Some report))))" if "?ok w1" for r w1
    using that extends_later [OF that publish_extends] by (simp split: option.split)
  have pass: "wp (\<lambda>_. ?ok) (\<lambda>_. ?ok) (st_then (raced_pass E args p bs m w1) (\<lambda>r w. case r of None \<Rightarrow> (w, Inr None)
      | Some report \<Rightarrow> st_then (publish_report E report w) (\<lambda>_ w. (w, Inr (Some report)))))" if "?ok w1" for w1
    by (subst wp_then, rule wp_mono [OF extends_later [OF that raced_extends [OF assms]]]) (rule pub, assumption)+
  have "?ok w1 \<Longrightarrow> ?ok (advance k w1)" for w1 k by (simp add: extends_def)
  then show ?thesis
    unfolding repair_round_def
    by (subst wp_then, intro wp_mono [OF check_extends]) (use pass in \<open>simp_all only: now_at_def st_then_simps\<close>)
qed

lemma process_extends:
  assumes "repair_process E args p bs m w = Some y"
  shows "pool_wf R m p \<longrightarrow> mode_ok m \<longrightarrow> extends E args m w (fst y)"
proof (rule repair_process.raw_induct
    [where P = "\<lambda>E args p bs m w y. pool_wf R m p \<longrightarrow> mode_ok m \<longrightarrow> extends E args m w (fst y)", OF _ assms], intro impI)
  fix process E args p bs m w y
  assume IH: "\<And>E args p bs m w y. process E args p bs m w = Some y \<Longrightarrow> pool_wf R m p \<longrightarrow> mode_ok m \<longrightarrow> extends E args m w (fst y)"
    and wf: "pool_wf R m p" "mode_ok m"
    and run: "(case repair_round E args p bs m w of (w, Inl e) \<Rightarrow> Some (w, Inl e) | (w, Inr None) \<Rightarrow> Some (w, Inr ())
      | (w, Inr (Some report)) \<Rightarrow>
          if once args \<or> check_only args
          then Some (w, if protected report then Inr () else Inl (Configuration ''pool remains below requested protection''))
          else if pn_race E (tick (pw w)) = Shutdown \<or> pn_race E (tick (pw w)) = ParentGone \<and> stop_on_stdin args
          then Some (advance 1 w, Inr ()) else process E args p bs m (advance 1 w)) = Some y"
  obtain w1 x where r: "repair_round E args p bs m w = (w1, x)" by (cases "repair_round E args p bs m w")
  have e: "extends E args m w w1" using round_extends [OF wf, of E args w bs] r by (cases x) auto
  then have a: "extends E args m w (advance 1 w1)" by (simp add: extends_def)
  show "extends E args m w (fst y)"
  proof (cases "\<exists>report. x = Inr (Some report) \<and> process E args p bs m (advance 1 w1) = Some y")
    case True
    then show ?thesis using IH [of E args p bs m "advance 1 w1" y] wf extends_trans [OF a] by blast
  next
    case False
    then show ?thesis using run e a by (auto simp: r split: sum.splits option.splits if_splits)
  qed
qed

section \<open>A sample pool\<close>

definition node_a :: node where
  "node_a = \<lparr>n_id = ''a'', n_origin = ''https://a.example/'', n_failure_group = ''ga'', n_weight = 1\<rparr>"

definition node_b :: node where
  "node_b = \<lparr>n_id = ''b'', n_origin = ''https://b.example/'', n_failure_group = ''gb'', n_weight = 1\<rparr>"

definition pool_part :: part where
  "pool_part = \<lparr>pt_index = 0, pt_sha256 = sample_hex, pt_size = 5, pt_targets = [node_a, node_b]\<rparr>"

definition pool_manifest :: manifest where
  "pool_manifest = \<lparr>manifest_type = ''wildbloom.pool'', m_version = 1, m_mode = ''replicas'', m_profile = ''direct'',
     m_payload = \<lparr>pl_sha256 = sample_hex, pl_size = 5, pl_encryption = ''forgesworn-aes-256-gcm-chunked-v2''\<rparr>,
     m_required = 1, m_total = 1, m_copies = 2, m_parts = [pool_part]\<rparr>"

lemma pool_simps [simp]:
  "n_id node_a = ''a''" "n_id node_b = ''b''" "n_origin node_a = ''https://a.example/''" "n_origin node_b = ''https://b.example/''"
  "n_failure_group node_a = ''ga''" "n_failure_group node_b = ''gb''" "n_weight node_a = 1" "n_weight node_b = 1"
  "pt_index pool_part = 0" "pt_sha256 pool_part = sample_hex" "pt_size pool_part = 5" "pt_targets pool_part = [node_a, node_b]"
  "m_mode pool_manifest = ''replicas''" "m_profile pool_manifest = ''direct''" "m_required pool_manifest = 1"
  "m_total pool_manifest = 1" "m_copies pool_manifest = 2" "m_parts pool_manifest = [pool_part]"
  "manifest_type pool_manifest = ''wildbloom.pool''" "m_version pool_manifest = 1" "pl_sha256 (m_payload pool_manifest) = sample_hex"
  "pl_size (m_payload pool_manifest) = 5" "pl_encryption (m_payload pool_manifest) = ''forgesworn-aes-256-gcm-chunked-v2''"
  by (simp_all add: node_a_def node_b_def pool_part_def pool_manifest_def)

definition pool_tags :: "string list list" where
  "pool_tags = [[''d'', ''wildbloom.pool.v1:'' @ sample_hex]]"

definition pool_strict :: strict_event where
  "pool_strict = sample_strict\<lparr>se_tags := pool_tags\<rparr>"

definition pool_event :: event where
  "pool_event = sample_event\<lparr>ev_tags := pool_tags\<rparr>"

definition pool_rlibs :: rlibs where
  "pool_rlibs = sample_rlibs\<lparr>strict_from_json := (\<lambda>_. Some pool_strict), event_from_json := (\<lambda>_. Some pool_event)\<rparr>"

lemma pool_rlibs_simps [simp]:
  "url_parse pool_rlibs s = Some (sample_url s)" "strict_from_json pool_rlibs bs = Some pool_strict"
  "event_from_json pool_rlibs bs = Some pool_event" "event_verify pool_rlibs ev"
  "pubkey_from_hex pool_rlibs s = Some s" "compute_id pool_rlibs u = sample_hex"
  "policy_to_json pool_rlibs p = Some ''{}''" "verify_upload pool_rlibs h o' hd' x n"
  "event_to_json pool_rlibs ev = []" "sha3_256 pool_rlibs = sha3_256 sample_rlibs"
  by (simp_all add: pool_rlibs_def)

lemma pool_signed: "signed_event pool_rlibs [] sample_hex n = Inr pool_event"
  using sample_sig by (simp add: signed_event_def pool_strict_def pool_event_def sample_strict_def sample_event_def pool_tags_def sample_hex_def canonical_hex_def byte_class_defs)

lemma pool_event_simps [simp]: "ev_id pool_event = sample_hex" "ev_kind pool_event = 30078" "ev_created_at pool_event = 100"
  "ev_tags pool_event = pool_tags" "ev_content pool_event = ''{}''" "ev_pubkey pool_event = sample_hex"
  by (simp_all add: pool_event_def sample_event_def)

lemma pool_targets [simp]: "target_of node_a = target_a" "target_of node_b = target_b"
  by (simp_all add: target_of_def target_a_def target_b_def)

lemma pool_url [simp]: "u_str (sample_url s) = s"
  "u_host (sample_url s) = Some (if s = ''https://a.example/'' then ''a.example'' else ''b.example'')"
  by (simp_all add: sample_url_def)

lemma pool_policy_ok:
  "validate_policy pool_rlibs (part_policy pool_event pool_manifest DirectHttps 1 3800 0 pool_part) = Inr ()"
proof -
  have "owner_groups [target_a, target_b] = {''ga'', ''gb''}"
    by (auto simp: owner_groups_def intro: image_eqI [of _ _ target_a] image_eqI [of _ _ target_b])
  then show ?thesis
    by (simp add: validate_policy_Inr wf_policy_def wf_target_def wf_blob_def part_policy_def sample_accepts
        identifier_ok_def byte_class_defs MAX_BLOB_BYTES_def sample_hex_def show_nat.simps of_char_of canonical_hex_def)
qed

definition pool_mf :: "string \<Rightarrow> manifest option" where "pool_mf = (\<lambda>_. Some pool_manifest)"

lemma pool_policy_expires: "p_expires_at (part_policy ev m p r x i pt) = x"
  by (simp add: part_policy_def)

lemma pool_receipt: "receipt pool_rlibs pool_mf [] sample_hex sample_hex 200 False = Inr (pool_manifest, DirectHttps)"
  by (simp add: receipt_def templates_def pool_signed pool_mf_def manifest_ok_def mode_ok_def pool_tags_def derive_profile_def
      sat_add_def u64_max_def div_ceil_def identifier_ok_def byte_class_defs sample_accepts pool_policy_ok
      policy_template_def pool_policy_expires del: One_nat_def)

definition pool_http :: "bool \<Rightarrow> http" where
  "pool_http late = \<lparr>hl = pool_rlibs, url_join = (\<lambda>u x. Some u), header_ok = (\<lambda>h. True),
     http_get = (\<lambda>u. if late \<or> u_str u = ''https://a.example/''
       then Some \<lparr>rs_status = 200, rs_length = Some 5, rs_body = [Some [1, 2, 3, 4, 5]]\<rparr> else None),
     http_put = (\<lambda>u h x n pieces. (Some \<lparr>rs_status = 201, rs_length = None, rs_body = []\<rparr>, length pieces)),
     http_put_json = (\<lambda>u h s. None), descriptor_from_json = (\<lambda>_. None), digest_hex = (\<lambda>_. sample_hex),
     split_reads = (\<lambda>bs. [bs]), flush_ok = (\<lambda>_. True)\<rparr>"

definition pool_child :: child where
  "pool_child = \<lparr>ch_spawned = True, ch_pipes = True, ch_written = True, ch_output = Some [], ch_exit = Some True, ch_took = 1\<rparr>"

definition pool_env :: penv where
  "pool_env = \<lparr>pe = sample_env\<lparr>rl := pool_rlibs\<rparr>, pn_manifest = pool_mf, pn_digest = (\<lambda>_. sample_hex),
     pn_receipt = (\<lambda>_. Some (Regular [])), pn_net = (\<lambda>n. pool_http (32 < n)), pn_child = (\<lambda>_ _ _ _ _. pool_child),
     pn_request_json = (\<lambda>_. Some []), pn_own_env = [], pn_temp = (\<lambda>_. Some (''t'', \<lparr>files = Map.empty, refused = (\<lambda>_. False), room = 100\<rparr>)),
     pn_tmp_name = (\<lambda>_. ''.tmp''), pn_parse_ip = (\<lambda>_. None), pn_proxy_ok = (\<lambda>_. True), pn_client_built = True,
     pn_report_json = (\<lambda>_. Some []), pn_race = (\<lambda>_. Completed), pn_cut = (\<lambda>_. 0)\<rparr>"

definition pool_args :: repair_args where
  "pool_args = \<lparr>ra_receipt_id = sample_hex, ra_owner = sample_hex, allow_reconstruction = True, check_only = False,
     stop_on_stdin = False, ra_expires_at = 1000, ra_signer = Some ''/s'', signer_arg = [], signer_timeout = 30, ra_proxy = None,
     permit_loopback_development = False, once = True, transfer_budget_bytes = 100, max_work_bytes = 1000\<rparr>"

definition pool_world :: pworld where
  "pool_world = \<lparr>pw = sample_world, pw_disk = \<lparr>files = Map.empty, refused = (\<lambda>_. False), room = 0\<rparr>, pw_log = []\<rparr>"

lemma pool_env_simps [simp]:
  "rl (pe pool_env) = pool_rlibs" "clock_at (pe pool_env) n = 200" "io_at (pe pool_env) n" "pn_manifest pool_env = pool_mf"
  "pn_digest pool_env bs = sample_hex" "pn_receipt pool_env n = Some (Regular [])" "pn_net pool_env n = pool_http (32 < n)"
  "pn_child pool_env n x y z i = pool_child" "pn_request_json pool_env u = Some []"
  "pn_temp pool_env n = Some (''t'', \<lparr>files = Map.empty, refused = (\<lambda>_. False), room = 100\<rparr>)"
  "pn_tmp_name pool_env n = ''.tmp''" "pn_report_json pool_env r = Some []" "pn_race pool_env n = Completed"
  by (simp_all add: pool_env_def sample_env_def)

lemma pool_check [simp]:
  "repair_check pool_env pool_args [] w = (record_effect (P_Checked 200) (advance 3 w), Inr ())"
  by (simp add: repair_check_def now_at_def read_bounded_def read_file_bounded_def pool_args_def advance_def numeral_3_eq_3)

lemma pool_verify [simp]:
  "http_verify (net_at pool_env n) DirectHttps (target_of nd) (part_blob pool_part)
     = (if 32 < n \<or> n_origin nd = ''https://a.example/'' then Inr () else Inl Unreachable)"
  by (simp add: http_verify_def net_at_def http_origin_def pool_http_def sample_accepts target_of_def part_blob_def
      checked_add_def u64_max_def pool_env_def)

definition pool_request :: unsigned_event where
  "pool_request = \<lparr>ue_pubkey = sample_hex, ue_created_at = 199, ue_kind = 24242, ue_tags = upload_tags pool_args pool_part ''b.example'' 200,
     ue_content = ''Restore one assigned pool part; receipt '' @ sample_hex @ ''; destination https://b.example/''\<rparr>"

lemma pool_template [simp]: "upload_template pool_rlibs pool_args pool_part node_b 200 = Inr pool_request"
  by (simp add: upload_template_def pool_request_def sat_sub_def pool_args_def)

lemma pool_return [simp]: "verify_return pool_rlibs [] pool_request n = Inr pool_event"
  by (simp add: verify_return_def pool_signed pool_request_def upload_tags_def find_tag_def)

lemma pool_sign [simp]: "command_sign (pn_child pool_env n) (pn_request_json pool_env) (pn_own_env pool_env) (signer_of pool_args) u = Some []"
  by (simp add: command_sign_def signer_of_def pool_args_def is_absolute_def exchange_def read_output_def pool_child_def
      pool_env_def MAX_EVENT_BYTES_def)

definition pool_log :: "peffect list" where
  "pool_log = (let b = part_blob pool_part; c = P_Checked 200
     in [c, c, P_Download target_a b (Inr ()), c, c, P_Verify target_b b (Inl Unreachable), c, P_Sign pool_request, c, c,
         P_Upload target_b b (Some [1, 2, 3, 4, 5]) (nostr_header pool_rlibs []) (Inr ()), c, P_Verify target_b b (Inr ()), c, c])"

definition pool_report :: repair_report where
  "pool_report = \<lparr>rr_receipt_id = sample_hex, rr_observed_at = 200, rr_verified_groups = [2], recoverable = True, protected = True,
     reconstructed = False, uploads_attempted = 1, reserved_transfer_bytes = 20,
     rr_nodes = [\<lparr>nr_id = ''a'', nr_part_index = 0, nr_state = ''verified''\<rparr>, \<lparr>nr_id = ''b'', nr_part_index = 0, nr_state = ''verified''\<rparr>]\<rparr>"

lemma pool_download [simp]:
  assumes "files d path = Some old" "\<not> refused d path" "5 \<le> room d"
  shows "http_download (net_at pool_env n) DirectHttps target_a (part_blob pool_part) path d
    = (d\<lparr>files := (files d)(path \<mapsto> [1, 2, 3, 4, 5]), room := room d - 5\<rparr>, Inr ())"
  using assms by (simp add: http_download_def net_at_def http_origin_def pool_http_def sample_accepts part_blob_def
      checked_add_def u64_max_def open_truncate_def write_all_def pool_env_def)

lemma pool_upload [simp]:
  assumes "files d path = Some f" "length f = 5"
  shows "http_upload (net_at pool_env n) DirectHttps target_b (part_blob pool_part) path header d = Inr ()"
  using assms by (simp add: http_upload_def net_at_def http_origin_def pool_http_def sample_accepts part_blob_def pool_env_def)

lemma pool_verify_target [simp]:
  "http_verify (net_at pool_env n) DirectHttps target_b (part_blob pool_part) = (if 32 < n then Inr () else Inl Unreachable)"
  using pool_verify [of n node_b] by simp

lemma pool_args_simps [simp]: "check_only pool_args = False" "transfer_budget_bytes pool_args = 100" "max_work_bytes pool_args = 1000"
  "ra_receipt_id pool_args = sample_hex" "once pool_args" "ra_owner pool_args = sample_hex"
  by (simp_all add: pool_args_def)

lemma pool_world_simps [simp]: "tick (pw pool_world) = 0" "pw_log pool_world = []"
  by (simp_all add: pool_world_def sample_world_def)

lemmas pool_run_defs = repair_pass_def required_disk_def first_state_def first_nodes_def scan_node_def fetch_node_def
  index_or_panic_def reserve_def see_node_def count_group_def create_new_def download_node_def verify_node_def
  rename_file_def restore_phase_def restore_files_def upload_one_def sign_request_def now_at_def
  send_upload_def upload_node_def repair_report_of_def record_effect_def advance_def path_join_def source_path_def

lemma pool_pass_from:
  assumes "tick (pw w) \<le> 15"
  shows "\<exists>w'. repair_pass pool_env pool_args DirectHttps [] pool_manifest w = (w', Inr pool_report) \<and> pw_log w' = pw_log w @ pool_log
    \<and> root_dir (pw w') = root_dir (pw w)"
  using assms by (simp add: pool_run_defs Let_def u64_max_def pool_report_def pool_log_def)

lemma pool_pass:
  "\<exists>w'. repair_pass pool_env pool_args DirectHttps [] pool_manifest pool_world = (w', Inr pool_report) \<and> pw_log w' = pool_log"
  using pool_pass_from [of pool_world] by auto


section \<open>Receipts\<close>

text \<open>Parts whose groups are all lost use up at least \<open>copies\<close> lost groups each.\<close>

lemma lost_parts:
  assumes wf: "pool_wf R m p" and G: "finite G"
  shows "m_copies m * card {i. i < m_total m \<and> part_groups (m_parts m ! i) \<subseteq> G} \<le> card G"
proof -
  let ?B = "{i. i < m_total m \<and> part_groups (m_parts m ! i) \<subseteq> G}" and ?g = "\<lambda>i. part_groups (m_parts m ! i)"
  have len: "length (m_parts m) = m_total m" using wf by (simp add: pool_wf_def)
  have "sorted_wrt (\<lambda>a b. part_groups a \<inter> part_groups b = {}) (m_parts m)" using wf by (simp add: pool_wf_def)
  then have "?g i \<inter> ?g j = {}" if "i < j" "j < m_total m" for i j
    using that len sorted_wrt_nth_less [of "\<lambda>a b. part_groups a \<inter> part_groups b = {}"] by auto
  then have dis: "?g i \<inter> ?g j = {}" if "i \<noteq> j" "i < m_total m" "j < m_total m" for i j
    using that by (metis Int_commute linorder_neqE_nat)
  have fin: "finite ?B" by simp
  have "m_copies m * card ?B = (\<Sum>i \<in> ?B. m_copies m)" by simp
  also have "\<dots> \<le> (\<Sum>i \<in> ?B. card (?g i))" using wf by (intro sum_mono) (simp add: pool_wf_def)
  also have "\<dots> = card (\<Union>i \<in> ?B. ?g i)"
    using fin dis by (intro card_UN_disjoint [symmetric]) auto
  also have "\<dots> \<le> card G" using G by (intro card_mono) auto
  finally show ?thesis .
qed

text \<open>C30: An accepted pool receipt tolerates lost failure groups. It is the exact manifest the owner signed
  under the expected event id, and whichever set of fewer than \<open>copies * (total - required + 1)\<close> failure
  groups is lost, at least \<open>required\<close> parts keep an assigned node outside it: no group serves two parts.\<close>

theorem receipt_tolerates_loss:
  assumes "receipt R mfj bs own expected now lb = Inr (m, p)" "finite G"
    "card G < m_copies m * (m_total m - m_required m + 1)"
  shows "(\<exists>ev. signed_event R bs own (128 * 1024) = Inr ev \<and> ev_id ev = expected \<and> mfj (ev_content ev) = Some m)
    \<and> m_required m \<le> card {i. i < m_total m \<and> (\<exists>n \<in> set (pt_targets (m_parts m ! i)). n_failure_group n \<notin> G)}"
proof -
  from assms(1) obtain ev where r: "signed_event R bs own (128 * 1024) = Inr ev" "mfj (ev_content ev) = Some m"
    "ev_id ev = expected" "pool_wf R m p" by (rule receipt_Inr)
  let ?B = "{i. i < m_total m \<and> part_groups (m_parts m ! i) \<subseteq> G}"
  have "m_copies m * card ?B < m_copies m * (m_total m - m_required m + 1)"
    using lost_parts [OF r(4) assms(2)] assms(3) by simp
  then have b: "card ?B \<le> m_total m - m_required m" unfolding mult_less_cancel1 by simp
  have "{i. i < m_total m \<and> (\<exists>n \<in> set (pt_targets (m_parts m ! i)). n_failure_group n \<notin> G)} = {..<m_total m} - ?B" by auto
  moreover have "card ({..<m_total m} - ?B) = m_total m - card ?B" by (subst card_Diff_subset) auto
  ultimately show ?thesis using r b by (auto simp: pool_wf_def)
qed

theorem receipt_tolerates_loss_witness:
  "m_required pool_manifest \<le> card {i. i < m_total pool_manifest
     \<and> (\<exists>n \<in> set (pt_targets (m_parts pool_manifest ! i)). n_failure_group n \<notin> {''ga''})}"
  using receipt_tolerates_loss [OF pool_receipt, of "{''ga''}"] by simp

section \<open>Passes\<close>



text \<open>C29: A repair report is evidence. The groups it counts for a part are at most the failure groups of assigned
  nodes that returned the exact bytes during that pass; a pool reported protected has at least the
  requested number of such groups for every part, one reported recoverable has enough such parts,
  and every node reported verified answered in that pass.\<close>

theorem repair_report_evidence:
  assumes "receipt (rl (pe E)) (pn_manifest E) bs own i now lb = Inr (m, p)" "repair_pass E args p bs' m w = (w', Inr report)"
  shows "\<exists>l. pw_log w' = pw_log w @ l
    \<and> (\<forall>i < m_total m. rr_verified_groups report ! i \<le> card (group_evidence m l i))
    \<and> (protected report \<longrightarrow> (\<forall>i < m_total m. m_copies m \<le> card (group_evidence m l i)))
    \<and> (recoverable report \<longrightarrow> m_required m \<le> card {i. i < m_total m \<and> group_evidence m l i \<noteq> {}})
    \<and> nodes_seen m l (rr_nodes report)"
proof -
  obtain ev where wf: "pool_wf (rl (pe E)) m p" using assms(1) by (rule receipt_Inr)
  from receipt_pass_inv [OF assms(1), of args w bs'] assms(2) obtain st temp rebuilt now' l where
    l: "pw_log w' = pw_log w @ l" "groups_seen m l (rp_groups st)" "nodes_seen m l (rp_nodes st)"
      "report = repair_report_of args m rebuilt now' st"
    by (auto simp: repair_inv_def)
  have len: "length (rp_groups st) = m_total m" "length (m_parts m) = m_total m"
    using l(2) wf by (simp_all add: groups_seen_def pool_wf_def)
  note b = seen_bounds [OF l(2) len(2)]
  have "m_copies m \<le> card (group_evidence m l i)" if "protected report" "i < m_total m" for i
  proof -
    have "m_copies m \<le> card (rp_groups st ! i)"
      using that len(1) l(4) nth_mem [of i "rp_groups st"] by (auto simp: repair_report_of_def)
    then show ?thesis using b(1) [OF that(2)] by simp
  qed
  then show ?thesis using l b len by (auto simp: repair_report_of_def intro: order_trans)
qed

theorem repair_report_evidence_witness:
  "\<exists>l. 2 \<le> card (group_evidence pool_manifest l 0) \<and> pool_log = l"
proof -
  from pool_pass obtain w' where w': "repair_pass pool_env pool_args DirectHttps [] pool_manifest pool_world = (w', Inr pool_report)"
    "pw_log w' = pool_log" by blast
  have r: "receipt (rl (pe pool_env)) (pn_manifest pool_env) [] sample_hex sample_hex 200 False = Inr (pool_manifest, DirectHttps)"
    using pool_receipt by simp
  have p: "protected pool_report" by (simp add: pool_report_def)
  from repair_report_evidence [OF r w'(1)] show ?thesis using p w'(2) by auto
qed

text \<open>C31: A repair pass stays within its transfer budget: whether it succeeds or fails, the bytes of every download,
  verification, upload and read-back it started add up to at most the budget, and on success to at
  most what the report says was reserved; the report counts the uploads exactly.\<close>

theorem repair_within_budget:
  assumes "receipt (rl (pe E)) (pn_manifest E) bs own i now lb = Inr (m, p)" "repair_pass E args p bs' m w = (w', r)"
  shows "\<exists>l. pw_log w' = pw_log w @ l \<and> sum_list (map moved l) \<le> transfer_budget_bytes args
    \<and> (\<forall>report. r = Inr report \<longrightarrow> sum_list (map moved l) \<le> reserved_transfer_bytes report
         \<and> reserved_transfer_bytes report \<le> transfer_budget_bytes args
         \<and> uploads_attempted report = length (filter is_upload l))"
proof (cases r)
  case (Inl e)
  from assms show ?thesis by (rule receipt_pass_log) (simp add: pool_log_ok_def Inl)
next
  case (Inr report)
  from receipt_pass_inv [OF assms(1), of args w bs'] assms(2) Inr obtain st temp rebuilt now' l where
    "pw_log w' = pw_log w @ l" "pool_log_ok E args m l (rp_left st)" "rp_uploads st = length (filter is_upload l)"
    "report = repair_report_of args m rebuilt now' st"
    by (auto simp: repair_inv_def)
  then show ?thesis using Inr by (auto simp: repair_report_of_def pool_log_ok_def)
qed

theorem repair_within_budget_witness:
  "sum_list (map moved pool_log) \<le> reserved_transfer_bytes pool_report \<and> reserved_transfer_bytes pool_report \<le> 100"
proof -
  from pool_pass obtain w' where w': "repair_pass pool_env pool_args DirectHttps [] pool_manifest pool_world = (w', Inr pool_report)"
    "pw_log w' = pool_log" by blast
  have r: "receipt (rl (pe pool_env)) (pn_manifest pool_env) [] sample_hex sample_hex 200 False = Inr (pool_manifest, DirectHttps)"
    using pool_receipt by simp
  from repair_within_budget [OF r w'(1)] show ?thesis using w'(2) by auto
qed

text \<open>C32: No repair pass over a validated receipt panics: every index into the group, source and file vectors is in
  range, whatever the network, the disk, the clock and the signer answer.\<close>

theorem repair_never_panics:
  assumes "receipt (rl (pe E)) (pn_manifest E) bs own i now lb = Inr (m, p)"
  shows "snd (repair_pass E args p bs' m w) \<noteq> Inl Panic"
  using receipt_pass_inv [OF assms, of args w bs']
  by (cases "repair_pass E args p bs' m w"; cases "snd (repair_pass E args p bs' m w)") (auto simp: failed_def)

theorem repair_never_panics_witness:
  "snd (repair_pass pool_env pool_args DirectHttps [] pool_manifest pool_world) \<noteq> Inl Panic"
  by (rule repair_never_panics [of pool_env "[]" sample_hex sample_hex 200 False]) (simp add: pool_receipt)

text \<open>C33: The repair process ends with its authority. It returns if it is to run once or only to check, and also if the
  clock stays past the deadline from some point on.\<close>

theorem repair_run_ends:
  assumes "once args \<or> check_only args \<or> (\<exists>N. \<forall>n \<ge> N. ra_expires_at args \<le> clock_at (pe E) n)"
  shows "\<exists>w' r. repair_run E args w = Some (w', r)"
proof -
  have "\<exists>y. repair_process E args p bs m w1 = Some y" for p bs m w1
    using assms repair_process_once repair_process_ends by blast
  then show ?thesis by (auto simp: repair_run_def split: prod.split sum.split)
qed

theorem repair_run_ends_witness: "\<exists>w' r. repair_run pool_env pool_args pool_world = Some (w', r)"
  by (rule repair_run_ends) simp

text \<open>C34: Whenever the repair process returns, also interrupted in the middle of a pass, everything it did was in order for
  the receipt it validated at the start: network calls only to assigned nodes right after a check
  before the deadline, signatures and uploads only when not merely checking.\<close>

theorem repair_run_authorised:
  assumes "repair_run E args w = Some (w', r)"
  shows "\<exists>l. pw_log w' = pw_log w @ l \<and> (l = [] \<or>
    (\<exists>bs now m p. receipt (rl (pe E)) (pn_manifest E) bs (ra_owner args) (ra_receipt_id args) now
        (permit_loopback_development args) = Inr (m, p) \<and> repair_authority args now = Inr () \<and> chained (entry_ok E args m) l))"
proof -
  obtain w1 x where start: "repair_start E args w = (w1, x)" by (cases "repair_start E args w")
  have st: "wp (\<lambda>(bs, m, p) w1. pw_log w1 = pw_log w \<and> (\<exists>now. receipt (rl (pe E)) (pn_manifest E) bs (ra_owner args)
        (ra_receipt_id args) now (permit_loopback_development args) = Inr (m, p) \<and> repair_authority args now = Inr ()))
      (\<lambda>_ w1. pw_log w1 = pw_log w) (repair_start E args w)"
    by (auto simp: repair_start_def on_state_def wp_result case_prod_unfold split: sum.split)
  show ?thesis
  proof (cases x)
    case (Inl e)
    then show ?thesis using st start assms by (auto simp: repair_run_def)
  next
    case (Inr y)
    obtain bs m p where y: "y = (bs, m, p)" by (cases y)
    from st start Inr y obtain now where n: "pw_log w1 = pw_log w" "receipt (rl (pe E)) (pn_manifest E) bs (ra_owner args)
        (ra_receipt_id args) now (permit_loopback_development args) = Inr (m, p)" "repair_authority args now = Inr ()" by auto
    have "repair_process E args p bs m w1 = Some (w', r)" using assms start Inr y by (simp add: repair_run_def)
    moreover obtain ev where "pool_wf (rl (pe E)) m p" "mode_ok m" using n(2) by (rule receipt_Inr)
    ultimately have "extends E args m w1 w'" using process_extends by fastforce
    then obtain l where "pw_log w' = pw_log w @ l" "chained (entry_ok E args m) l" using n(1) by (auto simp: extends_def)
    then show ?thesis using n(2,3) by blast
  qed
qed

lemma pool_start:
  "\<exists>w1. repair_start pool_env pool_args pool_world = (w1, Inr ([], pool_manifest, DirectHttps)) \<and> pw_log w1 = [] \<and> tick (pw w1) = 10
    \<and> map_of (root_dir (pw w1)) ''pool-report.json'' = None"
  by (simp add: repair_start_def now_at_def repair_authority_def read_bounded_def read_file_bounded_def advance_def pool_world_def
      sample_world_def pool_args_def is_absolute_def pool_receipt transport_new_def on_state_def state_open_def guard_io_def
      load_snapshot_def step_tick_def pool_env_def sample_env_def stale_pass_def strip_prefix_def)

lemma pool_run:
  "\<exists>w'. repair_run pool_env pool_args pool_world = Some (w', Inr ()) \<and> pw_log w' = P_Checked 200 # pool_log"
proof -
  obtain w1 where w1: "repair_start pool_env pool_args pool_world = (w1, Inr ([], pool_manifest, DirectHttps))"
    "pw_log w1 = []" "tick (pw w1) = 10" "map_of (root_dir (pw w1)) ''pool-report.json'' = None" using pool_start by blast
  let ?w = "advance 1 (advance 1 (record_effect (P_Checked 200) (advance 3 w1)))"
  obtain w2 where w2: "repair_pass pool_env pool_args DirectHttps [] pool_manifest ?w = (w2, Inr pool_report)"
    "pw_log w2 = P_Checked 200 # pool_log" "root_dir (pw w2) = root_dir (pw ?w)"
    using pool_pass_from [of ?w] w1 by (auto simp: record_effect_def)
  have "root_dir (pw ?w) = root_dir (pw w1)" by (simp add: record_effect_def advance_def)
  then have dir: "map_of (root_dir (pw w2)) ''pool-report.json'' = None" using w2(3) w1(4) by simp
  have "write_at (pe pool_env) n = W_Ok" for n by (simp add: pool_env_def sample_env_def)
  then show ?thesis
    using w1(1) w2(1,2) dir by (subst repair_run_def, subst repair_process.simps)
      (simp add: repair_round_def now_at_def raced_pass_def publish_report_def on_state_def write_private_def Let_def
        pool_report_def dir_of_def set_dir_def step_tick_def)
qed

theorem repair_run_authorised_witness:
  "\<exists>w' l. repair_run pool_env pool_args pool_world = Some (w', Inr ()) \<and> l \<noteq> []
     \<and> (\<exists>bs now m p. receipt (rl (pe pool_env)) (pn_manifest pool_env) bs sample_hex sample_hex now False = Inr (m, p)
         \<and> chained (entry_ok pool_env pool_args m) l)"
proof -
  from pool_run obtain w' where w': "repair_run pool_env pool_args pool_world = Some (w', Inr ())"
    "pw_log w' = P_Checked 200 # pool_log" by blast
  have "ra_owner pool_args = sample_hex" "ra_receipt_id pool_args = sample_hex" "\<not> permit_loopback_development pool_args"
    by (simp_all add: pool_args_def)
  then show ?thesis using repair_run_authorised [OF w'(1)] w' by (simp del: pool_env_simps) blast
qed

end
