(* ===== verification/Checkout_Contract.thy ===== *)
theory Checkout_Contract
  imports Http_Transport
begin

text \<open>
  The public contract of the operator checkout, \<open>crates/wildbloom-checkout/src/contract.rs\<close>, with
  the error type and identifiers of \<open>lib.rs\<close> and the request authentication of \<open>auth.rs\<close>. A byte
  string is a \<open>string\<close> here, so that digests, JSON and hexadecimal text share one type; what
  third-party crates compute are the fields of \<open>clibs\<close>.
\<close>

section \<open>Data\<close>

datatype cerror =
    C_Busy | C_Invalid | C_Unauthorised | C_NotFound | C_Conflict | C_Expired | C_Capacity | C_Pending
  | C_Unavailable | C_Locked | C_Internal

datatype rail = Lightning | Lnurlcash

datatype network = Bitcoin | Testnet | Regtest

record offer =
  of_id :: string
  of_revision :: nat
  capacity_bytes :: nat
  duration_seconds :: nat
  grace_seconds :: nat
  price_msat :: nat
  delivery_bytes :: nat
  delivery_policy :: string
  retention_policy :: string
  refund_policy :: string

record issuer =
  is_id :: string
  note_endpoint :: string
  is_callback :: string
  mint_pubkey :: string

record config =
  cf_origin :: string
  cf_seller_id :: string
  cf_seller_name :: string
  cf_network :: network
  quote_seconds :: nat
  offers :: "offer list"
  issuers :: "issuer list"
  cf_allow_loopback_http :: bool
  tor_only :: bool

record quote_request =
  request_id :: string
  rq_offer_id :: string
  rq_rail :: rail
  rq_issuer_id :: "string option"
  rq_renews :: "string option"
  rq_refund_to :: "string option"

record quote =
  q_version :: nat
  q_order_id :: string
  q_seller_id :: string
  q_seller_name :: string
  q_node_origin :: string
  q_signer_pubkey :: string
  q_network :: network
  q_rail :: rail
  q_issuer_id :: "string option"
  q_offer :: offer
  q_issuer :: "issuer option"
  q_created_at :: nat
  q_expires_at :: nat
  q_renews :: "string option"
  q_refund_to :: "string option"

datatype order_state =
    Reserving | Quoted | Expired | InvoicePending | AwaitingPayment | LnurlPending | Settled | Active
  | RefundRequired | Refunded

fun state_key :: "order_state \<Rightarrow> string" where
  "state_key Reserving = ''reserving''"
| "state_key Quoted = ''quoted''"
| "state_key Expired = ''expired''"
| "state_key InvoicePending = ''invoice_pending''"
| "state_key AwaitingPayment = ''awaiting_payment''"
| "state_key LnurlPending = ''lnurl_pending''"
| "state_key Settled = ''settled''"
| "state_key Active = ''active''"
| "state_key RefundRequired = ''refund_required''"
| "state_key Refunded = ''refunded''"

text \<open>Reading a state back: the derived \<open>snake_case\<close> names.\<close>

definition all_states :: "order_state list" where
  "all_states =
     [Reserving, Quoted, Expired, InvoicePending, AwaitingPayment, LnurlPending, Settled, Active, RefundRequired, Refunded]"

definition state_from_key :: "string \<Rightarrow> order_state option" where
  "state_from_key s = List.find (\<lambda>st. state_key st = s) all_states"

record paid_receipt =
  allowance_id :: string
  pr_capacity_bytes :: nat
  starts_at :: nat
  writes_until :: nat
  retains_until :: nat

datatype refund_status = RefundPending | RefundCompleted

record refund_receipt =
  rf_status :: refund_status
  rf_amount_msat :: nat
  rf_payment_hash :: string
  rf_refunded_at :: "nat option"

record order =
  o_quote :: quote
  o_quote_digest :: string
  o_state :: order_state
  o_invoice :: "string option"
  o_receipt :: "paid_receipt option"
  o_refund :: "refund_receipt option"

record order_summary =
  os_order_id :: string
  os_state :: order_state
  os_rail :: rail
  os_expires_at :: nat

record principal =
  p_pubkey :: string
  p_event_id :: string

section \<open>Libraries\<close>

record clibs =
  c_url :: "string \<Rightarrow> url option"
  c_same_origin :: "url \<Rightarrow> url \<Rightarrow> bool"
  c_query_pairs :: "url \<Rightarrow> (string \<times> string) list"
  c_drop_query :: "url \<Rightarrow> url"
  c_parse_ip :: "string \<Rightarrow> ip_addr option"
  c_sha256 :: "string \<Rightarrow> string"
  c_unhex :: "string \<Rightarrow> string option"
  c_base64 :: "string \<Rightarrow> string option"
  c_event :: "string \<Rightarrow> event option"
  c_verify :: "event \<Rightarrow> bool"
  c_compressed_pubkey :: "string \<Rightarrow> bool"
  c_config_json :: "config \<Rightarrow> string option"
  c_lightning_address :: "string \<Rightarrow> bool"

section \<open>Text\<close>

text \<open>The characters of UTF-8 text; a Rust string is always well-formed.\<close>

fun utf8_chars :: "string \<Rightarrow> nat list" where
  "utf8_chars (a # b # c # d # s) =
     (if of_char a < (128 :: nat) then of_char a # utf8_chars (b # c # d # s)
      else if of_char a < (224 :: nat) then (of_char a mod 32 * 64 + of_char b mod 64) # utf8_chars (c # d # s)
      else if of_char a < (240 :: nat)
      then (of_char a mod 16 * 4096 + of_char b mod 64 * 64 + of_char c mod 64) # utf8_chars (d # s)
      else (of_char a mod 8 * 262144 + of_char b mod 64 * 4096 + of_char c mod 64 * 64 + of_char d mod 64) # utf8_chars s)"
| "utf8_chars [a, b, c] =
     (if of_char a < (128 :: nat) then of_char a # utf8_chars [b, c]
      else if of_char a < (224 :: nat) then (of_char a mod 32 * 64 + of_char b mod 64) # utf8_chars [c]
      else [of_char a mod 16 * 4096 + of_char b mod 64 * 64 + of_char c mod 64])"
| "utf8_chars [a, b] =
     (if of_char a < (128 :: nat) then of_char a # utf8_chars [b] else [of_char a mod 32 * 64 + of_char b mod 64])"
| "utf8_chars [a] = [of_char a]"
| "utf8_chars [] = []"

definition char_is_control :: "nat \<Rightarrow> bool" where
  "char_is_control c \<longleftrightarrow> c \<le> 0x1F \<or> (0x7F \<le> c \<and> c \<le> 0x9F)"

definition ends_with :: "string \<Rightarrow> string \<Rightarrow> bool" where
  "ends_with suffix s = (strip_suffix suffix s \<noteq> None)"

definition starts_with :: "string \<Rightarrow> string \<Rightarrow> bool" where
  "starts_with pre s = (strip_prefix pre s \<noteq> None)"

definition checkout_id :: "string \<Rightarrow> bool" where
  "checkout_id v \<longleftrightarrow>
     v \<noteq> [] \<and> length v \<le> 128 \<and> list_all (\<lambda>b. ascii_alphanumeric b \<or> b = CHR ''-'' \<or> b = CHR ''_'') v"

section \<open>Configuration\<close>

definition endpoint :: "clibs \<Rightarrow> string \<Rightarrow> bool \<Rightarrow> cerror + url" where
  "endpoint L v local =
     try_then (ok_or C_Invalid (c_url L v)) (\<lambda>u.
     try_then (ok_or C_Invalid (u_host u)) (\<lambda>host.
       let loopback = host = ''localhost''
             \<or> (case c_parse_ip L host of None \<Rightarrow> False | Some ip \<Rightarrow> is_loopback ip)
       in if length v > 2048 \<or> u_username u \<noteq> [] \<or> u_password u \<noteq> None \<or> u_query u \<noteq> None \<or> u_fragment u \<noteq> None
             \<or> ends_with ''.onion'' host
             \<or> \<not> (u_scheme u = ''https'' \<or> (local \<and> loopback \<and> u_scheme u = ''http''))
          then Inl C_Invalid else Inr u))"

definition MAX_SAFE_INTEGER :: nat where
  "MAX_SAFE_INTEGER = 9007199254740991"

definition policy_text_bad :: "string \<Rightarrow> bool" where
  "policy_text_bad s \<longleftrightarrow>
     s = [] \<or> length s > 2048 \<or> list_ex (\<lambda>c. char_is_control c \<and> c \<noteq> 10 \<and> c \<noteq> 9) (utf8_chars s)"

definition offer_bad :: "offer \<Rightarrow> bool" where
  "offer_bad f \<longleftrightarrow>
     capacity_bytes f = 0 \<or> duration_seconds f = 0 \<or> price_msat f = 0 \<or> price_msat f mod 1000 \<noteq> 0
     \<or> delivery_bytes f = 0
     \<or> list_ex (\<lambda>n. n > MAX_SAFE_INTEGER)
         [capacity_bytes f, duration_seconds f, grace_seconds f, price_msat f, delivery_bytes f]
     \<or> list_ex policy_text_bad [delivery_policy f, retention_policy f, refund_policy f]"

fun validate_offers :: "string list \<Rightarrow> offer list \<Rightarrow> cerror + unit" where
  "validate_offers ids [] = Inr ()"
| "validate_offers ids (f # fs) =
     (if \<not> checkout_id (of_id f) \<or> of_revision f = 0 \<or> of_id f \<in> set ids \<or> offer_bad f
      then Inl C_Invalid else validate_offers (of_id f # ids) fs)"

fun validate_issuers :: "clibs \<Rightarrow> bool \<Rightarrow> string list \<Rightarrow> issuer list \<Rightarrow> cerror + unit" where
  "validate_issuers L local ids [] = Inr ()"
| "validate_issuers L local ids (i # is) =
     try_then (endpoint L (note_endpoint i) local) (\<lambda>note.
     try_then (endpoint L (is_callback i) local) (\<lambda>callback.
       if \<not> checkout_id (is_id i) \<or> is_id i \<in> set ids \<or> \<not> c_same_origin L note callback
          \<or> \<not> c_compressed_pubkey L (mint_pubkey i)
       then Inl C_Invalid else validate_issuers L local (is_id i # ids) is))"

definition config_validate :: "clibs \<Rightarrow> config \<Rightarrow> cerror + unit" where
  "config_validate L c =
     (if tor_only c \<or> \<not> checkout_id (cf_seller_id c) \<or> cf_seller_name c = [] \<or> length (cf_seller_name c) > 256
         \<or> list_ex char_is_control (utf8_chars (cf_seller_name c))
         \<or> \<not> (60 \<le> quote_seconds c \<and> quote_seconds c \<le> 86400) \<or> offers c = [] \<or> length (offers c) > 32
         \<or> length (issuers c) > 32
      then Inl C_Invalid
      else try_then (endpoint L (cf_origin c) (cf_allow_loopback_http c)) (\<lambda>origin.
        if u_path origin \<noteq> ''/'' \<or> u_str origin \<noteq> cf_origin c then Inl C_Invalid
        else try_then (validate_offers [] (offers c)) (\<lambda>_.
             try_then (validate_issuers L (cf_allow_loopback_http c) [] (issuers c)) (\<lambda>_.
             try_then (ok_or C_Invalid (c_config_json L c)) (\<lambda>json.
               if length json > 60000 then Inl C_Invalid else Inr ())))))"

section \<open>Request authentication\<close>

definition HTTP_AUTH_KIND :: nat where
  "HTTP_AUTH_KIND = 27235"

definition auth_tag :: "event \<Rightarrow> string \<Rightarrow> cerror + string option" where
  "auth_tag ev name =
     (case filter (\<lambda>t. t \<noteq> [] \<and> hd t = name) (ev_tags ev) of
        [] \<Rightarrow> Inr None
      | [t] \<Rightarrow> (if length t = 2 then Inr (Some (t ! 1)) else Inl C_Unauthorised)
      | _ \<Rightarrow> Inl C_Unauthorised)"

definition authenticate :: "clibs \<Rightarrow> string \<Rightarrow> string \<Rightarrow> string \<Rightarrow> string \<Rightarrow> nat \<Rightarrow> cerror + principal" where
  "authenticate L header url meth body now =
     (if length header > 12000 \<or> length body > 16384 \<or> \<not> (meth = ''GET'' \<or> meth = ''POST'') then Inl C_Unauthorised
      else try_then (ok_or C_Unauthorised (strip_prefix ''Nostr '' header)) (\<lambda>encoded.
      try_then (ok_or C_Unauthorised (c_base64 L encoded)) (\<lambda>decoded.
        if length decoded > 8192 then Inl C_Unauthorised
        else try_then (ok_or C_Unauthorised (c_event L decoded)) (\<lambda>ev.
          if ev_kind ev \<noteq> HTTP_AUTH_KIND \<or> ev_content ev \<noteq> [] \<or> ev_created_at ev > sat_add now 30
             \<or> now > sat_add (ev_created_at ev) 60
          then Inl C_Unauthorised
          else try_then (auth_tag ev ''u'') (\<lambda>u.
            if u \<noteq> Some url then Inl C_Unauthorised
            else try_then (auth_tag ev ''method'') (\<lambda>mt.
              if mt \<noteq> Some meth then Inl C_Unauthorised
              else try_then (auth_tag ev ''payload'') (\<lambda>payload.
                if meth = ''POST'' \<and> payload \<noteq> Some (c_sha256 L body) then Inl C_Unauthorised
                else if meth = ''GET'' \<and> (body \<noteq> [] \<or> payload \<noteq> None) then Inl C_Unauthorised
                else if \<not> c_verify L ev then Inl C_Unauthorised
                else Inr \<lparr>p_pubkey = ev_pubkey ev, p_event_id = ev_id ev\<rparr>)))))))"

end
