(* ===== verification/Checkout_Ledger.thy ===== *)
theory Checkout_Ledger
  imports Checkout_Contract
begin

text \<open>
  The private order ledger, \<open>crates/wildbloom-checkout/src/ledger.rs\<close>: one SQLite table of orders,
  its guarded updates and its reads. SQL statements are executed here as SQLite does: an update
  touches the rows its condition selects and reports their number, a violated \<open>UNIQUE\<close> column fails
  the statement, and a failed statement leaves the table as it was. Whether the database answers is
  decided by the environment at every statement; the JSON of the columns is a parameter.
\<close>

section \<open>Data\<close>

record rotation =
  ro_request_url :: string
  new_secret :: string
  ro_outputs :: "string list"
  ro_issuer :: string
  ro_mint_pubkey :: string
  ro_endpoint :: string
  ro_certificate :: "string option"

record refund_journal =
  rj_destination :: string
  rj_invoice :: string
  rj_payment_hash :: string
  receiver_verify :: "string option"
  rj_request_url :: string
  issuer_verify :: "string option"
  refunded_at :: "nat option"

record order_record =
  rec_order :: order
  rec_request :: string
  rec_payment_hash :: "string option"
  rec_rotation :: "rotation option"
  rec_refund :: "refund_journal option"

text \<open>One row of \<open>orders\<close>; \<open>None\<close> is SQL's null.\<close>

record order_row =
  row_id :: string
  row_signer :: string
  row_request :: string
  row_quote :: string
  row_digest :: string
  row_state :: string
  row_invoice :: "string option"
  row_payment_hash :: "string option"
  row_rotation :: "string option"
  row_note_id :: "string option"
  row_settlement :: "string option"
  row_receipt :: "string option"
  row_refund :: "string option"

record codecs =
  quote_to :: "quote \<Rightarrow> string option"
  quote_from :: "string \<Rightarrow> quote option"
  rotation_to :: "rotation \<Rightarrow> string option"
  rotation_from :: "string \<Rightarrow> rotation option"
  receipt_to :: "paid_receipt \<Rightarrow> string option"
  receipt_from :: "string \<Rightarrow> paid_receipt option"
  refund_to :: "refund_journal \<Rightarrow> string option"
  refund_from :: "string \<Rightarrow> refund_journal option"

text \<open>What the derived codecs promise: reading back what was written.\<close>

definition codecs_ok :: "codecs \<Rightarrow> bool" where
  "codecs_ok J \<longleftrightarrow>
     (\<forall>x s. quote_to J x = Some s \<longrightarrow> quote_from J s = Some x)
     \<and> (\<forall>x s. rotation_to J x = Some s \<longrightarrow> rotation_from J s = Some x)
     \<and> (\<forall>x s. receipt_to J x = Some s \<longrightarrow> receipt_from J s = Some x)
     \<and> (\<forall>x s. refund_to J x = Some s \<longrightarrow> refund_from J s = Some x)"

section \<open>The world\<close>

text \<open>
  What the checkout asked of the outside, with the answers, in order; the program does not read it.
\<close>

record ln_invoice =
  bolt11 :: string
  ln_payment_hash :: string

record paid_sale =
  ps_order_id :: string
  ps_signer_pubkey :: string
  ps_capacity_bytes :: nat
  ps_duration_seconds :: nat
  ps_grace_seconds :: nat
  hold_expires_at :: nat
  ps_renews :: "string option"

datatype store_error = QuotaExceeded | InvalidPaidSale | PaidAllowanceUnavailable | OtherStore

datatype ceffect =
    CE_Reserve paid_sale "store_error + unit"
  | CE_Invoice string nat "ln_invoice option"
  | CE_Check string "(bool \<times> string option) option"
  | CE_Note string "string option"
  | CE_Refund string "string option"
  | CE_Activate string "store_error + paid_receipt"

record cworld =
  cw_rows :: "order_row list"
  cw_tick :: nat
  cw_log :: "ceffect list"

definition step_on :: "cworld \<Rightarrow> cworld" where
  "step_on w = w\<lparr>cw_tick := cw_tick w + 1\<rparr>"

definition note_effect :: "ceffect \<Rightarrow> cworld \<Rightarrow> cworld" where
  "note_effect e w = w\<lparr>cw_tick := cw_tick w + 1, cw_log := cw_log w @ [e]\<rparr>"

section \<open>Statements\<close>

definition column :: "(order_row \<Rightarrow> string option) \<Rightarrow> order_row list \<Rightarrow> string list" where
  "column f rows = List.map_filter f rows"

definition unique_ok :: "order_row list \<Rightarrow> bool" where
  "unique_ok rows \<longleftrightarrow>
     distinct (map row_id rows) \<and> distinct (column row_payment_hash rows) \<and> distinct (column row_note_id rows)
     \<and> distinct (column row_settlement rows)"

definition find_row :: "(order_row \<Rightarrow> bool) \<Rightarrow> order_row list \<Rightarrow> order_row option" where
  "find_row p rows = List.find p rows"

definition sql_select :: "(nat \<Rightarrow> bool) \<Rightarrow> (order_row \<Rightarrow> bool) \<Rightarrow> cworld \<Rightarrow> cworld \<times> (cerror + order_row option)" where
  "sql_select up p w =
     (if \<not> up (cw_tick w) then (step_on w, Inl C_Internal) else (step_on w, Inr (find_row p (cw_rows w))))"

definition sql_update ::
  "(nat \<Rightarrow> bool) \<Rightarrow> (order_row \<Rightarrow> bool) \<Rightarrow> (order_row \<Rightarrow> order_row) \<Rightarrow> cworld \<Rightarrow> cworld \<times> (cerror + nat)" where
  "sql_update up p f w =
     (let rows = map (\<lambda>r. if p r then f r else r) (cw_rows w)
      in if \<not> up (cw_tick w) \<or> \<not> unique_ok rows then (step_on w, Inl C_Internal)
         else (step_on (w\<lparr>cw_rows := rows\<rparr>), Inr (length (filter p (cw_rows w)))))"

definition one_row :: "nat \<Rightarrow> cerror + unit" where
  "one_row n = (if n \<noteq> 1 then Inl C_Conflict else Inr ())"

section \<open>Reading\<close>

definition refund_public :: "refund_journal \<Rightarrow> nat \<Rightarrow> refund_receipt" where
  "refund_public j amount =
     \<lparr>rf_status = (if refunded_at j \<noteq> None then RefundCompleted else RefundPending), rf_amount_msat = amount,
      rf_payment_hash = rj_payment_hash j, rf_refunded_at = refunded_at j\<rparr>"

definition read_column :: "(string \<Rightarrow> 'a option) \<Rightarrow> string option \<Rightarrow> cerror + 'a option" where
  "read_column f v = (case v of None \<Rightarrow> Inr None | Some s \<Rightarrow> try_then (ok_or C_Invalid (f s)) (\<lambda>x. Inr (Some x)))"

definition row_record :: "codecs \<Rightarrow> order_row \<Rightarrow> cerror + order_record" where
  "row_record J r =
     try_then (ok_or C_Invalid (quote_from J (row_quote r))) (\<lambda>quote.
     try_then (read_column (refund_from J) (row_refund r)) (\<lambda>refund.
     try_then (read_column (rotation_from J) (row_rotation r)) (\<lambda>rotation.
     try_then (ok_or C_Invalid (state_from_key (row_state r))) (\<lambda>state.
     try_then (read_column (receipt_from J) (row_receipt r)) (\<lambda>receipt.
       Inr \<lparr>rec_order = \<lparr>o_quote = quote, o_quote_digest = row_digest r, o_state = state, o_invoice = row_invoice r,
              o_receipt = receipt,
              o_refund = map_option (\<lambda>j. refund_public j (price_msat (q_offer quote))) refund\<rparr>,
            rec_request = row_request r, rec_payment_hash = row_payment_hash r, rec_rotation = rotation,
            rec_refund = refund\<rparr>)))))"

definition ledger_get ::
  "codecs \<Rightarrow> (nat \<Rightarrow> bool) \<Rightarrow> string \<Rightarrow> cworld \<Rightarrow> cworld \<times> (cerror + order_record option)" where
  "ledger_get J up i w =
     st_then (sql_select up (\<lambda>r. row_id r = i) w) (\<lambda>row w.
       case row of None \<Rightarrow> (w, Inr None)
       | Some r \<Rightarrow> (w, try_then (row_record J r) (\<lambda>rc. Inr (Some rc))))"

text \<open>
  The order of two identifiers is the byte order of SQLite's default collation.
\<close>

fun str_less :: "string \<Rightarrow> string \<Rightarrow> bool" where
  "str_less s [] = False"
| "str_less [] (b # bs) = True"
| "str_less (a # as) (b # bs) = (of_char a < (of_char b :: nat) \<or> (a = b \<and> str_less as bs))"

fun insert_row :: "order_row \<Rightarrow> order_row list \<Rightarrow> order_row list" where
  "insert_row r [] = [r]"
| "insert_row r (x # xs) = (if str_less (row_id x) (row_id r) then x # insert_row r xs else r # x # xs)"

definition order_by_id :: "order_row list \<Rightarrow> order_row list" where
  "order_by_id rows = foldr insert_row rows []"

definition summary_of :: "codecs \<Rightarrow> order_row \<Rightarrow> cerror + order_summary" where
  "summary_of J r =
     try_then (ok_or C_Invalid (quote_from J (row_quote r))) (\<lambda>quote.
     try_then (ok_or C_Invalid (state_from_key (row_state r))) (\<lambda>state.
       Inr \<lparr>os_order_id = row_id r, os_state = state, os_rail = q_rail quote, os_expires_at = q_expires_at quote\<rparr>))"

fun collect_ok :: "('a \<Rightarrow> 'e + 'b) \<Rightarrow> 'a list \<Rightarrow> 'e + 'b list" where
  "collect_ok f [] = Inr []"
| "collect_ok f (x # xs) = try_then (f x) (\<lambda>y. try_then (collect_ok f xs) (\<lambda>ys. Inr (y # ys)))"

definition inspect ::
  "codecs \<Rightarrow> (nat \<Rightarrow> bool) \<Rightarrow> string \<Rightarrow> nat \<Rightarrow> cworld \<Rightarrow> cworld \<times> (cerror + order_summary list)" where
  "inspect J up after limit w =
     (if limit = 0 \<or> limit > 100 \<or> (after \<noteq> [] \<and> \<not> checkout_id after) then (w, Inl C_Invalid)
      else if \<not> up (cw_tick w) then (step_on w, Inl C_Internal)
      else (step_on w,
            collect_ok (summary_of J)
              (take limit (filter (\<lambda>r. str_less after (row_id r)) (order_by_id (cw_rows w))))))"

section \<open>Writing\<close>

definition MAX_ORDERS :: nat where
  "MAX_ORDERS = 10000"

definition new_row :: "clibs \<Rightarrow> quote \<Rightarrow> string \<Rightarrow> string \<Rightarrow> order_row" where
  "new_row L q json request =
     \<lparr>row_id = q_order_id q, row_signer = q_signer_pubkey q, row_request = request, row_quote = json,
      row_digest = c_sha256 L json, row_state = ''reserving'', row_invoice = None, row_payment_hash = None,
      row_rotation = None, row_note_id = None, row_settlement = None, row_receipt = None, row_refund = None\<rparr>"

definition sql_insert :: "(nat \<Rightarrow> bool) \<Rightarrow> order_row \<Rightarrow> cworld \<Rightarrow> cworld \<times> (cerror + nat)" where
  "sql_insert up r w =
     (if \<not> up (cw_tick w) then (step_on w, Inl C_Internal)
      else if length (cw_rows w) < MAX_ORDERS \<and> find_row (\<lambda>x. row_id x = row_id r) (cw_rows w) = None
      then (step_on (w\<lparr>cw_rows := cw_rows w @ [r]\<rparr>), Inr 1)
      else (step_on w, Inr 0))"

definition ledger_insert ::
  "clibs \<Rightarrow> codecs \<Rightarrow> (nat \<Rightarrow> bool) \<Rightarrow> quote \<Rightarrow> string \<Rightarrow> cworld \<Rightarrow> cworld \<times> (cerror + unit)" where
  "ledger_insert L J up q request w =
     st_then (w, ok_or C_Invalid (quote_to J q)) (\<lambda>json w.
     st_then (sql_insert up (new_row L q json request) w) (\<lambda>count w.
       if count = 0
       then st_then (ledger_get J up (q_order_id q) w) (\<lambda>found w.
              if found = None then (w, Inl C_Busy) else (w, Inr ()))
       else (w, Inr ())))"

definition ledger_state ::
  "(nat \<Rightarrow> bool) \<Rightarrow> string \<Rightarrow> order_state \<Rightarrow> order_state \<Rightarrow> cworld \<Rightarrow> cworld \<times> (cerror + unit)" where
  "ledger_state up i old new w =
     st_then (sql_update up (\<lambda>r. row_id r = i \<and> row_state r = state_key old) (\<lambda>r. r\<lparr>row_state := state_key new\<rparr>) w)
       (\<lambda>n w. (w, one_row n))"

definition ledger_invoice ::
  "(nat \<Rightarrow> bool) \<Rightarrow> string \<Rightarrow> string \<Rightarrow> string \<Rightarrow> cworld \<Rightarrow> cworld \<times> (cerror + unit)" where
  "ledger_invoice up i invoice hash w =
     st_then (sql_select up (\<lambda>r. row_payment_hash r = Some hash) w) (\<lambda>owner w.
       if (case owner of None \<Rightarrow> False | Some r \<Rightarrow> row_id r \<noteq> i) then (w, Inl C_Conflict)
       else st_then (sql_update up (\<lambda>r. row_id r = i \<and> row_state r = ''invoice_pending'')
              (\<lambda>r. r\<lparr>row_state := ''awaiting_payment'', row_invoice := Some invoice, row_payment_hash := Some hash\<rparr>) w)
              (\<lambda>n w. (w, one_row n)))"

definition ledger_rotate ::
  "codecs \<Rightarrow> (nat \<Rightarrow> bool) \<Rightarrow> string \<Rightarrow> string \<Rightarrow> rotation \<Rightarrow> cworld \<Rightarrow> cworld \<times> (cerror + unit)" where
  "ledger_rotate J up i note_id rotation w =
     st_then (sql_select up (\<lambda>r. row_note_id r = Some note_id) w) (\<lambda>owner w.
       if owner \<noteq> None then (w, Inl C_Conflict)
       else st_then (w, ok_or C_Invalid (rotation_to J rotation)) (\<lambda>json w.
            st_then (sql_update up (\<lambda>r. row_id r = i \<and> row_state r = ''quoted'')
              (\<lambda>r. r\<lparr>row_state := ''lnurl_pending'', row_note_id := Some note_id, row_rotation := Some json\<rparr>) w)
              (\<lambda>n w. (w, one_row n))))"

definition ledger_settle ::
  "codecs \<Rightarrow> (nat \<Rightarrow> bool) \<Rightarrow> string \<Rightarrow> order_state \<Rightarrow> string \<Rightarrow> rotation option \<Rightarrow> cworld
     \<Rightarrow> cworld \<times> (cerror + unit)" where
  "ledger_settle J up i old reference rotation w =
     st_then (sql_select up (\<lambda>r. row_settlement r = Some reference) w) (\<lambda>owner w.
       if (case owner of None \<Rightarrow> False | Some r \<Rightarrow> row_id r \<noteq> i) then (w, Inl C_Conflict)
       else st_then (w, case rotation of None \<Rightarrow> Inr None | Some ro \<Rightarrow>
                         try_then (ok_or C_Invalid (rotation_to J ro)) (\<lambda>s. Inr (Some s))) (\<lambda>json w.
            st_then (sql_update up (\<lambda>r. row_id r = i \<and> row_state r = state_key old)
              (\<lambda>r. r\<lparr>row_state := ''settled'', row_settlement := Some reference,
                     row_rotation := (if json = None then row_rotation r else json)\<rparr>) w)
              (\<lambda>n w. (w, one_row n))))"

definition ledger_activate ::
  "codecs \<Rightarrow> (nat \<Rightarrow> bool) \<Rightarrow> string \<Rightarrow> paid_receipt \<Rightarrow> cworld \<Rightarrow> cworld \<times> (cerror + unit)" where
  "ledger_activate J up i receipt w =
     st_then (w, ok_or C_Invalid (receipt_to J receipt)) (\<lambda>json w.
     st_then (sql_update up (\<lambda>r. row_id r = i \<and> row_state r = ''settled'')
       (\<lambda>r. r\<lparr>row_state := ''active'', row_receipt := Some json\<rparr>) w) (\<lambda>n w. (w, one_row n)))"

definition start_refund ::
  "codecs \<Rightarrow> (nat \<Rightarrow> bool) \<Rightarrow> string \<Rightarrow> refund_journal \<Rightarrow> cworld \<Rightarrow> cworld \<times> (cerror + unit)" where
  "start_refund J up i journal w =
     st_then (w, ok_or C_Invalid (refund_to J journal)) (\<lambda>json w.
     st_then (sql_update up (\<lambda>r. row_id r = i \<and> row_state r = ''refund_required'' \<and> row_refund r = None)
       (\<lambda>r. r\<lparr>row_refund := Some json\<rparr>) w) (\<lambda>n w. (w, one_row n)))"

definition update_refund ::
  "codecs \<Rightarrow> (nat \<Rightarrow> bool) \<Rightarrow> string \<Rightarrow> refund_journal \<Rightarrow> cworld \<Rightarrow> cworld \<times> (cerror + unit)" where
  "update_refund J up i journal w =
     st_then (ledger_get J up i w) (\<lambda>found w.
     st_then (w, ok_or C_Conflict (Option.bind found rec_refund)) (\<lambda>current w.
       if rj_payment_hash current \<noteq> rj_payment_hash journal \<or> rj_request_url current \<noteq> rj_request_url journal
       then (w, Inl C_Conflict)
       else st_then (w, ok_or C_Invalid (refund_to J journal)) (\<lambda>json w.
            st_then (sql_update up (\<lambda>r. row_id r = i \<and> row_state r = ''refund_required'')
              (\<lambda>r. r\<lparr>row_refund := Some json\<rparr>) w) (\<lambda>n w. (w, one_row n)))))"

definition complete_refund ::
  "codecs \<Rightarrow> (nat \<Rightarrow> bool) \<Rightarrow> string \<Rightarrow> refund_journal \<Rightarrow> cworld \<Rightarrow> cworld \<times> (cerror + unit)" where
  "complete_refund J up i journal w =
     (if refunded_at journal = None then (w, Inl C_Invalid)
      else st_then (w, ok_or C_Invalid (refund_to J journal)) (\<lambda>json w.
           st_then (sql_update up (\<lambda>r. row_id r = i \<and> row_state r = ''refund_required'')
             (\<lambda>r. r\<lparr>row_state := ''refunded'', row_refund := Some json\<rparr>) w) (\<lambda>n w. (w, one_row n))))"

end
