(* ===== verification/Checkout_Service.thy ===== *)
theory Checkout_Service
  imports Checkout_Ledger
begin

text \<open>
  The checkout service, \<open>crates/wildbloom-checkout/src/service.rs\<close>: quoting, the two payment rails,
  settlement checks, activation and refunds. The Lightning backend, the note and refund transports,
  the storage of the shelter kit, the clock and the secret generator answer from the environment
  \<open>cenv\<close> at the current step; a timeout is one more way not to answer. \<open>lnlibs\<close> holds the pure
  functions of the LNURL-cash and BOLT11 libraries. A process that dies in the middle of an operation
  behaves as one for which every later call fails.
\<close>

section \<open>Libraries and environment\<close>

datatype currency = CurBitcoin | CurTestnet | CurRegtest | CurOther

record bolt11_invoice =
  b_currency :: currency
  b_amount_msat :: "nat option"
  b_expires_at :: "nat option"
  b_payment_hash :: string
  b_description :: "string option"
  b_timestamp :: nat

record note_info =
  ni_callback :: string
  ni_k1 :: string
  ni_mint_pubkey :: "string option"
  max_withdrawable :: nat
  ni_signature :: "string option"

record mutation =
  mu_signature :: "string option"
  mu_pr :: "string option"
  mu_verify :: "string option"

record pay_request =
  pay_callback :: string
  min_sendable :: nat
  max_sendable :: nat

record verify_result =
  vr_pr :: string
  vr_settled :: bool
  vr_preimage :: "string option"

record lnurl_policy =
  require_signatures :: bool
  require_mint_pubkey :: bool

datatype mutation_kind = Rotate | Melt

record lnlibs =
  json_value :: "string \<Rightarrow> string option"
  resolve_note_input :: "string \<Rightarrow> string option"
  note_k1 :: "string \<Rightarrow> string option"
  note_id_of :: "string \<Rightarrow> string option"
  note_info_request :: "string \<Rightarrow> string option"
  parse_note_info :: "string \<Rightarrow> string \<Rightarrow> lnurl_policy \<Rightarrow> note_info option"
  rotate_request :: "string \<Rightarrow> string \<Rightarrow> string \<Rightarrow> (string \<times> string list) option"
  parse_mutation :: "string \<Rightarrow> mutation_kind \<Rightarrow> string list \<Rightarrow> lnurl_policy \<Rightarrow> mutation option"
  verify_note_signature :: "string \<Rightarrow> string \<Rightarrow> nat \<Rightarrow> string \<Rightarrow> string \<Rightarrow> bool"
  build_note_url :: "string \<Rightarrow> string \<Rightarrow> string option"
  resolve_mint_input :: "string \<Rightarrow> string option"
  parse_pay_request :: "string \<Rightarrow> pay_request option"
  invoice_request :: "string \<Rightarrow> nat \<Rightarrow> string option"
  parse_invoice :: "string \<Rightarrow> nat \<Rightarrow> (string \<times> string option) option"
  melt_request :: "string \<Rightarrow> string \<Rightarrow> string \<Rightarrow> string option"
  parse_verify :: "string \<Rightarrow> verify_result option"
  parse_bolt11 :: "string \<Rightarrow> bolt11_invoice option"
  request_json :: "quote_request \<Rightarrow> string option"

text \<open>One checkout instance: its libraries, configuration and attached backends.\<close>

record checkout =
  ck_lib :: clibs
  ck_json :: codecs
  ck_ln :: lnlibs
  ck_config :: config
  ck_lightning :: bool
  ck_notes :: bool
  ck_refunds :: bool

record cenv =
  db_up :: "nat \<Rightarrow> bool"
  receiving_free :: "nat \<Rightarrow> bool"
  unix_now :: "nat \<Rightarrow> nat option"
  create_invoice :: "nat \<Rightarrow> nat \<Rightarrow> string \<Rightarrow> ln_invoice option"
  check_invoice :: "nat \<Rightarrow> string \<Rightarrow> (bool \<times> string option) option"
  note_get :: "nat \<Rightarrow> string \<Rightarrow> string option"
  refund_get :: "nat \<Rightarrow> string \<Rightarrow> string option"
  reserve_paid_sale :: "nat \<Rightarrow> paid_sale \<Rightarrow> store_error + unit"
  activate_paid_sale :: "nat \<Rightarrow> string \<Rightarrow> store_error + paid_receipt"
  note_secret :: "nat \<Rightarrow> string"

section \<open>Calls\<close>

definition sys_now :: "cenv \<Rightarrow> cworld \<Rightarrow> cworld \<times> (cerror + nat)" where
  "sys_now E w = (step_on w, ok_or C_Internal (unix_now E (cw_tick w)))"

definition try_receiving :: "cenv \<Rightarrow> cworld \<Rightarrow> cworld \<times> (cerror + unit)" where
  "try_receiving E w = (step_on w, if receiving_free E (cw_tick w) then Inr () else Inl C_Busy)"

definition get_record :: "checkout \<Rightarrow> cenv \<Rightarrow> string \<Rightarrow> cworld \<Rightarrow> cworld \<times> (cerror + order_record option)" where
  "get_record K E i w = ledger_get (ck_json K) (db_up E) i w"

definition must_get :: "checkout \<Rightarrow> cenv \<Rightarrow> cerror \<Rightarrow> string \<Rightarrow> cworld \<Rightarrow> cworld \<times> (cerror + order_record)" where
  "must_get K E e i w = st_then (get_record K E i w) (\<lambda>found w. (w, ok_or e found))"

definition note_fetch :: "checkout \<Rightarrow> cenv \<Rightarrow> string \<Rightarrow> cworld \<Rightarrow> cworld \<times> (cerror + string)" where
  "note_fetch K E u w =
     (if \<not> ck_notes K then (w, Inl C_Unavailable)
      else let answer = note_get E (cw_tick w) u
           in (note_effect (CE_Note u answer) w,
               try_then (ok_or C_Pending answer) (\<lambda>bs.
                 if length bs > 65536 then Inl C_Pending else ok_or C_Pending (json_value (ck_ln K) bs))))"

definition refund_fetch :: "checkout \<Rightarrow> cenv \<Rightarrow> string \<Rightarrow> cworld \<Rightarrow> cworld \<times> (cerror + string)" where
  "refund_fetch K E u w =
     (if \<not> ck_refunds K then (w, Inl C_Unavailable)
      else let answer = refund_get E (cw_tick w) u
           in (note_effect (CE_Refund u answer) w,
               try_then (ok_or C_Pending answer) (\<lambda>bs.
                 if length bs > 65536 then Inl C_Pending else ok_or C_Pending (json_value (ck_ln K) bs))))"

definition call_create_invoice :: "cenv \<Rightarrow> nat \<Rightarrow> string \<Rightarrow> cworld \<Rightarrow> cworld \<times> (cerror + ln_invoice)" where
  "call_create_invoice E sats i w =
     (let answer = create_invoice E (cw_tick w) sats i
      in (note_effect (CE_Invoice i sats answer) w, ok_or C_Pending answer))"

definition call_check_invoice :: "cenv \<Rightarrow> string \<Rightarrow> cworld \<Rightarrow> cworld \<times> (cerror + (bool \<times> string option))" where
  "call_check_invoice E hash w =
     (let answer = check_invoice E (cw_tick w) hash
      in (note_effect (CE_Check hash answer) w, ok_or C_Unavailable answer))"

definition call_reserve :: "cenv \<Rightarrow> paid_sale \<Rightarrow> cworld \<Rightarrow> cworld \<times> (store_error + unit)" where
  "call_reserve E sale w =
     (let answer = reserve_paid_sale E (cw_tick w) sale in (note_effect (CE_Reserve sale answer) w, answer))"

definition call_activate :: "cenv \<Rightarrow> string \<Rightarrow> cworld \<Rightarrow> cworld \<times> (store_error + paid_receipt)" where
  "call_activate E i w =
     (let answer = activate_paid_sale E (cw_tick w) i in (note_effect (CE_Activate i answer) w, answer))"

section \<open>Orders\<close>

definition checkout_new :: "clibs \<Rightarrow> codecs \<Rightarrow> lnlibs \<Rightarrow> config \<Rightarrow> bool \<Rightarrow> bool \<Rightarrow> cerror + checkout" where
  "checkout_new L J N c lightning notes =
     try_then (config_validate L c) (\<lambda>_.
       Inr \<lparr>ck_lib = L, ck_json = J, ck_ln = N, ck_config = c, ck_lightning = lightning, ck_notes = notes,
            ck_refunds = False\<rparr>)"

definition with_refunds :: "checkout \<Rightarrow> checkout" where
  "with_refunds K = K\<lparr>ck_refunds := True\<rparr>"

definition rails :: "checkout \<Rightarrow> rail list" where
  "rails K =
     (if ck_lightning K then [Lightning] else [])
     @ (if ck_notes K \<and> cf_network (ck_config K) = Bitcoin \<and> issuers (ck_config K) \<noteq> [] then [Lnurlcash] else [])"

definition signer_record ::
  "checkout \<Rightarrow> cenv \<Rightarrow> principal \<Rightarrow> string \<Rightarrow> cworld \<Rightarrow> cworld \<times> (cerror + order_record)" where
  "signer_record K E p i w =
     (if \<not> checkout_id i then (w, Inl C_NotFound)
      else st_then (get_record K E i w) (\<lambda>found w.
        case found of
          None \<Rightarrow> (w, Inl C_NotFound)
        | Some rc \<Rightarrow>
            if q_signer_pubkey (o_quote (rec_order rc)) = p_pubkey p then (w, Inr rc) else (w, Inl C_NotFound)))"

definition order_of :: "checkout \<Rightarrow> cenv \<Rightarrow> principal \<Rightarrow> string \<Rightarrow> cworld \<Rightarrow> cworld \<times> (cerror + order)" where
  "order_of K E p i w = st_then (signer_record K E p i w) (\<lambda>rc w. (w, Inr (rec_order rc)))"

definition consent ::
  "checkout \<Rightarrow> cenv \<Rightarrow> principal \<Rightarrow> string \<Rightarrow> string \<Rightarrow> cworld \<Rightarrow> cworld \<times> (cerror + order_record)" where
  "consent K E p i commitment w =
     st_then (signer_record K E p i w) (\<lambda>rc w.
       if o_quote_digest (rec_order rc) \<noteq> commitment then (w, Inl C_Conflict) else (w, Inr rc))"

definition still_fresh :: "cenv \<Rightarrow> order \<Rightarrow> cworld \<Rightarrow> cworld \<times> (cerror + unit)" where
  "still_fresh E od w =
     st_then (sys_now E w) (\<lambda>now w. if now \<ge> q_expires_at (o_quote od) then (w, Inl C_Expired) else (w, Inr ()))"

definition sale_of :: "quote \<Rightarrow> paid_sale" where
  "sale_of q =
     \<lparr>ps_order_id = q_order_id q, ps_signer_pubkey = q_signer_pubkey q, ps_capacity_bytes = capacity_bytes (q_offer q),
      ps_duration_seconds = duration_seconds (q_offer q), ps_grace_seconds = grace_seconds (q_offer q),
      hold_expires_at = q_expires_at q, ps_renews = q_renews q\<rparr>"

fun sale_error :: "store_error \<Rightarrow> cerror" where
  "sale_error QuotaExceeded = C_Capacity"
| "sale_error InvalidPaidSale = C_Conflict"
| "sale_error PaidAllowanceUnavailable = C_Conflict"
| "sale_error OtherStore = C_Internal"

definition reserve_order :: "checkout \<Rightarrow> cenv \<Rightarrow> order_record \<Rightarrow> cworld \<Rightarrow> cworld \<times> (cerror + order)" where
  "reserve_order K E rc w =
     (let od = rec_order rc; q = o_quote od
      in if o_state od \<noteq> Reserving then (w, Inr od)
         else st_then (sys_now E w) (\<lambda>now w.
              st_then
                (if now \<ge> q_expires_at q then ledger_state (db_up E) (q_order_id q) Reserving Expired w
                 else st_then (st_map_err sale_error (call_reserve E (sale_of q) w)) (\<lambda>_ w.
                      ledger_state (db_up E) (q_order_id q) Reserving Quoted w)) (\<lambda>_ w.
              st_then (must_get K E C_Internal (q_order_id q) w) (\<lambda>rc w. (w, Inr (rec_order rc))))))"

definition request_bad :: "clibs \<Rightarrow> quote_request \<Rightarrow> bool" where
  "request_bad L rq \<longleftrightarrow>
     \<not> checkout_id (request_id rq) \<or> \<not> checkout_id (rq_offer_id rq)
     \<or> (case rq_renews rq of None \<Rightarrow> False | Some v \<Rightarrow> \<not> checkout_id v)
     \<or> (case rq_refund_to rq of None \<Rightarrow> False | Some v \<Rightarrow> length v > 320 \<or> \<not> c_lightning_address L v)"

definition order_id_of :: "clibs \<Rightarrow> principal \<Rightarrow> quote_request \<Rightarrow> string" where
  "order_id_of L p rq = c_sha256 L (p_pubkey p @ '':'' @ request_id rq)"

definition rail_served :: "checkout \<Rightarrow> quote_request \<Rightarrow> bool" where
  "rail_served K rq =
     (case rq_rail rq of
        Lightning \<Rightarrow> rq_issuer_id rq = None \<and> ck_lightning K
      | Lnurlcash \<Rightarrow> ck_notes K \<and> cf_network (ck_config K) = Bitcoin
          \<and> list_ex (\<lambda>i. Some (is_id i) = rq_issuer_id rq) (issuers (ck_config K)))"

definition quote_deadlines :: "nat \<Rightarrow> nat \<Rightarrow> offer \<Rightarrow> cerror + nat" where
  "quote_deadlines created seconds f =
     try_then (ok_or C_Invalid (checked_add created seconds)) (\<lambda>expires.
     try_then (ok_or C_Invalid (Option.bind (checked_add expires (duration_seconds f)) (\<lambda>v.
         Option.bind (checked_add v (grace_seconds f)) (\<lambda>v. if v \<le> i64_max then Some v else None)))) (\<lambda>_.
       Inr expires))"

definition make_quote :: "config \<Rightarrow> principal \<Rightarrow> quote_request \<Rightarrow> string \<Rightarrow> offer \<Rightarrow> nat \<Rightarrow> nat \<Rightarrow> quote" where
  "make_quote c p rq i f created expires =
     \<lparr>q_version = 1, q_order_id = i, q_seller_id = cf_seller_id c, q_seller_name = cf_seller_name c,
      q_node_origin = cf_origin c, q_signer_pubkey = p_pubkey p, q_network = cf_network c, q_rail = rq_rail rq,
      q_issuer_id = rq_issuer_id rq, q_offer = f,
      q_issuer = List.find (\<lambda>x. Some (is_id x) = rq_issuer_id rq) (issuers c),
      q_created_at = created, q_expires_at = expires, q_renews = rq_renews rq, q_refund_to = rq_refund_to rq\<rparr>"

definition new_quote ::
  "checkout \<Rightarrow> cenv \<Rightarrow> principal \<Rightarrow> quote_request \<Rightarrow> string \<Rightarrow> string \<Rightarrow> cworld \<Rightarrow> cworld \<times> (cerror + order)" where
  "new_quote K E p rq i json w =
     (if \<not> rail_served K rq then (w, Inl C_Invalid)
      else st_then (w, ok_or C_Invalid (List.find (\<lambda>f. of_id f = rq_offer_id rq) (offers (ck_config K)))) (\<lambda>f w.
           st_then (sys_now E w) (\<lambda>created w.
           st_then (w, quote_deadlines created (quote_seconds (ck_config K)) f) (\<lambda>expires w.
           st_then (ledger_insert (ck_lib K) (ck_json K) (db_up E)
                      (make_quote (ck_config K) p rq i f created expires) json w) (\<lambda>_ w.
           st_then (must_get K E C_Internal i w) (\<lambda>rc w. reserve_order K E rc w))))))"

definition quote_order ::
  "checkout \<Rightarrow> cenv \<Rightarrow> principal \<Rightarrow> quote_request \<Rightarrow> cworld \<Rightarrow> cworld \<times> (cerror + order)" where
  "quote_order K E p rq w =
     st_then (try_receiving E w) (\<lambda>_ w.
       if request_bad (ck_lib K) rq then (w, Inl C_Invalid)
       else let i = order_id_of (ck_lib K) p rq
            in st_then (w, ok_or C_Invalid (request_json (ck_ln K) rq)) (\<lambda>json w.
               st_then (get_record K E i w) (\<lambda>found w.
                 case found of
                   Some rc \<Rightarrow> if rec_request rc \<noteq> json then (w, Inl C_Conflict) else reserve_order K E rc w
                 | None \<Rightarrow> new_quote K E p rq i json w)))"

section \<open>Invoices\<close>

fun currency_of :: "network \<Rightarrow> currency" where
  "currency_of Bitcoin = CurBitcoin"
| "currency_of Testnet = CurTestnet"
| "currency_of Regtest = CurRegtest"

text \<open>The terms an invoice must carry, apart from being unexpired.\<close>

definition invoice_terms :: "quote \<Rightarrow> ln_invoice \<Rightarrow> bolt11_invoice \<Rightarrow> nat \<Rightarrow> bool" where
  "invoice_terms q iv parsed expiry \<longleftrightarrow>
     b_currency parsed = currency_of (q_network q) \<and> b_amount_msat parsed = Some (price_msat (q_offer q))
     \<and> b_payment_hash parsed = ln_payment_hash iv \<and> expiry \<le> q_expires_at q \<and> expiry > q_created_at q
     \<and> b_timestamp parsed \<le> q_expires_at q"

definition validate_invoice ::
  "checkout \<Rightarrow> cenv \<Rightarrow> quote \<Rightarrow> ln_invoice \<Rightarrow> bool \<Rightarrow> cworld \<Rightarrow> cworld \<times> (cerror + unit)" where
  "validate_invoice K E q iv allow_expired w =
     (if length (bolt11 iv) > 8192 \<or> length (ln_payment_hash iv) \<noteq> 64 then (w, Inl C_Pending)
      else st_then (w, ok_or C_Pending (parse_bolt11 (ck_ln K) (bolt11 iv))) (\<lambda>parsed w.
           st_then (w, ok_or C_Pending (b_expires_at parsed)) (\<lambda>expiry w.
             if b_description parsed \<noteq> Some (q_order_id q) then (w, Inl C_Pending)
             else st_then (if allow_expired then (w, Inr False)
                           else st_then (sys_now E w) (\<lambda>now w. (w, Inr (expiry \<le> now)))) (\<lambda>late w.
                  if late \<or> \<not> invoice_terms q iv parsed expiry then (w, Inl C_Pending) else (w, Inr ())))))"

definition lightning_order ::
  "checkout \<Rightarrow> cenv \<Rightarrow> principal \<Rightarrow> string \<Rightarrow> string \<Rightarrow> cworld \<Rightarrow> cworld \<times> (cerror + order)" where
  "lightning_order K E p i commitment w =
     st_then (try_receiving E w) (\<lambda>_ w.
     st_then (consent K E p i commitment w) (\<lambda>rc w.
       let od = rec_order rc; q = o_quote od
       in if q_rail q \<noteq> Lightning then (w, Inl C_Conflict)
          else if o_state od \<in> {AwaitingPayment, Settled, Active, RefundRequired} then (w, Inr od)
          else if o_state od = InvoicePending then (w, Inl C_Pending)
          else if o_state od = Expired then (w, Inl C_Expired)
          else if o_state od \<noteq> Quoted then (w, Inl C_Conflict)
          else st_then (still_fresh E od w) (\<lambda>_ w.
            if \<not> ck_lightning K then (w, Inl C_Unavailable)
            else st_then (ledger_state (db_up E) i Quoted InvoicePending w) (\<lambda>_ w.
                 st_then (call_create_invoice E (price_msat (q_offer q) div 1000) i w) (\<lambda>iv w.
                 st_then (validate_invoice K E q iv False w) (\<lambda>_ w.
                 st_then (ledger_invoice (db_up E) i (bolt11 iv) (ln_payment_hash iv) w) (\<lambda>_ w.
                   order_of K E p i w)))))))"

definition recover_invoice ::
  "checkout \<Rightarrow> cenv \<Rightarrow> string \<Rightarrow> ln_invoice \<Rightarrow> cworld \<Rightarrow> cworld \<times> (cerror + unit)" where
  "recover_invoice K E i iv w =
     st_then (try_receiving E w) (\<lambda>_ w.
     st_then (must_get K E C_NotFound i w) (\<lambda>rc w.
       let od = rec_order rc
       in if o_state od \<noteq> InvoicePending \<or> q_rail (o_quote od) \<noteq> Lightning then (w, Inl C_Conflict)
          else st_then (validate_invoice K E (o_quote od) iv True w) (\<lambda>_ w.
               ledger_invoice (db_up E) i (bolt11 iv) (ln_payment_hash iv) w)))"

section \<open>Notes\<close>

definition strict_policy :: lnurl_policy where
  "strict_policy = \<lparr>require_signatures = True, require_mint_pubkey = True\<rparr>"

fun query_keys_ok :: "string list \<Rightarrow> (string \<times> string) list \<Rightarrow> bool" where
  "query_keys_ok seen [] = True"
| "query_keys_ok seen ((k, v) # ps) =
     (k \<in> {''k1'', ''c'', ''sig'', ''amount''} \<and> k \<notin> set seen \<and> query_keys_ok (k # seen) ps)"

definition certify ::
  "checkout \<Rightarrow> cenv \<Rightarrow> string \<Rightarrow> rotation \<Rightarrow> string \<Rightarrow> cworld \<Rightarrow> cworld \<times> (cerror + unit)" where
  "certify K E i ro signature w =
     ledger_settle (ck_json K) (db_up E) i LnurlPending (''lnurlcash:'' @ c_sha256 (ck_lib K) (ro_request_url ro))
       (Some (ro\<lparr>ro_certificate := Some signature\<rparr>)) w"

definition issuer_served :: "config \<Rightarrow> rotation \<Rightarrow> bool" where
  "issuer_served c ro =
     list_ex (\<lambda>x. is_id x = ro_issuer ro \<and> mint_pubkey x = ro_mint_pubkey ro \<and> note_endpoint x = ro_endpoint ro
       \<and> starts_with (is_callback x @ ''?'') (ro_request_url ro)) (issuers c)"

definition rotate_note ::
  "checkout \<Rightarrow> cenv \<Rightarrow> string \<Rightarrow> quote \<Rightarrow> rotation \<Rightarrow> cworld \<Rightarrow> cworld \<times> (cerror + unit)" where
  "rotate_note K E i q ro w =
     (if \<not> issuer_served (ck_config K) ro then (w, Inl C_Unavailable)
      else st_then (note_fetch K E (ro_request_url ro) w) (\<lambda>body w.
           st_then (w, ok_or C_Pending (parse_mutation (ck_ln K) body Rotate (ro_outputs ro) strict_policy)) (\<lambda>resp w.
           st_then (w, ok_or C_Pending (mu_signature resp)) (\<lambda>signature w.
             if \<not> verify_note_signature (ck_ln K) (new_secret ro) (ro_endpoint ro) (price_msat (q_offer q)) signature
                    (ro_mint_pubkey ro)
             then (w, Inl C_Pending) else certify K E i ro signature w))))"

definition note_matches :: "lnlibs \<Rightarrow> quote \<Rightarrow> rotation \<Rightarrow> issuer \<Rightarrow> note_info \<Rightarrow> string \<Rightarrow> bool" where
  "note_matches N q ro x info signature \<longleftrightarrow>
     ni_callback info = is_callback x \<and> ni_mint_pubkey info = Some (ro_mint_pubkey ro)
     \<and> max_withdrawable info = price_msat (q_offer q)
     \<and> verify_note_signature N (new_secret ro) (ro_endpoint ro) (price_msat (q_offer q)) signature (ro_mint_pubkey ro)"

definition recover_rotation ::
  "checkout \<Rightarrow> cenv \<Rightarrow> string \<Rightarrow> quote \<Rightarrow> rotation \<Rightarrow> cworld \<Rightarrow> cworld \<times> (cerror + bool)" where
  "recover_rotation K E i q ro w =
     st_then (w, ok_or C_Unavailable (List.find (\<lambda>x. Some x = q_issuer q) (issuers (ck_config K)))) (\<lambda>x w.
     st_then (w, ok_or C_Internal (build_note_url (ck_ln K) (ro_endpoint ro) (new_secret ro))) (\<lambda>note w.
     st_then (w, ok_or C_Internal (note_info_request (ck_ln K) note)) (\<lambda>u w.
       case note_fetch K E u w of
         (w, Inl e) \<Rightarrow> (w, Inr False)
       | (w, Inr body) \<Rightarrow>
           (case parse_note_info (ck_ln K) body note strict_policy of
              None \<Rightarrow> (w, Inr False)
            | Some info \<Rightarrow>
                (case ni_signature info of
                   None \<Rightarrow> (w, Inr False)
                 | Some signature \<Rightarrow>
                     if \<not> note_matches (ck_ln K) q ro x info signature then (w, Inr False)
                     else st_then (certify K E i ro signature w) (\<lambda>_ w. (w, Inr True)))))))"

definition fulfil :: "checkout \<Rightarrow> cenv \<Rightarrow> string \<Rightarrow> cworld \<Rightarrow> cworld \<times> (cerror + unit)" where
  "fulfil K E i w =
     (case call_activate E i w of
        (w, Inr receipt) \<Rightarrow> ledger_activate (ck_json K) (db_up E) i receipt w
      | (w, Inl PaidAllowanceUnavailable) \<Rightarrow> ledger_state (db_up E) i Settled RefundRequired w
      | (w, Inl e) \<Rightarrow> (w, Inl C_Internal))"

text \<open>The note a buyer hands over, resolved and checked against the quoted issuer's endpoint.\<close>

definition accept_note :: "checkout \<Rightarrow> issuer \<Rightarrow> string \<Rightarrow> cerror + (string \<times> string \<times> string)" where
  "accept_note K x input =
     (if length input > 8192 then Inl C_Invalid
      else try_then (ok_or C_Invalid (resolve_note_input (ck_ln K) input)) (\<lambda>note.
           try_then (ok_or C_Invalid (c_url (ck_lib K) note)) (\<lambda>u.
             if \<not> query_keys_ok [] (c_query_pairs (ck_lib K) u) then Inl C_Invalid
             else let bare = c_drop_query (ck_lib K) u
                  in if u_str bare \<noteq> note_endpoint x \<or> u_fragment bare \<noteq> None then Inl C_Invalid
                     else try_then (ok_or C_Invalid (note_k1 (ck_ln K) note)) (\<lambda>k1.
                          try_then (ok_or C_Invalid (note_id_of (ck_ln K) k1)) (\<lambda>note_id.
                          try_then (ok_or C_Invalid (note_info_request (ck_ln K) note)) (\<lambda>info_url.
                            Inr (note, note_id, info_url)))))))"

definition rotation_for :: "issuer \<Rightarrow> string \<Rightarrow> string \<times> string list \<Rightarrow> rotation" where
  "rotation_for x secret req =
     \<lparr>ro_request_url = fst req, new_secret = secret, ro_outputs = snd req, ro_issuer = is_id x,
      ro_mint_pubkey = mint_pubkey x, ro_endpoint = note_endpoint x, ro_certificate = None\<rparr>"

definition note_identity :: "clibs \<Rightarrow> issuer \<Rightarrow> string \<Rightarrow> string" where
  "note_identity L x note_id = c_sha256 L (note_endpoint x @ '':'' @ mint_pubkey x @ '':'' @ note_id)"

definition take_note ::
  "checkout \<Rightarrow> cenv \<Rightarrow> string \<Rightarrow> order \<Rightarrow> issuer \<Rightarrow> string \<Rightarrow> cworld \<Rightarrow> cworld \<times> (cerror + unit)" where
  "take_note K E i od x input w =
     st_then (w, accept_note K x input) (\<lambda>(note, note_id, info_url) w.
     st_then (note_fetch K E info_url w) (\<lambda>body w.
     st_then (w, ok_or C_Invalid (parse_note_info (ck_ln K) body note strict_policy)) (\<lambda>info w.
       if ni_callback info \<noteq> is_callback x \<or> ni_mint_pubkey info \<noteq> Some (mint_pubkey x)
          \<or> max_withdrawable info \<noteq> price_msat (q_offer (o_quote od))
       then (w, Inl C_Invalid)
       else st_then (still_fresh E od w) (\<lambda>_ w.
            let secret = note_secret E (cw_tick w)
            in st_then (step_on w, ok_or C_Invalid (rotate_request (ck_ln K) (ni_callback info) (ni_k1 info) secret))
                 (\<lambda>req w.
               st_then (ledger_rotate (ck_json K) (db_up E) i (note_identity (ck_lib K) x note_id)
                          (rotation_for x secret req) w) (\<lambda>_ w.
               st_then (rotate_note K E i (o_quote od) (rotation_for x secret req) w) (\<lambda>_ w. fulfil K E i w)))))))"

definition lnurlcash_order ::
  "checkout \<Rightarrow> cenv \<Rightarrow> principal \<Rightarrow> string \<Rightarrow> string \<Rightarrow> string \<Rightarrow> cworld \<Rightarrow> cworld \<times> (cerror + order)" where
  "lnurlcash_order K E p i commitment input w =
     st_then (try_receiving E w) (\<lambda>_ w.
     st_then (consent K E p i commitment w) (\<lambda>rc w.
       let od = rec_order rc; q = o_quote od
       in if q_rail q \<noteq> Lnurlcash then (w, Inl C_Conflict)
          else if o_state od = Expired then (w, Inl C_Expired)
          else if o_state od \<noteq> Quoted then (w, Inl C_Conflict)
          else st_then (still_fresh E od w) (\<lambda>_ w.
               st_then (w, ok_or C_Unavailable (case q_issuer q of None \<Rightarrow> None
                              | Some x \<Rightarrow> if x \<in> set (issuers (ck_config K)) then Some x else None)) (\<lambda>x w.
               st_then (take_note K E i od x input w) (\<lambda>_ w. order_of K E p i w)))))"

section \<open>Settlement checks\<close>

definition preimage_of :: "clibs \<Rightarrow> string option \<Rightarrow> string option" where
  "preimage_of L v =
     Option.bind v (\<lambda>s. if length s = 64 then Option.bind (c_unhex L s) (\<lambda>bs. if length bs = 32 then Some bs else None)
                        else None)"

definition check_awaiting :: "checkout \<Rightarrow> cenv \<Rightarrow> string \<Rightarrow> order_record \<Rightarrow> cworld \<Rightarrow> cworld \<times> (cerror + bool)" where
  "check_awaiting K E i rc w =
     st_then (w, ok_or C_Internal (rec_payment_hash rc)) (\<lambda>hash w.
       if \<not> ck_lightning K then (w, Inl C_Unavailable)
       else st_then (call_check_invoice E hash w) (\<lambda>(paid, preimage) w.
         if \<not> paid then (w, Inr False)
         else st_then (w, ok_or C_Pending (preimage_of (ck_lib K) preimage)) (\<lambda>bs w.
           if c_sha256 (ck_lib K) bs \<noteq> hash then (w, Inl C_Pending)
           else st_then (ledger_settle (ck_json K) (db_up E) i AwaitingPayment (''lightning:'' @ hash) None w)
                  (\<lambda>_ w. (w, Inr True)))))"

definition check_pending_note ::
  "checkout \<Rightarrow> cenv \<Rightarrow> string \<Rightarrow> order_record \<Rightarrow> cworld \<Rightarrow> cworld \<times> (cerror + unit)" where
  "check_pending_note K E i rc w =
     st_then (w, ok_or C_Internal (rec_rotation rc)) (\<lambda>ro w.
     st_then (recover_rotation K E i (o_quote (rec_order rc)) ro w) (\<lambda>recovered w.
       if recovered then (w, Inr ()) else rotate_note K E i (o_quote (rec_order rc)) ro w))"

definition finish_order :: "checkout \<Rightarrow> cenv \<Rightarrow> principal \<Rightarrow> string \<Rightarrow> cworld \<Rightarrow> cworld \<times> (cerror + order)" where
  "finish_order K E p i w = st_then (fulfil K E i w) (\<lambda>_ w. order_of K E p i w)"

definition check_order ::
  "checkout \<Rightarrow> cenv \<Rightarrow> principal \<Rightarrow> string \<Rightarrow> string \<Rightarrow> cworld \<Rightarrow> cworld \<times> (cerror + order)" where
  "check_order K E p i commitment w =
     st_then (try_receiving E w) (\<lambda>_ w.
     st_then (consent K E p i commitment w) (\<lambda>rc w.
       case o_state (rec_order rc) of
         AwaitingPayment \<Rightarrow> st_then (check_awaiting K E i rc w) (\<lambda>paid w.
             if paid then finish_order K E p i w else (w, Inr (rec_order rc)))
       | LnurlPending \<Rightarrow> st_then (check_pending_note K E i rc w) (\<lambda>_ w. finish_order K E p i w)
       | Settled \<Rightarrow> finish_order K E p i w
       | InvoicePending \<Rightarrow> (w, Inl C_Pending)
       | Reserving \<Rightarrow> reserve_order K E rc w
       | _ \<Rightarrow> (w, Inr (rec_order rc))))"

definition reconcile_order :: "checkout \<Rightarrow> cenv \<Rightarrow> string \<Rightarrow> cworld \<Rightarrow> cworld \<times> (cerror + order)" where
  "reconcile_order K E i w =
     st_then (must_get K E C_NotFound i w) (\<lambda>rc w.
       check_order K E \<lparr>p_pubkey = q_signer_pubkey (o_quote (rec_order rc)), p_event_id = []\<rparr> i
         (o_quote_digest (rec_order rc)) w)"

section \<open>Refunds\<close>

definition same_origin :: "clibs \<Rightarrow> string \<Rightarrow> string \<Rightarrow> cerror + unit" where
  "same_origin L left right =
     try_then (ok_or C_Invalid (c_url L left)) (\<lambda>a.
     try_then (ok_or C_Invalid (c_url L right)) (\<lambda>b.
       if \<not> c_same_origin L a b \<or> u_username b \<noteq> [] \<or> u_password b \<noteq> None \<or> u_fragment b \<noteq> None
       then Inl C_Invalid else Inr ()))"

definition refund_endpoint :: "clibs \<Rightarrow> string \<Rightarrow> cerror + unit" where
  "refund_endpoint L v =
     try_then (ok_or C_Invalid (c_url L v)) (\<lambda>u.
       if \<not> (u_scheme u = ''https'' \<or> u_scheme u = ''http'') \<or> u_host u = None \<or> u_username u \<noteq> []
          \<or> u_password u \<noteq> None \<or> u_fragment u \<noteq> None
       then Inl C_Invalid else Inr ())"

text \<open>\<open>str::trim\<close> drops Unicode white space, \<open>eq_ignore_ascii_case\<close> folds the ASCII letters.\<close>

definition white_space :: "nat \<Rightarrow> bool" where
  "white_space c \<longleftrightarrow>
     (9 \<le> c \<and> c \<le> 13) \<or> c = 0x20 \<or> c = 0x85 \<or> c = 0xA0 \<or> c = 0x1680 \<or> (0x2000 \<le> c \<and> c \<le> 0x200A)
     \<or> c = 0x2028 \<or> c = 0x2029 \<or> c = 0x202F \<or> c = 0x205F \<or> c = 0x3000"

definition trim_chars :: "nat list \<Rightarrow> nat list" where
  "trim_chars s = rev (dropWhile white_space (rev (dropWhile white_space s)))"

definition ascii_fold :: "nat \<Rightarrow> nat" where
  "ascii_fold c = (if 65 \<le> c \<and> c \<le> 90 then c + 32 else c)"

definition same_invoice :: "string \<Rightarrow> string \<Rightarrow> bool" where
  "same_invoice left right =
     (map ascii_fold (trim_chars (utf8_chars left)) = map ascii_fold (trim_chars (utf8_chars right)))"

definition validate_refund_invoice ::
  "checkout \<Rightarrow> cenv \<Rightarrow> quote \<Rightarrow> string \<Rightarrow> cworld \<Rightarrow> cworld \<times> (cerror + string)" where
  "validate_refund_invoice K E q invoice w =
     (if length invoice > 8192 then (w, Inl C_Pending)
      else st_then (w, ok_or C_Pending (parse_bolt11 (ck_ln K) invoice)) (\<lambda>parsed w.
        if b_currency parsed \<noteq> currency_of (q_network q) \<or> b_amount_msat parsed \<noteq> Some (price_msat (q_offer q))
        then (w, Inl C_Pending)
        else case b_expires_at parsed of
               None \<Rightarrow> (w, Inl C_Pending)
             | Some expiry \<Rightarrow>
                 if expiry \<le> (case unix_now E (cw_tick w) of None \<Rightarrow> u64_max | Some n \<Rightarrow> n)
                 then (step_on w, Inl C_Pending) else (step_on w, Inr (b_payment_hash parsed))))"

fun settled_by :: "checkout \<Rightarrow> cenv \<Rightarrow> refund_journal \<Rightarrow> string list \<Rightarrow> cworld \<Rightarrow> cworld \<times> (cerror + bool)" where
  "settled_by K E j [] w = (w, Inr False)"
| "settled_by K E j (verify # rest) w =
     (case refund_fetch K E verify w of
        (w, Inl e) \<Rightarrow> settled_by K E j rest w
      | (w, Inr body) \<Rightarrow>
          (case parse_verify (ck_ln K) body of
             None \<Rightarrow> settled_by K E j rest w
           | Some res \<Rightarrow>
               if \<not> same_invoice (vr_pr res) (rj_invoice j) then (w, Inl C_Pending)
               else if \<not> vr_settled res then settled_by K E j rest w
               else (case vr_preimage res of
                       None \<Rightarrow> (w, Inr True)
                     | Some h \<Rightarrow> st_then (w, ok_or C_Pending (c_unhex (ck_lib K) h)) (\<lambda>bs w.
                         if length bs \<noteq> 32 \<or> c_sha256 (ck_lib K) bs \<noteq> rj_payment_hash j then (w, Inl C_Pending)
                         else (w, Inr True)))))"

definition verify_urls :: "refund_journal \<Rightarrow> string list" where
  "verify_urls j = List.map_filter id [issuer_verify j, receiver_verify j]"

definition refund_settled :: "checkout \<Rightarrow> cenv \<Rightarrow> refund_journal \<Rightarrow> cworld \<Rightarrow> cworld \<times> (cerror + bool)" where
  "refund_settled K E j w = settled_by K E j (verify_urls j) w"

definition prepare_refund ::
  "checkout \<Rightarrow> cenv \<Rightarrow> quote \<Rightarrow> string \<Rightarrow> rotation \<Rightarrow> cworld \<Rightarrow> cworld \<times> (cerror + refund_journal)" where
  "prepare_refund K E q destination ro w =
     (let amount = price_msat (q_offer q)
      in st_then (w, ok_or C_Invalid (resolve_mint_input (ck_ln K) destination)) (\<lambda>pay_url w.
         st_then (refund_fetch K E pay_url w) (\<lambda>pay_body w.
         st_then (w, ok_or C_Pending (parse_pay_request (ck_ln K) pay_body)) (\<lambda>pay w.
         st_then (w, refund_endpoint (ck_lib K) (pay_callback pay)) (\<lambda>_ w.
           if amount < min_sendable pay \<or> amount > max_sendable pay then (w, Inl C_Unavailable)
           else st_then (w, ok_or C_Pending (invoice_request (ck_ln K) (pay_callback pay) amount)) (\<lambda>invoice_url w.
                st_then (refund_fetch K E invoice_url w) (\<lambda>invoice_body w.
                st_then (w, ok_or C_Pending (parse_invoice (ck_ln K) invoice_body amount)) (\<lambda>(pr, verify) w.
                st_then (validate_refund_invoice K E q pr w) (\<lambda>payment_hash w.
                st_then (w, case verify of None \<Rightarrow> Inr () | Some v \<Rightarrow> same_origin (ck_lib K) (pay_callback pay) v) (\<lambda>_ w.
                st_then (w, ok_or C_Unavailable (q_issuer q)) (\<lambda>x w.
                st_then (w, ok_or C_Pending (melt_request (ck_ln K) (is_callback x) (new_secret ro) pr)) (\<lambda>u w.
                  (w, Inr \<lparr>rj_destination = destination, rj_invoice = pr, rj_payment_hash = payment_hash,
                           receiver_verify = verify, rj_request_url = u, issuer_verify = None,
                           refunded_at = None\<rparr>)))))))))))))"

definition complete_now ::
  "checkout \<Rightarrow> cenv \<Rightarrow> string \<Rightarrow> refund_journal \<Rightarrow> cworld \<Rightarrow> cworld \<times> (cerror + order)" where
  "complete_now K E i j w =
     st_then (sys_now E w) (\<lambda>now w.
     st_then (complete_refund (ck_json K) (db_up E) i (j\<lparr>refunded_at := Some now\<rparr>) w) (\<lambda>_ w.
     st_then (must_get K E C_Internal i w) (\<lambda>rc w. (w, Inr (rec_order rc)))))"

definition melt_note ::
  "checkout \<Rightarrow> cenv \<Rightarrow> string \<Rightarrow> quote \<Rightarrow> refund_journal \<Rightarrow> cworld \<Rightarrow> cworld \<times> (cerror + order)" where
  "melt_note K E i q j w =
     st_then (note_fetch K E (rj_request_url j) w) (\<lambda>body w.
     st_then (w, ok_or C_Pending (parse_mutation (ck_ln K) body Melt [] strict_policy)) (\<lambda>resp w.
       if (case mu_pr resp of None \<Rightarrow> False | Some invoice \<Rightarrow> \<not> same_invoice invoice (rj_invoice j))
       then (w, Inl C_Pending)
       else st_then
              (case mu_verify resp of
                 None \<Rightarrow> (w, Inr j)
               | Some verify \<Rightarrow>
                   st_then (w, ok_or C_Unavailable (q_issuer q)) (\<lambda>x w.
                   st_then (w, same_origin (ck_lib K) (is_callback x) verify) (\<lambda>_ w.
                   st_then (update_refund (ck_json K) (db_up E) i (j\<lparr>issuer_verify := Some verify\<rparr>) w) (\<lambda>_ w.
                     (w, Inr (j\<lparr>issuer_verify := Some verify\<rparr>)))))) (\<lambda>j w.
            st_then (refund_settled K E j w) (\<lambda>settled w.
              if \<not> settled then (w, Inl C_Pending) else complete_now K E i j w))))"

definition refund_order :: "checkout \<Rightarrow> cenv \<Rightarrow> string \<Rightarrow> cworld \<Rightarrow> cworld \<times> (cerror + order)" where
  "refund_order K E i w =
     st_then (try_receiving E w) (\<lambda>_ w.
     st_then (must_get K E C_NotFound i w) (\<lambda>rc w.
       let od = rec_order rc; q = o_quote od
       in if o_state od = Refunded then (w, Inr od)
          else if o_state od \<noteq> RefundRequired \<or> q_rail q \<noteq> Lnurlcash then (w, Inl C_Conflict)
          else st_then (w, ok_or C_Unavailable (case q_refund_to q of None \<Rightarrow> None
                             | Some v \<Rightarrow> if c_lightning_address (ck_lib K) v then Some v else None)) (\<lambda>destination w.
               st_then (w, ok_or C_Pending (case rec_rotation rc of None \<Rightarrow> None
                             | Some ro \<Rightarrow> if ro_certificate ro \<noteq> None then Some ro else None)) (\<lambda>ro w.
                 case rec_refund rc of
                   None \<Rightarrow>
                     st_then (prepare_refund K E q destination ro w) (\<lambda>journal w.
                     st_then (start_refund (ck_json K) (db_up E) i journal w) (\<lambda>_ w.
                     st_then (must_get K E C_Internal i w) (\<lambda>rc w.
                     st_then (w, ok_or C_Internal (rec_refund rc)) (\<lambda>j w.
                       melt_note K E i (o_quote (rec_order rc)) j w))))
                 | Some j \<Rightarrow>
                     st_then (refund_settled K E j w) (\<lambda>settled w.
                       if settled then complete_now K E i j w else melt_note K E i q j w)))))"

end
