(* ===== verification/Checkout_Market.thy ===== *)
theory Checkout_Market
  imports Checkout_Service
begin

text \<open>
  What the checkout promises, without SQL and JSON: a market of accounts, one per order, each of
  which moves through the states of an order by the guarded steps of \<open>order_step\<close>. The ledger of
  \<open>Checkout_Ledger\<close> is related to it by decoding its rows, and every write of the ledger is shown to
  be one guarded change of one account.
\<close>

section \<open>Accounts\<close>

record account =
  ac_quote :: quote
  ac_request :: string
  ac_digest :: string
  ac_state :: order_state
  ac_invoice :: "string option"
  ac_hash :: "string option"
  ac_rotation :: "rotation option"
  ac_note :: "string option"
  ac_settlement :: "string option"
  ac_receipt :: "paid_receipt option"
  ac_refund :: "refund_journal option"

type_synonym market = "string \<Rightarrow> account option"

definition new_account :: "clibs \<Rightarrow> quote \<Rightarrow> string \<Rightarrow> string \<Rightarrow> account" where
  "new_account L q json request =
     \<lparr>ac_quote = q, ac_request = request, ac_digest = c_sha256 L json, ac_state = Reserving, ac_invoice = None,
      ac_hash = None, ac_rotation = None, ac_note = None, ac_settlement = None, ac_receipt = None, ac_refund = None\<rparr>"

definition account_record :: "account \<Rightarrow> order_record" where
  "account_record a =
     \<lparr>rec_order = \<lparr>o_quote = ac_quote a, o_quote_digest = ac_digest a, o_state = ac_state a, o_invoice = ac_invoice a,
        o_receipt = ac_receipt a,
        o_refund = map_option (\<lambda>j. refund_public j (price_msat (q_offer (ac_quote a)))) (ac_refund a)\<rparr>,
      rec_request = ac_request a, rec_payment_hash = ac_hash a, rec_rotation = ac_rotation a, rec_refund = ac_refund a\<rparr>"

lemma account_record_simps [simp]:
  "rec_request (account_record a) = ac_request a"
  "rec_payment_hash (account_record a) = ac_hash a"
  "rec_rotation (account_record a) = ac_rotation a"
  "rec_refund (account_record a) = ac_refund a"
  "o_quote (rec_order (account_record a)) = ac_quote a"
  "o_quote_digest (rec_order (account_record a)) = ac_digest a"
  "o_state (rec_order (account_record a)) = ac_state a"
  "o_invoice (rec_order (account_record a)) = ac_invoice a"
  "o_receipt (rec_order (account_record a)) = ac_receipt a"
  by (simp_all add: account_record_def)

section \<open>Decoding the ledger\<close>

definition row_account :: "codecs \<Rightarrow> order_row \<Rightarrow> account option" where
  "row_account J r =
     (case row_record J r of
        Inl e \<Rightarrow> None
      | Inr rc \<Rightarrow> Some \<lparr>ac_quote = o_quote (rec_order rc), ac_request = rec_request rc,
          ac_digest = o_quote_digest (rec_order rc), ac_state = o_state (rec_order rc), ac_invoice = o_invoice (rec_order rc),
          ac_hash = rec_payment_hash rc, ac_rotation = rec_rotation rc, ac_note = row_note_id r,
          ac_settlement = row_settlement r, ac_receipt = o_receipt (rec_order rc), ac_refund = rec_refund rc\<rparr>)"

definition accounts :: "codecs \<Rightarrow> order_row list \<Rightarrow> market" where
  "accounts J rows i = Option.bind (find_row (\<lambda>r. row_id r = i) rows) (row_account J)"

definition row_ok :: "clibs \<Rightarrow> codecs \<Rightarrow> order_row \<Rightarrow> bool" where
  "row_ok L J r =
     (case row_account J r of
        None \<Rightarrow> False
      | Some a \<Rightarrow> q_order_id (ac_quote a) = row_id r \<and> q_signer_pubkey (ac_quote a) = row_signer r
          \<and> row_digest r = c_sha256 L (row_quote r))"

definition ledger_ok :: "clibs \<Rightarrow> codecs \<Rightarrow> order_row list \<Rightarrow> bool" where
  "ledger_ok L J rows \<longleftrightarrow> unique_ok rows \<and> list_all (row_ok L J) rows"

lemma state_from_key [simp]: "state_from_key (state_key s) = Some s"
  by (cases s) (simp_all add: state_from_key_def all_states_def)

lemma state_key_inj [simp]: "state_key s = state_key t \<longleftrightarrow> s = t"
  by (metis option.inject state_from_key)

lemma state_from_key_Some: "state_from_key k = Some s \<Longrightarrow> k = state_key s"
  by (auto simp: state_from_key_def find_Some_iff)

lemma row_record_account:
  "row_account J r = Some a \<Longrightarrow> row_record J r = Inr (account_record a)"
  by (auto simp: row_account_def row_record_def account_record_def read_column_def res_simps
      split: sum.splits option.splits)

lemma row_account_Some:
  "row_account J r = Some a \<longleftrightarrow>
     quote_from J (row_quote r) = Some (ac_quote a) \<and> ac_request a = row_request r \<and> ac_digest a = row_digest r
     \<and> row_state r = state_key (ac_state a) \<and> ac_invoice a = row_invoice r \<and> ac_hash a = row_payment_hash r
     \<and> read_column (rotation_from J) (row_rotation r) = Inr (ac_rotation a) \<and> ac_note a = row_note_id r
     \<and> ac_settlement a = row_settlement r \<and> read_column (receipt_from J) (row_receipt r) = Inr (ac_receipt a)
     \<and> read_column (refund_from J) (row_refund r) = Inr (ac_refund a)"
  by (cases a) (auto simp: row_account_def row_record_def res_simps dest: state_from_key_Some split: sum.splits)

section \<open>Steps of an order\<close>

definition invoice_valid :: "lnlibs \<Rightarrow> quote \<Rightarrow> ln_invoice \<Rightarrow> bool" where
  "invoice_valid N q iv \<longleftrightarrow>
     (\<exists>parsed expiry. parse_bolt11 N (bolt11 iv) = Some parsed \<and> b_expires_at parsed = Some expiry
        \<and> b_description parsed = Some (q_order_id q) \<and> invoice_terms q iv parsed expiry)"

definition refund_invoice_valid :: "lnlibs \<Rightarrow> quote \<Rightarrow> refund_journal \<Rightarrow> bool" where
  "refund_invoice_valid N q j \<longleftrightarrow>
     (\<exists>parsed. parse_bolt11 N (rj_invoice j) = Some parsed \<and> b_currency parsed = currency_of (q_network q)
        \<and> b_amount_msat parsed = Some (price_msat (q_offer q)) \<and> b_payment_hash parsed = rj_payment_hash j)"

definition certifies :: "lnlibs \<Rightarrow> quote \<Rightarrow> rotation \<Rightarrow> string \<Rightarrow> bool" where
  "certifies N q ro signature =
     verify_note_signature N (new_secret ro) (ro_endpoint ro) (price_msat (q_offer q)) signature (ro_mint_pubkey ro)"

text \<open>The backend reported the payment with the preimage of its hash.\<close>

definition paid_evidence :: "clibs \<Rightarrow> ceffect list \<Rightarrow> string \<Rightarrow> bool" where
  "paid_evidence L log h \<longleftrightarrow>
     (\<exists>s bs. CE_Check h (Some (True, s)) \<in> set log \<and> preimage_of L s = Some bs \<and> c_sha256 L bs = h)"

text \<open>One of the journalled verification addresses reported this very invoice as settled.\<close>

definition refund_evidence :: "checkout \<Rightarrow> ceffect list \<Rightarrow> refund_journal \<Rightarrow> bool" where
  "refund_evidence K log j \<longleftrightarrow>
     (\<exists>u answer body res. u \<in> set (verify_urls j) \<and> CE_Refund u (Some answer) \<in> set log
        \<and> json_value (ck_ln K) answer = Some body \<and> parse_verify (ck_ln K) body = Some res
        \<and> same_invoice (vr_pr res) (rj_invoice j) \<and> vr_settled res
        \<and> (\<forall>h. vr_preimage res = Some h \<longrightarrow>
             (\<exists>bs. c_unhex (ck_lib K) h = Some bs \<and> length bs = 32 \<and> c_sha256 (ck_lib K) bs = rj_payment_hash j)))"

inductive order_step :: "checkout \<Rightarrow> ceffect list \<Rightarrow> string \<Rightarrow> account \<Rightarrow> account \<Rightarrow> bool" for K log i where
  expire: "ac_state a = Reserving \<Longrightarrow> order_step K log i a (a\<lparr>ac_state := Expired\<rparr>)"
| hold:
    "ac_state a = Reserving \<Longrightarrow> CE_Reserve (sale_of (ac_quote a)) (Inr ()) \<in> set log \<Longrightarrow>
     order_step K log i a (a\<lparr>ac_state := Quoted\<rparr>)"
| invoice:
    "ac_state a = InvoicePending \<Longrightarrow> q_rail (ac_quote a) = Lightning \<Longrightarrow> invoice_valid (ck_ln K) (ac_quote a) iv \<Longrightarrow>
     order_step K log i a
       (a\<lparr>ac_state := AwaitingPayment, ac_invoice := Some (bolt11 iv), ac_hash := Some (ln_payment_hash iv)\<rparr>)"
| take_note:
    "ac_state a = Quoted \<Longrightarrow> q_rail (ac_quote a) = Lnurlcash \<Longrightarrow> q_issuer (ac_quote a) = Some x \<Longrightarrow>
     x \<in> set (issuers (ck_config K)) \<Longrightarrow>
     order_step K log i a
       (a\<lparr>ac_state := LnurlPending, ac_note := Some (note_identity (ck_lib K) x n),
          ac_rotation := Some (rotation_for x secret req)\<rparr>)"
| pay_invoice:
    "ac_state a = AwaitingPayment \<Longrightarrow> ac_hash a = Some h \<Longrightarrow> paid_evidence (ck_lib K) log h \<Longrightarrow>
     order_step K log i a (a\<lparr>ac_state := Settled, ac_settlement := Some (''lightning:'' @ h)\<rparr>)"
| pay_note:
    "ac_state a = LnurlPending \<Longrightarrow> ac_rotation a = Some ro \<Longrightarrow> certifies (ck_ln K) (ac_quote a) ro signature \<Longrightarrow>
     order_step K log i a
       (a\<lparr>ac_state := Settled, ac_settlement := Some (''lnurlcash:'' @ c_sha256 (ck_lib K) (ro_request_url ro)),
          ac_rotation := Some (ro\<lparr>ro_certificate := Some signature\<rparr>)\<rparr>)"
| activate:
    "ac_state a = Settled \<Longrightarrow> CE_Activate i (Inr receipt) \<in> set log \<Longrightarrow>
     order_step K log i a (a\<lparr>ac_state := Active, ac_receipt := Some receipt\<rparr>)"
| undeliverable:
    "ac_state a = Settled \<Longrightarrow> CE_Activate i (Inl PaidAllowanceUnavailable) \<in> set log \<Longrightarrow>
     order_step K log i a (a\<lparr>ac_state := RefundRequired\<rparr>)"
| open_refund:
    "ac_state a = RefundRequired \<Longrightarrow> q_rail (ac_quote a) = Lnurlcash \<Longrightarrow> ac_refund a = None \<Longrightarrow>
     refund_invoice_valid (ck_ln K) (ac_quote a) j \<Longrightarrow> q_refund_to (ac_quote a) = Some (rj_destination j) \<Longrightarrow>
     refunded_at j = None \<Longrightarrow> order_step K log i a (a\<lparr>ac_refund := Some j\<rparr>)"
| watch_refund:
    "ac_state a = RefundRequired \<Longrightarrow> ac_refund a = Some j \<Longrightarrow>
     order_step K log i a (a\<lparr>ac_refund := Some (j\<lparr>issuer_verify := Some v\<rparr>)\<rparr>)"
| close_refund:
    "ac_state a = RefundRequired \<Longrightarrow> ac_refund a = Some j \<Longrightarrow> refund_evidence K log j \<Longrightarrow>
     order_step K log i a (a\<lparr>ac_state := Refunded, ac_refund := Some (j\<lparr>refunded_at := Some t\<rparr>)\<rparr>)"

text \<open>What the checkout may ask of the outside while the accounts are as they are.\<close>

definition note_reason :: "lnlibs \<Rightarrow> account \<Rightarrow> string \<Rightarrow> bool" where
  "note_reason N a u \<longleftrightarrow>
     (ac_state a = Quoted \<and> q_rail (ac_quote a) = Lnurlcash \<and> (\<exists>note. note_info_request N note = Some u))
     \<or> (ac_state a = LnurlPending
        \<and> (\<exists>ro. ac_rotation a = Some ro
             \<and> (u = ro_request_url ro
                \<or> (\<exists>note. build_note_url N (ro_endpoint ro) (new_secret ro) = Some note
                     \<and> note_info_request N note = Some u))))
     \<or> (ac_state a = RefundRequired \<and> (\<exists>j. ac_refund a = Some j \<and> u = rj_request_url j))"

fun may_ask :: "checkout \<Rightarrow> market \<Rightarrow> ceffect \<Rightarrow> bool" where
  "may_ask K m (CE_Reserve sale answer) =
     (\<exists>a. m (ps_order_id sale) = Some a \<and> ac_state a = Reserving \<and> sale = sale_of (ac_quote a))"
| "may_ask K m (CE_Invoice i sats answer) = False"
| "may_ask K m (CE_Check h answer) = (\<exists>i a. m i = Some a \<and> ac_state a = AwaitingPayment \<and> ac_hash a = Some h)"
| "may_ask K m (CE_Note u answer) = (\<exists>i a. m i = Some a \<and> note_reason (ck_ln K) a u)"
| "may_ask K m (CE_Refund u answer) = (\<exists>i a. m i = Some a \<and> ac_state a = RefundRequired \<and> q_rail (ac_quote a) = Lnurlcash)"
| "may_ask K m (CE_Activate i answer) = (\<exists>a. m i = Some a \<and> ac_state a = Settled)"

text \<open>A payment, a note and a settlement belong to one order.\<close>

definition clashes :: "'a option \<Rightarrow> 'a option \<Rightarrow> bool" where
  "clashes x y \<longleftrightarrow> x \<noteq> None \<and> x = y"

definition unclaimed :: "market \<Rightarrow> string \<Rightarrow> account \<Rightarrow> bool" where
  "unclaimed m i a \<longleftrightarrow>
     (\<forall>j b. m j = Some b \<and> j \<noteq> i \<longrightarrow> \<not> clashes (ac_hash b) (ac_hash a) \<and> \<not> clashes (ac_note b) (ac_note a)
        \<and> \<not> clashes (ac_settlement b) (ac_settlement a))"

text \<open>Accounts are opened on the configured terms, and an invoice is requested as its order leaves \<open>Quoted\<close>.\<close>

definition opens :: "checkout \<Rightarrow> string \<Rightarrow> account \<Rightarrow> bool" where
  "opens K i a \<longleftrightarrow>
     (\<exists>p rq f created expires json request.
        i = order_id_of (ck_lib K) p rq \<and> \<not> request_bad (ck_lib K) rq \<and> rail_served K rq
        \<and> f \<in> set (offers (ck_config K)) \<and> of_id f = rq_offer_id rq
        \<and> quote_deadlines created (quote_seconds (ck_config K)) f = Inr expires
        \<and> a = new_account (ck_lib K) (make_quote (ck_config K) p rq i f created expires) json request
        \<and> quote_to (ck_json K) (make_quote (ck_config K) p rq i f created expires) = Some json)"

inductive market_step :: "checkout \<Rightarrow> market \<times> ceffect list \<Rightarrow> market \<times> ceffect list \<Rightarrow> bool" for K where
  opened: "m i = None \<Longrightarrow> opens K i a \<Longrightarrow> market_step K (m, log) (m(i \<mapsto> a), log)"
| moved:
    "m i = Some a \<Longrightarrow> order_step K log i a a' \<Longrightarrow> unclaimed m i a' \<Longrightarrow> market_step K (m, log) (m(i \<mapsto> a'), log)"
| invoiced:
    "m i = Some a \<Longrightarrow> ac_state a = Quoted \<Longrightarrow> q_rail (ac_quote a) = Lightning \<Longrightarrow>
     market_step K (m, log)
       (m(i \<mapsto> a\<lparr>ac_state := InvoicePending\<rparr>), log @ [CE_Invoice i (price_msat (q_offer (ac_quote a)) div 1000) answer])"
| asked: "may_ask K m e \<Longrightarrow> market_step K (m, log) (m, log @ [e])"

section \<open>Rows\<close>

lemma find_row_None: "find_row p rows = None \<longleftrightarrow> (\<forall>r \<in> set rows. \<not> p r)"
  by (auto simp: find_row_def find_None_iff)

lemma find_row_id:
  "distinct (map row_id rows) \<Longrightarrow> find_row (\<lambda>r. row_id r = i) rows = Some r \<longleftrightarrow> r \<in> set rows \<and> row_id r = i"
  by (induction rows) (auto simp: find_row_def)

lemma find_row_in: "find_row p rows = Some r \<Longrightarrow> r \<in> set rows \<and> p r"
  unfolding find_row_def find_Some_iff by (elim exE conjE) auto

lemma ledger_ok_distinct: "ledger_ok L J rows \<Longrightarrow> distinct (map row_id rows)"
  by (simp add: ledger_ok_def unique_ok_def)

lemma ledger_ok_row:
  "ledger_ok L J rows \<Longrightarrow> r \<in> set rows \<Longrightarrow> \<exists>a. row_account J r = Some a \<and> q_order_id (ac_quote a) = row_id r"
  by (auto simp: ledger_ok_def list_all_iff row_ok_def split: option.splits)

lemma accounts_row:
  "ledger_ok L J rows \<Longrightarrow> accounts J rows i = Some a \<longleftrightarrow> (\<exists>r \<in> set rows. row_id r = i \<and> row_account J r = Some a)"
  by (auto simp: accounts_def find_row_id ledger_ok_distinct Option.bind_eq_Some_conv)

lemma accounts_None:
  assumes "ledger_ok L J rows"
  shows "accounts J rows i = None \<longleftrightarrow> find_row (\<lambda>r. row_id r = i) rows = None"
proof (cases "find_row (\<lambda>r. row_id r = i) rows")
  case (Some r)
  then have "r \<in> set rows" using find_row_in by blast
  then show ?thesis using Some ledger_ok_row [OF assms] by (auto simp: accounts_def)
qed (simp add: accounts_def)

text \<open>The columns of two rows that \<open>UNIQUE\<close> keeps apart.\<close>

lemma column_distinct:
  assumes "distinct (map row_id rows)" "distinct (column f rows)" "r \<in> set rows" "s \<in> set rows" "row_id r \<noteq> row_id s"
  shows "\<not> clashes (f r) (f s)"
  using assms
proof (induction rows)
  case (Cons x xs)
  have in_col: "v \<in> set (column f xs)" if "y \<in> set xs" "f y = Some v" for y v
    using that by (force simp: column_def List.map_filter_def)
  have "distinct (column f xs)" using Cons.prems(2) by (auto simp: column_def map_filter_simps split: option.splits)
  then show ?case
    using Cons in_col by (auto simp: column_def map_filter_simps clashes_def split: option.splits)
qed simp

lemma unique_unclaimed:
  assumes ok: "ledger_ok L J rows" and a: "accounts J rows i = Some a"
  shows "unclaimed (accounts J rows) i a"
proof -
  obtain r where r: "r \<in> set rows" "row_id r = i" "row_account J r = Some a"
    using a ok by (auto simp: accounts_row)
  have u: "distinct (map row_id rows)" "distinct (column row_payment_hash rows)" "distinct (column row_note_id rows)"
    "distinct (column row_settlement rows)" using ok by (auto simp: ledger_ok_def unique_ok_def)
  have "\<not> clashes (ac_hash b) (ac_hash a) \<and> \<not> clashes (ac_note b) (ac_note a) \<and> \<not> clashes (ac_settlement b) (ac_settlement a)"
    if b: "accounts J rows j = Some b" "j \<noteq> i" for j b
  proof -
    obtain s where s: "s \<in> set rows" "row_id s = j" "row_account J s = Some b"
      using b ok by (auto simp: accounts_row)
    have ne: "row_id s \<noteq> row_id r" using b r s by simp
    show ?thesis
      using column_distinct [OF u(1) u(2) s(1) r(1) ne] column_distinct [OF u(1) u(3) s(1) r(1) ne]
        column_distinct [OF u(1) u(4) s(1) r(1) ne] r(3) s(3)
      by (simp add: row_account_Some)
  qed
  then show ?thesis by (auto simp: unclaimed_def)
qed

section \<open>Writes of the ledger\<close>

lemma map_no_match: "\<forall>r \<in> set rows. \<not> p r \<Longrightarrow> map (\<lambda>r. if p r then f r else r) rows = rows"
  by (induction rows) auto

lemma accounts_map:
  assumes ok: "ledger_ok L J rows" and r: "r \<in> set rows" "p r" and only: "\<And>x. p x \<Longrightarrow> row_id x = i"
    and keep: "\<And>x. row_id (f x) = row_id x"
  shows "accounts J (map (\<lambda>x. if p x then f x else x) rows) = (accounts J rows)(i := row_account J (f r))"
proof
  fix j
  let ?g = "\<lambda>x. if p x then f x else x"
  have ids: "map row_id (map ?g rows) = map row_id rows" using keep by (induction rows) auto
  have d: "distinct (map row_id rows)" using ok by (rule ledger_ok_distinct)
  then have d': "distinct (map row_id (map ?g rows))" by (simp only: ids)
  have same: "x = r" if "x \<in> set rows" "p x" for x
    using d r that only [of x] only [of r] by (metis distinct_map inj_onD)
  show "accounts J (map ?g rows) j = ((accounts J rows)(i := row_account J (f r))) j"
  proof (cases "j = i")
    case True
    have "find_row (\<lambda>x. row_id x = i) (map ?g rows) = Some (f r)"
      using r only keep by (subst find_row_id [OF d']) (auto intro: rev_image_eqI)
    then show ?thesis using True by (simp add: accounts_def)
  next
    case False
    have "find_row (\<lambda>x. row_id x = j) (map ?g rows) = find_row (\<lambda>x. row_id x = j) rows"
    proof (cases "find_row (\<lambda>x. row_id x = j) rows")
      case None
      then have "find_row (\<lambda>x. row_id x = j) (map ?g rows) = None" using keep by (auto simp: find_row_None)
      then show ?thesis using None by simp
    next
      case (Some s)
      then have s: "s \<in> set rows" "row_id s = j" using d by (auto simp: find_row_id)
      then have "\<not> p s" using False only by blast
      then have "s \<in> set (map ?g rows)" using s by force
      then show ?thesis using s Some d' by (simp add: find_row_id)
    qed
    then show ?thesis using False by (simp add: accounts_def)
  qed
qed

text \<open>
  A write of the ledger is one guarded change of one account; a write that fails changes nothing.
\<close>

definition ledger_write ::
  "clibs \<Rightarrow> codecs \<Rightarrow> string \<Rightarrow> (account \<Rightarrow> bool) \<Rightarrow> (account \<Rightarrow> account) \<Rightarrow> cworld \<Rightarrow> cworld \<times> (cerror + 'a) \<Rightarrow> bool" where
  "ledger_write L J i guard change w run \<longleftrightarrow>
     wp (\<lambda>_ w'. ledger_ok L J (cw_rows w') \<and> cw_log w' = cw_log w
           \<and> (\<exists>a. accounts J (cw_rows w) i = Some a \<and> guard a
                \<and> accounts J (cw_rows w') = (accounts J (cw_rows w))(i \<mapsto> change a)))
        (\<lambda>_ w'. cw_rows w' = cw_rows w \<and> cw_log w' = cw_log w) run"

lemma step_on_simps [simp]:
  "cw_rows (step_on w) = cw_rows w" "cw_log (step_on w) = cw_log w" "cw_tick (step_on w) = cw_tick w + 1"
  by (simp_all add: step_on_def)

lemma note_effect_simps [simp]:
  "cw_rows (note_effect e w) = cw_rows w" "cw_log (note_effect e w) = cw_log w @ [e]"
  by (simp_all add: note_effect_def)

lemma one_match:
  assumes "distinct (map row_id rows)" "\<And>x. p x \<Longrightarrow> row_id x = i" "r \<in> set rows" "p r"
  shows "length (filter p rows) = 1"
proof -
  have "set (filter p rows) = {r}"
    using assms by (auto simp: distinct_map inj_on_def)
  moreover have "distinct (filter p rows)" using assms(1) by (simp add: distinct_map)
  ultimately show ?thesis by (metis One_nat_def distinct_card card.empty card_insert_disjoint empty_iff finite.emptyI)
qed

lemma update_write:
  assumes ok: "ledger_ok L J (cw_rows w)" and only: "\<And>x. p x \<Longrightarrow> row_id x = i"
    and keep: "\<And>x. row_id (f x) = row_id x \<and> row_signer (f x) = row_signer x \<and> row_quote (f x) = row_quote x
      \<and> row_digest (f x) = row_digest x"
    and change: "\<And>r a. p r \<Longrightarrow> row_account J r = Some a \<Longrightarrow> guard a \<and> row_account J (f r) = Some (change a)"
    and terms: "\<And>a. ac_quote (change a) = ac_quote a"
  shows "ledger_write L J i guard change w (st_then (sql_update up p f w) (\<lambda>n w. (w, one_row n)))"
proof (cases "\<exists>r \<in> set (cw_rows w). p r")
  case False
  then show ?thesis
    by (simp add: ledger_write_def sql_update_def Let_def one_row_def map_no_match)
next
  case True
  let ?rows = "map (\<lambda>x. if p x then f x else x) (cw_rows w)"
  obtain r where r: "r \<in> set (cw_rows w)" "p r" using True by blast
  obtain a where a: "row_account J r = Some a" using ledger_ok_row [OF ok r(1)] by blast
  have n: "length (filter p (cw_rows w)) = 1"
    using ledger_ok_distinct [OF ok] only r by (intro one_match [where i = i and r = r])
  have "row_ok L J (if p x then f x else x)" if "x \<in> set (cw_rows w)" for x
    using that ok keep [of x] change [of x] terms
    by (auto simp: ledger_ok_def list_all_iff row_ok_def split: option.splits)
  then have rows: "list_all (row_ok L J) ?rows" by (subst list.pred_map) (simp add: list_all_iff)
  have acc: "accounts J ?rows = (accounts J (cw_rows w))(i := row_account J (f r))"
    using ok r only keep by (intro accounts_map [where r = r]) auto
  have "accounts J (cw_rows w) i = Some a" using r a only ok by (auto simp: accounts_row)
  then show ?thesis
    using rows acc change [OF r(2) a] n
    by (simp add: ledger_write_def sql_update_def Let_def one_row_def ledger_ok_def)
qed

lemma ledger_write_select:
  assumes "\<And>found w'. cw_rows w' = cw_rows w \<Longrightarrow> cw_log w' = cw_log w \<Longrightarrow> ledger_write L J i guard change w' (f found w')"
  shows "ledger_write L J i guard change w (st_then (sql_select up p w) f)"
  using assms by (simp add: ledger_write_def sql_select_def)

lemma ledger_write_value:
  assumes "\<And>x. v = Inr x \<Longrightarrow> ledger_write L J i guard change w (f x w)"
  shows "ledger_write L J i guard change w (st_then (w, v) f)"
  using assms by (cases v) (simp_all add: ledger_write_def)

lemma ledger_write_if:
  "(\<not> c \<Longrightarrow> ledger_write L J i guard change w run) \<Longrightarrow> ledger_write L J i guard change w (if c then (w, Inl e) else run)"
  by (simp add: ledger_write_def)

lemma read_column_simps [simp]:
  "read_column f None = Inr None"
  "f s = Some x \<Longrightarrow> read_column f (Some s) = Inr (Some x)"
  by (simp_all add: read_column_def)

lemma read_column_None: "read_column f v = Inr None \<longleftrightarrow> v = None"
  by (auto simp: read_column_def res_simps split: option.splits)

lemma codecs_okD:
  assumes "codecs_ok J"
  shows "quote_to J x = Some s \<Longrightarrow> quote_from J s = Some x"
    "rotation_to J ro = Some s \<Longrightarrow> rotation_from J s = Some ro"
    "receipt_to J rp = Some s \<Longrightarrow> receipt_from J s = Some rp"
    "refund_to J rj = Some s \<Longrightarrow> refund_from J s = Some rj"
  using assms by (auto simp: codecs_ok_def)

lemma state_write:
  assumes "ledger_ok L J (cw_rows w)"
  shows "ledger_write L J i (\<lambda>a. ac_state a = before) (\<lambda>a. a\<lparr>ac_state := after\<rparr>) w (ledger_state up i before after w)"
  unfolding ledger_state_def by (rule update_write [OF assms]) (auto simp: row_account_Some)

lemma key_state:
  "''invoice_pending'' = state_key s \<longleftrightarrow> s = InvoicePending" "''quoted'' = state_key s \<longleftrightarrow> s = Quoted"
  "''settled'' = state_key s \<longleftrightarrow> s = Settled" "''refund_required'' = state_key s \<longleftrightarrow> s = RefundRequired"
  "''awaiting_payment'' = state_key s \<longleftrightarrow> s = AwaitingPayment" "''lnurl_pending'' = state_key s \<longleftrightarrow> s = LnurlPending"
  "''active'' = state_key s \<longleftrightarrow> s = Active" "''refunded'' = state_key s \<longleftrightarrow> s = Refunded"
  by (cases s; simp)+

lemma invoice_write:
  assumes "ledger_ok L J (cw_rows w)"
  shows "ledger_write L J i (\<lambda>a. ac_state a = InvoicePending)
    (\<lambda>a. a\<lparr>ac_state := AwaitingPayment, ac_invoice := Some iv, ac_hash := Some h\<rparr>) w (ledger_invoice up i iv h w)"
  unfolding ledger_invoice_def
proof (rule ledger_write_select, goal_cases)
  case (1 found w')
  have "ledger_ok L J (cw_rows w')" using assms 1 by simp
  then show ?case
    by (intro ledger_write_if update_write) (auto simp: row_account_Some key_state)
qed

lemma rotate_write:
  assumes ok: "ledger_ok L J (cw_rows w)" and J: "codecs_ok J"
  shows "ledger_write L J i (\<lambda>a. ac_state a = Quoted)
    (\<lambda>a. a\<lparr>ac_state := LnurlPending, ac_note := Some n, ac_rotation := Some ro\<rparr>) w (ledger_rotate J up i n ro w)"
  unfolding ledger_rotate_def
proof (rule ledger_write_select, goal_cases)
  case (1 found w')
  have "ledger_ok L J (cw_rows w')" using ok 1 by simp
  then show ?case
    by (intro ledger_write_if ledger_write_value update_write) (auto simp: row_account_Some key_state codecs_okD [OF J])
qed

lemma settle_write:
  assumes ok: "ledger_ok L J (cw_rows w)" and J: "codecs_ok J"
  shows "ledger_write L J i (\<lambda>a. ac_state a = before)
    (\<lambda>a. a\<lparr>ac_state := Settled, ac_settlement := Some reference,
       ac_rotation := (if ro = None then ac_rotation a else ro)\<rparr>) w (ledger_settle J up i before reference ro w)"
  unfolding ledger_settle_def
proof (rule ledger_write_select, goal_cases)
  case (1 found w')
  have "ledger_ok L J (cw_rows w')" using ok 1 by simp
  then show ?case
    by (intro ledger_write_if ledger_write_value update_write)
      (auto simp: row_account_Some key_state codecs_okD [OF J] res_simps split: option.splits)
qed

lemma activate_write:
  assumes "ledger_ok L J (cw_rows w)" and J: "codecs_ok J"
  shows "ledger_write L J i (\<lambda>a. ac_state a = Settled) (\<lambda>a. a\<lparr>ac_state := Active, ac_receipt := Some receipt\<rparr>) w
    (ledger_activate J up i receipt w)"
  unfolding ledger_activate_def
  by (rule ledger_write_value, rule update_write [OF assms(1)]) (auto simp: row_account_Some key_state codecs_okD [OF J])

lemma start_refund_write:
  assumes "ledger_ok L J (cw_rows w)" and J: "codecs_ok J"
  shows "ledger_write L J i (\<lambda>a. ac_state a = RefundRequired \<and> ac_refund a = None) (\<lambda>a. a\<lparr>ac_refund := Some j\<rparr>) w
    (start_refund J up i j w)"
  unfolding start_refund_def
  by (rule ledger_write_value, rule update_write [OF assms(1)]) (auto simp: row_account_Some key_state codecs_okD [OF J])

lemma complete_refund_write:
  assumes "ledger_ok L J (cw_rows w)" and J: "codecs_ok J"
  shows "ledger_write L J i (\<lambda>a. ac_state a = RefundRequired) (\<lambda>a. a\<lparr>ac_state := Refunded, ac_refund := Some j\<rparr>) w
    (complete_refund J up i j w)"
  unfolding complete_refund_def
  by (intro ledger_write_if ledger_write_value update_write [OF assms(1)])
    (auto simp: row_account_Some key_state codecs_okD [OF J])

text \<open>Reading answers the account of the order and changes nothing.\<close>

lemma get_account:
  assumes "ledger_ok L J (cw_rows w)"
  shows "wp (\<lambda>found w'. cw_rows w' = cw_rows w \<and> cw_log w' = cw_log w
             \<and> found = map_option account_record (accounts J (cw_rows w) i))
            (\<lambda>_ w'. cw_rows w' = cw_rows w \<and> cw_log w' = cw_log w) (ledger_get J up i w)"
proof (cases "find_row (\<lambda>r. row_id r = i) (cw_rows w)")
  case None
  then show ?thesis by (simp add: ledger_get_def sql_select_def accounts_def)
next
  case (Some r)
  then obtain a where "row_account J r = Some a" using find_row_in ledger_ok_row [OF assms] by blast
  then show ?thesis
    using Some by (simp add: ledger_get_def sql_select_def accounts_def row_record_account)
qed

lemma ledger_write_get:
  assumes "ledger_ok L J (cw_rows w)"
    "\<And>found w'. cw_rows w' = cw_rows w \<Longrightarrow> cw_log w' = cw_log w \<Longrightarrow> ledger_write L J i guard change w' (f found w')"
  shows "ledger_write L J i guard change w (st_then (ledger_get J up i w) f)"
  unfolding ledger_write_def wp_then
  by (rule wp_mono [OF get_account [OF assms(1)]]) (use assms(2) in \<open>simp_all add: ledger_write_def\<close>)

lemma update_refund_write:
  assumes "ledger_ok L J (cw_rows w)" and J: "codecs_ok J"
  shows "ledger_write L J i (\<lambda>a. ac_state a = RefundRequired) (\<lambda>a. a\<lparr>ac_refund := Some j\<rparr>) w (update_refund J up i j w)"
  unfolding update_refund_def
  using assms(1)
  by (intro ledger_write_get ledger_write_if ledger_write_value update_write)
    (auto simp: row_account_Some key_state codecs_okD [OF J])

section \<open>Runs of the service\<close>

text \<open>
  A run that keeps the ledger readable and whose every change and request is a step of the market,
  also when it fails half-way; \<open>Q\<close> holds of what it returns.
\<close>

definition acct :: "checkout \<Rightarrow> cworld \<Rightarrow> market" where
  "acct K w = accounts (ck_json K) (cw_rows w)"

definition book :: "checkout \<Rightarrow> cworld \<Rightarrow> market \<times> ceffect list" where
  "book K w = (acct K w, cw_log w)"

definition checkout_ok :: "checkout \<Rightarrow> cworld \<Rightarrow> bool" where
  "checkout_ok K w \<longleftrightarrow> ledger_ok (ck_lib K) (ck_json K) (cw_rows w) \<and> codecs_ok (ck_json K)"

definition reaches :: "checkout \<Rightarrow> cworld \<Rightarrow> cworld \<Rightarrow> bool" where
  "reaches K w w' \<longleftrightarrow> checkout_ok K w' \<and> (market_step K)\<^sup>*\<^sup>* (book K w) (book K w')"

definition runs :: "checkout \<Rightarrow> cworld \<Rightarrow> ('a \<Rightarrow> cworld \<Rightarrow> bool) \<Rightarrow> cworld \<times> ('e + 'a) \<Rightarrow> bool" where
  "runs K w Q r = wp (\<lambda>x w'. reaches K w w' \<and> Q x w') (\<lambda>_ w'. reaches K w w') r"

lemma reaches_trans: "reaches K w w1 \<Longrightarrow> reaches K w1 w2 \<Longrightarrow> reaches K w w2"
  by (auto simp: reaches_def)

lemma reaches_refl: "checkout_ok K w \<Longrightarrow> reaches K w w"
  by (simp add: reaches_def)

lemma reaches_ok: "reaches K w w' \<Longrightarrow> checkout_ok K w'"
  by (simp add: reaches_def)

lemma reaches_same: "checkout_ok K w \<Longrightarrow> book K w' = book K w \<Longrightarrow> cw_rows w' = cw_rows w \<Longrightarrow> reaches K w w'"
  by (simp add: reaches_def checkout_ok_def)

lemma runs_then:
  assumes "runs K w P r" "\<And>x w'. checkout_ok K w' \<Longrightarrow> P x w' \<Longrightarrow> runs K w' Q (f x w')"
  shows "runs K w Q (st_then r f)"
  unfolding runs_def wp_then
proof (rule wp_mono [OF assms(1) [unfolded runs_def]], goal_cases)
  case (1 x w')
  then have "runs K w' Q (f x w')" using assms(2) reaches_ok by blast
  from this [unfolded runs_def] show ?case
    by (rule wp_mono) (use 1 reaches_trans in blast)+
qed simp

lemma runs_mono: "runs K w P r \<Longrightarrow> (\<And>x w'. P x w' \<Longrightarrow> Q x w') \<Longrightarrow> runs K w Q r"
  unfolding runs_def by (erule wp_mono) auto

lemma runs_Inr [simp]: "runs K w Q (w, Inr x) \<longleftrightarrow> reaches K w w \<and> Q x w"
  by (simp add: runs_def)

lemma runs_Inl [simp]: "runs K w Q (w, Inl e) \<longleftrightarrow> reaches K w w"
  by (simp add: runs_def)

lemma runs_value:
  assumes "checkout_ok K w"
  shows "runs K w (\<lambda>x w'. v = Inr x \<and> w' = w) (w, v)"
  using assms by (cases v) (simp_all add: reaches_refl)

lemma runs_if: "(c \<Longrightarrow> runs K w Q r) \<Longrightarrow> (\<not> c \<Longrightarrow> runs K w Q r') \<Longrightarrow> runs K w Q (if c then r else r')"
  by simp

lemma unclaimed_upd [simp]: "unclaimed (m(i \<mapsto> b)) i a = unclaimed m i a"
  by (auto simp: unclaimed_def)

text \<open>A guarded write is a step of the order it names.\<close>

lemma runs_write:
  assumes ok: "checkout_ok K w" and wr: "ledger_write (ck_lib K) (ck_json K) i guard change w r"
    and step: "\<And>a. acct K w i = Some a \<Longrightarrow> guard a \<Longrightarrow> order_step K (cw_log w) i a (change a)"
  shows "runs K w (\<lambda>_ w'. cw_log w' = cw_log w \<and> (\<exists>a. acct K w i = Some a \<and> guard a \<and> acct K w' = (acct K w)(i \<mapsto> change a))) r"
  unfolding runs_def
proof (rule wp_mono [OF wr [unfolded ledger_write_def]], goal_cases)
  case (1 x w')
  then obtain a where a: "acct K w i = Some a" "guard a" "acct K w' = (acct K w)(i \<mapsto> change a)"
    by (auto simp: acct_def)
  have "unclaimed (acct K w') i (change a)"
    unfolding acct_def by (rule unique_unclaimed) (use 1 a in \<open>auto simp: acct_def\<close>)
  then have "market_step K (acct K w, cw_log w) ((acct K w)(i \<mapsto> change a), cw_log w)"
    using a by (intro market_step.moved [where a = a]) (auto intro: step)
  then show ?case using 1 a ok by (auto simp: reaches_def book_def checkout_ok_def)
next
  case (2 e w')
  then show ?case using ok by (auto simp: reaches_def book_def acct_def checkout_ok_def)
qed

text \<open>A call to the outside is a step when the accounts give a reason for it.\<close>

lemma reaches_asked:
  "checkout_ok K w \<Longrightarrow> may_ask K (acct K w) e \<Longrightarrow> reaches K w (note_effect e w)"
  by (auto simp: reaches_def book_def acct_def checkout_ok_def intro: market_step.asked)

end
