(* ===== verification/Checkout_Refinement.thy ===== *)
theory Checkout_Refinement
  imports Checkout_Market
begin

text \<open>
  The checkout service implements the market: whatever the environment answers, and also when an
  operation fails half-way, each operation performs steps of \<open>market_step\<close> only.
\<close>

section \<open>Calls that change no account\<close>

definition still :: "checkout \<Rightarrow> cworld \<Rightarrow> cworld \<Rightarrow> bool" where
  "still K w w' \<longleftrightarrow> acct K w' = acct K w \<and> cw_log w' = cw_log w"

lemma still_rows: "cw_rows w' = cw_rows w \<Longrightarrow> cw_log w' = cw_log w \<Longrightarrow> still K w w'"
  by (simp add: still_def acct_def)

lemma still_reaches:
  "checkout_ok K w \<Longrightarrow> cw_rows w' = cw_rows w \<Longrightarrow> cw_log w' = cw_log w \<Longrightarrow> reaches K w w'"
  by (rule reaches_same) (simp_all add: book_def acct_def)

lemma runs_step_on:
  "checkout_ok K w \<Longrightarrow> runs K w (\<lambda>x w'. still K w w' \<and> v = Inr x) (step_on w, v)"
  by (cases v) (auto simp: runs_def intro: still_reaches still_rows)

lemma runs_now: "checkout_ok K w \<Longrightarrow> runs K w (\<lambda>n w'. still K w w') (sys_now E w)"
  unfolding sys_now_def by (rule runs_mono [OF runs_step_on]) auto

lemma runs_receiving: "checkout_ok K w \<Longrightarrow> runs K w (\<lambda>_ w'. still K w w') (try_receiving E w)"
  unfolding try_receiving_def by (rule runs_mono [OF runs_step_on]) auto

lemma runs_ledger_get:
  assumes "checkout_ok K w"
  shows "runs K w (\<lambda>found w'. still K w w' \<and> found = map_option account_record (acct K w i)) (ledger_get (ck_json K) up i w)"
  unfolding runs_def
  by (rule wp_mono [OF get_account]) (use assms in \<open>auto simp: checkout_ok_def acct_def still_def intro: still_reaches\<close>)

lemma runs_get:
  "checkout_ok K w \<Longrightarrow>
   runs K w (\<lambda>found w'. still K w w' \<and> found = map_option account_record (acct K w i)) (get_record K E i w)"
  unfolding get_record_def by (rule runs_ledger_get)

lemma runs_must_get:
  assumes "checkout_ok K w"
  shows "runs K w (\<lambda>rc w'. still K w w' \<and> (\<exists>a. acct K w i = Some a \<and> rc = account_record a)) (must_get K E e i w)"
  unfolding must_get_def
  by (rule runs_then [OF runs_get [OF assms]]) (auto simp: ok_or_def reaches_refl split: option.splits)

text \<open>An order is read by its signer only.\<close>

lemma runs_signer_record:
  assumes "checkout_ok K w"
  shows "runs K w (\<lambda>rc w'. still K w w'
      \<and> (\<exists>a. acct K w i = Some a \<and> rc = account_record a \<and> q_signer_pubkey (ac_quote a) = p_pubkey p)) (signer_record K E p i w)"
  unfolding signer_record_def
  apply (rule runs_if)
   apply (simp add: assms reaches_refl)
  apply (rule runs_then [OF runs_get [OF assms]])
  apply (auto simp: reaches_refl split: option.splits)
  done

definition stored :: "checkout \<Rightarrow> principal \<Rightarrow> string \<Rightarrow> order \<Rightarrow> cworld \<Rightarrow> bool" where
  "stored K p i od w \<longleftrightarrow>
     (\<exists>a. acct K w i = Some a \<and> od = rec_order (account_record a) \<and> q_signer_pubkey (ac_quote a) = p_pubkey p)"

lemma runs_order_of:
  assumes "checkout_ok K w"
  shows "runs K w (\<lambda>od w'. still K w w' \<and> stored K p i od w') (order_of K E p i w)"
  unfolding order_of_def
  by (rule runs_then [OF runs_signer_record [OF assms]]) (auto simp: reaches_refl stored_def still_def)

lemma runs_consent:
  assumes "checkout_ok K w"
  shows "runs K w (\<lambda>rc w'. still K w w' \<and> (\<exists>a. acct K w i = Some a \<and> rc = account_record a
      \<and> q_signer_pubkey (ac_quote a) = p_pubkey p \<and> ac_digest a = commitment)) (consent K E p i commitment w)"
  unfolding consent_def
  by (rule runs_then [OF runs_signer_record [OF assms]]) (auto simp: reaches_refl)

lemma runs_fresh: "checkout_ok K w \<Longrightarrow> runs K w (\<lambda>_ w'. still K w w') (still_fresh E od w)"
  unfolding still_fresh_def by (rule runs_then [OF runs_now]) (auto simp: reaches_refl)

lemma acct_id: "checkout_ok K w \<Longrightarrow> acct K w i = Some a \<Longrightarrow> q_order_id (ac_quote a) = i"
  unfolding checkout_ok_def acct_def by (fastforce simp: accounts_row dest: ledger_ok_row)

section \<open>Calls to the outside\<close>

lemma note_effect_acct [simp]: "acct K (note_effect e w) = acct K w"
  by (simp add: acct_def)

lemma runs_asked:
  assumes "checkout_ok K w" "may_ask K (acct K w) e"
  shows "runs K w (\<lambda>x w'. acct K w' = acct K w \<and> cw_log w' = cw_log w @ [e] \<and> v = Inr x) (note_effect e w, v)"
  using reaches_asked [OF assms] by (cases v) (simp_all add: runs_def)

text \<open>The transports, also when a failed fetch is not the end of the operation.\<close>

lemma note_fetch_either:
  assumes "checkout_ok K w" "acct K w i = Some a" "note_reason (ck_ln K) a u" "note_fetch K E u w = (w', res)"
  shows "reaches K w w'" "acct K w' = acct K w"
proof -
  have "may_ask K (acct K w) (CE_Note u answer)" for answer using assms by auto
  from reaches_asked [OF assms(1) this] show "reaches K w w'" "acct K w' = acct K w"
    using assms(1,4) by (auto simp: note_fetch_def Let_def reaches_refl split: if_splits)
qed

lemma runs_note_fetch:
  assumes "checkout_ok K w" "acct K w i = Some a" "note_reason (ck_ln K) a u"
  shows "runs K w (\<lambda>body w'. acct K w' = acct K w) (note_fetch K E u w)"
proof (cases "note_fetch K E u w")
  case (Pair w' res)
  show ?thesis
    using note_fetch_either [OF assms Pair] by (cases res) (simp_all add: Pair runs_def)
qed

lemma refund_fetch_either:
  assumes "checkout_ok K w" "acct K w i = Some a" "ac_state a = RefundRequired" "q_rail (ac_quote a) = Lnurlcash"
    "refund_fetch K E u w = (w', res)"
  shows "reaches K w w'" "acct K w' = acct K w" "set (cw_log w) \<subseteq> set (cw_log w')"
    "res = Inr body \<Longrightarrow> \<exists>answer. CE_Refund u (Some answer) \<in> set (cw_log w') \<and> json_value (ck_ln K) answer = Some body"
proof -
  have "may_ask K (acct K w) (CE_Refund u answer)" for answer using assms by auto
  note asked = reaches_asked [OF assms(1) this]
  show "reaches K w w'" "acct K w' = acct K w" "set (cw_log w) \<subseteq> set (cw_log w')"
    using assms(1,5) asked by (auto simp: refund_fetch_def Let_def reaches_refl split: if_splits)
  show "\<exists>answer. CE_Refund u (Some answer) \<in> set (cw_log w') \<and> json_value (ck_ln K) answer = Some body" if "res = Inr body"
    using assms(5) that
    by (cases "refund_get E (cw_tick w) u") (auto simp: refund_fetch_def Let_def split: if_splits)
qed

section \<open>Quoting\<close>

lemma runs_state:
  assumes "checkout_ok K w" "acct K w i = Some a" "order_step K (cw_log w) i a (a\<lparr>ac_state := after\<rparr>)"
  shows "runs K w (\<lambda>_ w'. cw_log w' = cw_log w \<and> acct K w' = (acct K w)(i \<mapsto> a\<lparr>ac_state := after\<rparr>))
    (ledger_state up i before after w)"
proof -
  have "ledger_ok (ck_lib K) (ck_json K) (cw_rows w)" using assms(1) by (simp add: checkout_ok_def)
  from runs_write [OF assms(1) state_write [OF this]] show ?thesis
    by (rule runs_mono) (use assms in auto)
qed

lemma runs_reserve_order:
  assumes ok: "checkout_ok K w" and a: "acct K w i = Some a"
  shows "runs K w (\<lambda>od w'. \<exists>a'. acct K w' i = Some a' \<and> od = rec_order (account_record a') \<and> ac_quote a' = ac_quote a) (reserve_order K E (account_record a) w)"
proof -
  have i: "q_order_id (ac_quote a) = i" by (rule acct_id [OF ok a])
  let ?Q = "\<lambda>_ w'. \<exists>a'. acct K w' i = Some a' \<and> ac_quote a' = ac_quote a"
  have hold: "runs K w' ?Q
      (st_then (st_map_err sale_error (call_reserve E (sale_of (ac_quote a)) w')) (\<lambda>_ w.
         ledger_state (db_up E) i Reserving Quoted w))"
    if w': "checkout_ok K w'" "acct K w' i = Some a" "ac_state a = Reserving" for w'
  proof -
    let ?v = "reserve_paid_sale E (cw_tick w') (sale_of (ac_quote a))"
    let ?e = "CE_Reserve (sale_of (ac_quote a)) ?v"
    have ask: "may_ask K (acct K w') ?e" using w' i by (simp add: sale_of_def)
    have "runs K (note_effect ?e w') ?Q (ledger_state (db_up E) i Reserving Quoted (note_effect ?e w'))"
      if "?v = Inr ()"
    proof (rule runs_mono [OF runs_state])
      show "checkout_ok K (note_effect ?e w')" by (rule reaches_ok [OF reaches_asked [OF w'(1) ask]])
      show "acct K (note_effect ?e w') i = Some a" using w' by simp
      show "order_step K (cw_log (note_effect ?e w')) i a (a\<lparr>ac_state := Quoted\<rparr>)"
        by (rule order_step.hold) (use w' that in simp_all)
    qed auto
    then show ?thesis
      using reaches_asked [OF w'(1) ask]
      by (cases ?v) (auto simp: call_reserve_def Let_def runs_def elim!: wp_mono intro: reaches_trans)
  qed
  show ?thesis
  proof (cases "ac_state a = Reserving")
    case False
    then show ?thesis using ok a by (auto simp: reserve_order_def Let_def reaches_refl)
  next
    case True
    show ?thesis
      unfolding reserve_order_def Let_def account_record_simps i
      apply (simp only: True simp_thms if_False)
      apply (rule runs_then [OF runs_now [OF ok]])
      apply (rule runs_then [where P = ?Q])
       apply (rule runs_if)
        apply (rule runs_mono [OF runs_state])
           apply (auto simp: still_def a True intro: order_step.expire)[4]
       apply (rule hold)
         apply (auto simp: still_def a True)[3]
      apply (rule runs_then [OF runs_must_get])
       apply (auto simp: reaches_refl still_def)
      done
  qed
qed

lemma runs_reserve:
  "checkout_ok K w \<Longrightarrow> acct K w i = Some a \<Longrightarrow>
   runs K w (\<lambda>od w'. \<exists>a'. acct K w' i = Some a' \<and> od = rec_order (account_record a')) (reserve_order K E (account_record a) w)"
  by (rule runs_mono [OF runs_reserve_order]) auto

text \<open>A new row opens one account.\<close>

lemma new_row_account:
  "codecs_ok J \<Longrightarrow> quote_to J q = Some json \<Longrightarrow> row_account J (new_row L q json request) = Some (new_account L q json request)"
  by (simp add: row_account_Some new_row_def new_account_def codecs_okD)

lemma insert_ok:
  assumes ok: "ledger_ok L J rows" and J: "codecs_ok J" and q: "quote_to J q = Some json"
    and new: "find_row (\<lambda>x. row_id x = q_order_id q) rows = None"
  shows "ledger_ok L J (rows @ [new_row L q json request])"
    "accounts J (rows @ [new_row L q json request]) = (accounts J rows)(q_order_id q \<mapsto> new_account L q json request)"
proof -
  let ?r = "new_row L q json request"
  have r: "row_id ?r = q_order_id q" "row_payment_hash ?r = None" "row_note_id ?r = None" "row_settlement ?r = None"
    "row_signer ?r = q_signer_pubkey q" "row_digest ?r = c_sha256 L json" "row_quote ?r = json"
    by (simp_all add: new_row_def)
  have "column f (rows @ [?r]) = column f rows" if "f ?r = None" for f
    using that by (simp add: column_def List.map_filter_def)
  then have u: "unique_ok (rows @ [?r])"
    using ok new r unfolding ledger_ok_def unique_ok_def by (auto simp: find_row_None)
  have "row_ok L J ?r"
    using new_row_account [OF J q] r by (simp add: row_ok_def new_account_def)
  then show ok': "ledger_ok L J (rows @ [?r])" using u ok by (simp add: ledger_ok_def)
  show "accounts J (rows @ [?r]) = (accounts J rows)(q_order_id q \<mapsto> new_account L q json request)"
  proof
    fix j
    have "find_row (\<lambda>x. row_id x = j) (rows @ [?r]) =
        (case find_row (\<lambda>x. row_id x = j) rows of None \<Rightarrow> if j = q_order_id q then Some ?r else None | Some x \<Rightarrow> Some x)"
      unfolding find_row_def using r(1) by (induction rows) auto
    then show "accounts J (rows @ [?r]) j = ((accounts J rows)(q_order_id q \<mapsto> new_account L q json request)) j"
      using new new_row_account [OF J q] by (auto simp: accounts_def split: option.splits)
  qed
qed

lemma runs_insert:
  assumes ok: "checkout_ok K w" and new: "acct K w (q_order_id q) = None"
    and opens: "\<And>json. quote_to (ck_json K) q = Some json \<Longrightarrow> opens K (q_order_id q) (new_account (ck_lib K) q json request)"
  shows "runs K w (\<lambda>_ w'. \<exists>a. acct K w' = (acct K w)(q_order_id q \<mapsto> a))
    (ledger_insert (ck_lib K) (ck_json K) up q request w)"
proof -
  have led: "ledger_ok (ck_lib K) (ck_json K) (cw_rows w)" "codecs_ok (ck_json K)"
    using ok by (simp_all add: checkout_ok_def)
  have f: "find_row (\<lambda>x. row_id x = q_order_id q) (cw_rows w) = None"
    using new led by (simp add: acct_def accounts_None)
  show ?thesis
    unfolding ledger_insert_def
  proof (rule runs_then [OF runs_value [OF ok]], clarsimp)
    fix json
    assume q: "quote_to (ck_json K) q = Some json"
    let ?r = "new_row (ck_lib K) q json request"
    let ?w = "step_on (w\<lparr>cw_rows := cw_rows w @ [?r]\<rparr>)"
    note ins = insert_ok [OF led q f, where request = request]
    have same: "acct K (step_on w) = acct K w" "cw_log (step_on w) = cw_log w" by (simp_all add: acct_def)
    have "market_step K (acct K w, cw_log w) ((acct K w)(q_order_id q \<mapsto> new_account (ck_lib K) q json request), cw_log w)"
      by (intro market_step.opened new opens [OF q])
    moreover have "acct K ?w = (acct K w)(q_order_id q \<mapsto> new_account (ck_lib K) q json request)"
      using ins(2) by (simp add: acct_def)
    moreover have "checkout_ok K ?w" using ins(1) led by (simp add: checkout_ok_def)
    ultimately have reach: "reaches K w ?w" "\<exists>a. acct K ?w = (acct K w)(q_order_id q \<mapsto> a)"
      by (auto simp: reaches_def book_def)
    have st: "checkout_ok K (step_on w)" "reaches K w (step_on w)"
      using ok by (auto simp: checkout_ok_def intro: still_reaches [OF ok])
    have busy: "runs K (step_on w) (\<lambda>_ w'. \<exists>a. acct K w' = (acct K w)(q_order_id q \<mapsto> a))
        (st_then (ledger_get (ck_json K) up (q_order_id q) (step_on w))
          (\<lambda>found w. if found = None then (w, Inl C_Busy) else (w, Inr ())))"
      by (rule runs_then [OF runs_ledger_get [OF st(1)]]) (auto simp: same new reaches_refl)
    show "runs K w (\<lambda>_ w'. \<exists>a. acct K w' = (acct K w)(q_order_id q \<mapsto> a))
       (st_then (sql_insert up ?r w) (\<lambda>count w. if count = 0
          then st_then (ledger_get (ck_json K) up (q_order_id q) w)
                 (\<lambda>found w. if found = None then (w, Inl C_Busy) else (w, Inr ()))
          else (w, Inr ())))"
      using reach st(2) busy f
      by (auto simp: sql_insert_def new_row_def runs_def elim!: wp_mono intro: reaches_trans)
  qed
qed

lemma opensI:
  assumes "i = order_id_of (ck_lib K) p rq" "\<not> request_bad (ck_lib K) rq" "rail_served K rq"
    "f \<in> set (offers (ck_config K)) \<and> of_id f = rq_offer_id rq"
    "quote_deadlines created (quote_seconds (ck_config K)) f = Inr expires"
    "q = make_quote (ck_config K) p rq i f created expires" "quote_to (ck_json K) q = Some json"
  shows "opens K i (new_account (ck_lib K) q json request)"
  unfolding opens_def using assms by blast

lemma make_quote_id [simp]: "q_order_id (make_quote c p rq i f created expires) = i"
  by (simp add: make_quote_def)

lemma runs_new_quote:
  assumes ok: "checkout_ok K w" and new: "acct K w i = None" and i: "i = order_id_of (ck_lib K) p rq"
    and rq: "\<not> request_bad (ck_lib K) rq"
  shows "runs K w (\<lambda>od w'. \<exists>a. acct K w' i = Some a \<and> od = rec_order (account_record a)) (new_quote K E p rq i json w)"
  unfolding new_quote_def
  apply (rule runs_if)
   apply (simp add: ok reaches_refl)
  apply (rule runs_then [OF runs_value [OF ok]], elim conjE)
  apply (rule runs_then [OF runs_now], assumption)
  apply (rule runs_then [OF runs_value], assumption, elim conjE)
  apply (rule runs_then [OF runs_insert], assumption)
    apply (simp add: still_def new)
   apply (subst make_quote_id, rule opensI [OF i rq])
       apply (auto simp: find_Some_iff)[5]
  apply (rule runs_then [OF runs_must_get], assumption)
  apply (elim exE conjE, simp only:, rule runs_reserve, assumption)
  apply (simp add: still_def)
  done

lemma runs_quote_order:
  assumes ok: "checkout_ok K w"
  shows "runs K w (\<lambda>od w'. \<exists>a. acct K w' (order_id_of (ck_lib K) p rq) = Some a \<and> od = rec_order (account_record a))
    (quote_order K E p rq w)"
  unfolding quote_order_def Let_def
  apply (rule runs_then [OF runs_receiving [OF ok]])
  apply (rule runs_if)
   apply (simp add: reaches_refl)
  apply (rule runs_then [OF runs_value], assumption, elim conjE)
  apply (rule runs_then [OF runs_get], assumption, elim conjE)
  apply (auto simp: still_def reaches_refl intro!: runs_new_quote runs_reserve split: option.splits)
  done

section \<open>Invoices\<close>

lemma runs_validate_invoice:
  assumes ok: "checkout_ok K w"
  shows "runs K w (\<lambda>_ w'. still K w w' \<and> invoice_valid (ck_ln K) q iv) (validate_invoice K E q iv allow w)"
  unfolding validate_invoice_def
  apply (rule runs_if)
   apply (simp add: ok reaches_refl)
  apply (rule runs_then [OF runs_value [OF ok]], elim conjE)
  apply (rule runs_then [OF runs_value], assumption, elim conjE)
  apply (rule runs_if)
   apply (simp add: reaches_refl)
  apply (rule runs_then [where P = "\<lambda>_ w'. still K w w'"])
   apply (cases allow; simp add: reaches_refl still_def)
   apply (rule runs_then [OF runs_now], assumption)
   apply (auto simp: reaches_refl still_def invoice_valid_def)
  done

text \<open>Leaving \<open>Quoted\<close> and asking the backend is one step of the market.\<close>

lemma runs_request_invoice:
  assumes ok: "checkout_ok K w" and a: "acct K w i = Some a" "ac_state a = Quoted" "q_rail (ac_quote a) = Lightning"
    and sats: "sats = price_msat (q_offer (ac_quote a)) div 1000"
    and rest: "\<And>iv w'. checkout_ok K w' \<Longrightarrow> acct K w' = (acct K w)(i \<mapsto> a\<lparr>ac_state := InvoicePending\<rparr>) \<Longrightarrow> runs K w' Q (f iv w')"
  shows "runs K w Q (st_then (ledger_state up i Quoted InvoicePending w) (\<lambda>_ w. st_then (call_create_invoice E sats i w) f))"
proof -
  have led: "ledger_ok (ck_lib K) (ck_json K) (cw_rows w)" "codecs_ok (ck_json K)" using ok by (simp_all add: checkout_ok_def)
  let ?m = "(acct K w)(i \<mapsto> a\<lparr>ac_state := InvoicePending\<rparr>)"
  have ask: "runs K w (\<lambda>iv w'. acct K w' = ?m) (call_create_invoice E sats i w1)"
    if "ledger_ok (ck_lib K) (ck_json K) (cw_rows w1)" "cw_log w1 = cw_log w" "acct K w1 = ?m" for w1
  proof -
    let ?v = "create_invoice E (cw_tick w1) sats i"
    have "market_step K (acct K w, cw_log w) (?m, cw_log w @ [CE_Invoice i sats ?v])"
      unfolding sats by (rule market_step.invoiced) (use a in auto)
    then have "reaches K w (note_effect (CE_Invoice i sats ?v) w1)"
      using that led by (auto simp: reaches_def book_def checkout_ok_def)
    then show ?thesis using that by (cases ?v) (auto simp: call_create_invoice_def runs_def)
  qed
  have "runs K w (\<lambda>iv w'. acct K w' = ?m)
      (st_then (ledger_state up i Quoted InvoicePending w) (\<lambda>_ w. call_create_invoice E sats i w))"
    unfolding runs_def wp_then
    by (rule wp_mono [OF state_write [OF led(1), unfolded ledger_write_def]])
      (use ask a ok in \<open>auto simp: runs_def acct_def intro: still_reaches\<close>)
  moreover have "st_then (ledger_state up i Quoted InvoicePending w) (\<lambda>_ w. st_then (call_create_invoice E sats i w) f)
      = st_then (st_then (ledger_state up i Quoted InvoicePending w) (\<lambda>_ w. call_create_invoice E sats i w)) f"
    by (simp add: st_then_def split: prod.splits sum.splits)
  ultimately show ?thesis using rest by (auto intro: runs_then)
qed

lemma runs_invoice:
  assumes ok: "checkout_ok K w"
    and a: "\<exists>a. acct K w i = Some a \<and> q_rail (ac_quote a) = Lightning \<and> invoice_valid (ck_ln K) (ac_quote a) iv"
  shows "runs K w (\<lambda>_ w'. True) (ledger_invoice up i (bolt11 iv) (ln_payment_hash iv) w)"
proof -
  have "ledger_ok (ck_lib K) (ck_json K) (cw_rows w)" using ok by (simp add: checkout_ok_def)
  from runs_write [OF ok invoice_write [OF this]] show ?thesis
    by (rule runs_mono) (use a in \<open>auto intro: order_step.invoice\<close>)
qed

lemma runs_lightning_order:
  assumes ok: "checkout_ok K w"
  shows "runs K w (stored K p i) (lightning_order K E p i commitment w)"
  unfolding lightning_order_def Let_def
  apply (rule runs_then [OF runs_receiving [OF ok]])
  apply (rule runs_then [OF runs_consent], assumption, elim exE conjE, simp only: account_record_simps)
  apply (rule runs_if, simp add: reaches_refl)
  apply (rule runs_if, simp add: reaches_refl stored_def still_def)
  apply (rule runs_if, simp add: reaches_refl)
  apply (rule runs_if, simp add: reaches_refl)
  apply (rule runs_if, simp add: reaches_refl)
  apply (rule runs_then [OF runs_fresh], assumption)
  apply (rule runs_if, simp add: reaches_refl)
  apply (rule runs_request_invoice, assumption)
      apply (auto simp: still_def)[4]
  apply (rule runs_then [OF runs_validate_invoice], assumption, elim conjE)
  apply (rule runs_then [OF runs_invoice], assumption)
   apply (auto simp: still_def)[1]
  apply (rule runs_mono [OF runs_order_of], assumption)
  apply simp
  done

lemma runs_recover_invoice:
  assumes ok: "checkout_ok K w"
  shows "runs K w (\<lambda>_ _. True) (recover_invoice K E i iv w)"
  unfolding recover_invoice_def Let_def
  apply (rule runs_then [OF runs_receiving [OF ok]])
  apply (rule runs_then [OF runs_must_get], assumption, elim exE conjE, simp only: account_record_simps)
  apply (rule runs_if, simp add: reaches_refl)
  apply (rule runs_then [OF runs_validate_invoice], assumption, elim conjE)
  apply (rule runs_invoice, assumption)
  apply (auto simp: still_def)
  done

section \<open>Notes\<close>

definition in_state :: "checkout \<Rightarrow> cworld \<Rightarrow> string \<Rightarrow> order_state \<Rightarrow> bool" where
  "in_state K w i st \<longleftrightarrow> (\<exists>a. acct K w i = Some a \<and> ac_state a = st)"

text \<open>An order whose note is being exchanged, with the journalled rotation.\<close>

definition rotating :: "checkout \<Rightarrow> cworld \<Rightarrow> string \<Rightarrow> quote \<Rightarrow> rotation \<Rightarrow> bool" where
  "rotating K w i q ro \<longleftrightarrow>
     (\<exists>a. acct K w i = Some a \<and> ac_state a = LnurlPending \<and> ac_quote a = q \<and> ac_rotation a = Some ro)"

lemma rotating_cong: "acct K w' = acct K w \<Longrightarrow> rotating K w' i q ro = rotating K w i q ro"
  by (simp add: rotating_def)

lemma runs_certify:
  assumes ok: "checkout_ok K w" and r: "rotating K w i q ro" and sig: "certifies (ck_ln K) q ro signature"
  shows "runs K w (\<lambda>_ w'. in_state K w' i Settled) (certify K E i ro signature w)"
proof -
  have led: "ledger_ok (ck_lib K) (ck_json K) (cw_rows w)" "codecs_ok (ck_json K)" using ok by (simp_all add: checkout_ok_def)
  from runs_write [OF ok settle_write [OF led]] show ?thesis
    unfolding certify_def
    by (rule runs_mono) (use r sig in \<open>auto simp: rotating_def in_state_def intro: order_step.pay_note [simplified]\<close>)
qed

lemma runs_rotate_note:
  assumes ok: "checkout_ok K w" and r: "rotating K w i q ro"
  shows "runs K w (\<lambda>_ w'. in_state K w' i Settled) (rotate_note K E i q ro w)"
proof -
  from r obtain a where a: "acct K w i = Some a" "note_reason (ck_ln K) a (ro_request_url ro)"
    by (auto simp: rotating_def note_reason_def)
  show ?thesis
    unfolding rotate_note_def
    apply (rule runs_if, simp add: ok reaches_refl)
    apply (rule runs_then [OF runs_note_fetch [OF ok a]])
    apply (rule runs_then [OF runs_value], assumption, elim conjE)
    apply (rule runs_then [OF runs_value], assumption, elim conjE)
    apply (rule runs_if, simp add: reaches_refl)
    apply (rule runs_certify, assumption)
     apply (use r in \<open>auto simp: certifies_def rotating_def\<close>)
    done
qed

lemma runs_either:
  assumes "reaches K w w'" "runs K w' Q r"
  shows "runs K w Q r"
  using assms(2) unfolding runs_def by (rule wp_mono) (use assms(1) reaches_trans in blast)+

definition recovered :: "checkout \<Rightarrow> string \<Rightarrow> quote \<Rightarrow> rotation \<Rightarrow> bool \<Rightarrow> cworld \<Rightarrow> bool" where
  "recovered K i q ro settled w = (if settled then in_state K w i Settled else rotating K w i q ro)"

lemma runs_recover_rotation:
  assumes ok: "checkout_ok K w" and r: "rotating K w i q ro"
  shows "runs K w (recovered K i q ro) (recover_rotation K E i q ro w)"
proof -
  have fetched: "runs K w (recovered K i q ro)
     (case note_fetch K E u w of
         (w, Inl e) \<Rightarrow> (w, Inr False)
       | (w, Inr body) \<Rightarrow>
           (case parse_note_info (ck_ln K) body nt strict_policy of
              None \<Rightarrow> (w, Inr False)
            | Some info \<Rightarrow>
                (case ni_signature info of
                   None \<Rightarrow> (w, Inr False)
                 | Some signature \<Rightarrow>
                     if \<not> note_matches (ck_ln K) q ro x info signature then (w, Inr False)
                     else st_then (certify K E i ro signature w) (\<lambda>_ w. (w, Inr True)))))"
    if u: "build_note_url (ck_ln K) (ro_endpoint ro) (new_secret ro) = Some nt" "note_info_request (ck_ln K) nt = Some u"
    for nt u x
  proof -
    obtain w' res where f: "note_fetch K E u w = (w', res)" by (cases "note_fetch K E u w")
    from r obtain a where a: "acct K w i = Some a" "ac_state a = LnurlPending" "ac_rotation a = Some ro"
      unfolding rotating_def by blast
    have "note_reason (ck_ln K) a u" using a(2,3) u by (auto simp: note_reason_def)
    note w' = note_fetch_either [OF ok a(1) this f]
    have r': "rotating K w' i q ro" using r rotating_cong [OF w'(2)] by blast
    have cert: "runs K w' (recovered K i q ro)
        (st_then (certify K E i ro signature w') (\<lambda>_ w. (w, Inr True)))"
      if "note_matches (ck_ln K) q ro x info signature" for info signature
      by (rule runs_then [OF runs_certify [OF reaches_ok [OF w'(1)] r']])
        (use that in \<open>auto simp: note_matches_def certifies_def reaches_refl recovered_def\<close>)
    have no: "recovered K i q ro False w'" "reaches K w' w'"
      using r' reaches_refl [OF reaches_ok [OF w'(1)]] by (simp_all add: recovered_def)
    show ?thesis
      unfolding f
      by (rule runs_either [OF w'(1)]) (simp add: cert no split: sum.split option.split)
  qed
  show ?thesis
    unfolding recover_rotation_def
    apply (rule runs_then [OF runs_value [OF ok]], elim conjE)
    apply (rule runs_then [OF runs_value], assumption, elim conjE)
    apply (rule runs_then [OF runs_value], assumption, elim conjE)
    apply (simp only:, rule fetched)
     apply auto
    done
qed

lemma runs_fulfil:
  assumes ok: "checkout_ok K w" and s: "in_state K w i Settled"
  shows "runs K w (\<lambda>_ w'. in_state K w' i Active \<or> in_state K w' i RefundRequired) (fulfil K E i w)"
proof -
  let ?v = "activate_paid_sale E (cw_tick w) i"
  let ?w = "note_effect (CE_Activate i ?v) w"
  obtain a where a: "acct K w i = Some a" "ac_state a = Settled" using s by (auto simp: in_state_def)
  have reach: "reaches K w ?w" by (rule reaches_asked [OF ok]) (use a in simp)
  note ok' = reaches_ok [OF reach]
  have led: "ledger_ok (ck_lib K) (ck_json K) (cw_rows ?w)" "codecs_ok (ck_json K)"
    using ok' by (simp_all add: checkout_ok_def)
  have act: "runs K ?w (\<lambda>_ w'. in_state K w' i Active \<or> in_state K w' i RefundRequired)
      (ledger_activate (ck_json K) (db_up E) i receipt ?w)" if "?v = Inr receipt" for receipt
    by (rule runs_mono [OF runs_write [OF ok' activate_write [OF led]]])
      (use that in \<open>auto simp: in_state_def intro: order_step.activate\<close>)
  have ref: "runs K ?w (\<lambda>_ w'. in_state K w' i Active \<or> in_state K w' i RefundRequired)
      (ledger_state (db_up E) i Settled RefundRequired ?w)" if "?v = Inl PaidAllowanceUnavailable"
    by (rule runs_mono [OF runs_write [OF ok' state_write [OF led(1)]]])
      (use that in \<open>auto simp: in_state_def intro: order_step.undeliverable\<close>)
  show ?thesis
    unfolding fulfil_def call_activate_def Let_def
    by (rule runs_either [OF reach])
      (use act ref reaches_refl [OF ok'] in \<open>auto split: sum.splits store_error.splits\<close>)
qed

lemma runs_take_note:
  assumes ok: "checkout_ok K w" and a: "acct K w i = Some a" "ac_state a = Quoted" "q_rail (ac_quote a) = Lnurlcash"
    "q_issuer (ac_quote a) = Some x" "x \<in> set (issuers (ck_config K))"
  shows "runs K w (\<lambda>_ _. True) (take_note K E i (rec_order (account_record a)) x input w)"
proof -
  have rot: "runs K w' (\<lambda>_ w''. rotating K w'' i (ac_quote a) (rotation_for x secret req))
      (ledger_rotate (ck_json K) (db_up E) i (note_identity (ck_lib K) x note_id) (rotation_for x secret req) w')"
    if "checkout_ok K w'" "acct K w' = acct K w" for w' secret req note_id
  proof -
    have led: "ledger_ok (ck_lib K) (ck_json K) (cw_rows w')" "codecs_ok (ck_json K)"
      using that by (simp_all add: checkout_ok_def)
    show ?thesis
      by (rule runs_mono [OF runs_write [OF that(1) rotate_write [OF led]]])
        (use a that in \<open>auto simp: rotating_def intro: order_step.take_note\<close>)
  qed
  have reason: "note_reason (ck_ln K) a u" if "accept_note K x input = Inr (nt, note_id, u)" for nt note_id u
    using that a by (auto simp: accept_note_def note_reason_def try_then_Inr Let_def split: if_splits)
  show ?thesis
    unfolding take_note_def Let_def
    apply (rule runs_then [OF runs_value [OF ok]], elim conjE, clarsimp)
    apply (rule runs_then [OF runs_note_fetch [OF _ a(1) reason]], assumption, assumption)
    apply (rule runs_then [OF runs_value], assumption, elim conjE)
    apply (rule runs_if, simp add: reaches_refl)
    apply (rule runs_then [OF runs_fresh], assumption)
    apply (rule runs_then [OF runs_step_on], assumption, elim conjE)
    apply (rule runs_then [OF rot], assumption)
     apply (simp add: still_def)
    apply (simp only: account_record_simps)
    apply (rule runs_then [OF runs_rotate_note], assumption, assumption)
    apply (rule runs_mono [OF runs_fulfil], assumption, assumption)
    apply simp
    done
qed

lemma runs_lnurlcash_order:
  assumes ok: "checkout_ok K w"
  shows "runs K w (stored K p i) (lnurlcash_order K E p i commitment input w)"
  unfolding lnurlcash_order_def Let_def
  apply (rule runs_then [OF runs_receiving [OF ok]])
  apply (rule runs_then [OF runs_consent], assumption, elim exE conjE, simp only: account_record_simps)
  apply (rule runs_if, simp add: reaches_refl)
  apply (rule runs_if, simp add: reaches_refl)
  apply (rule runs_if, simp add: reaches_refl)
  apply (rule runs_then [OF runs_fresh], assumption)
  apply (rule runs_then [OF runs_value], assumption, elim conjE)
  apply (rule runs_then [OF runs_take_note], assumption)
       apply (auto simp: still_def split: option.splits if_splits)[5]
  apply (rule runs_mono [OF runs_order_of], assumption)
  apply simp
  done

section \<open>Settlement checks\<close>

lemma runs_check_awaiting:
  assumes ok: "checkout_ok K w" and a: "acct K w i = Some a" "ac_state a = AwaitingPayment"
  shows "runs K w (\<lambda>paid w'. if paid then in_state K w' i Settled else acct K w' = acct K w)
    (check_awaiting K E i (account_record a) w)"
proof -
  have settle: "runs K w' (\<lambda>_ w''. in_state K w'' i Settled)
      (ledger_settle (ck_json K) (db_up E) i AwaitingPayment (''lightning:'' @ h) None w')"
    if "checkout_ok K w'" "acct K w' = acct K w" "ac_hash a = Some h" "paid_evidence (ck_lib K) (cw_log w') h" for w' h
  proof -
    have led: "ledger_ok (ck_lib K) (ck_json K) (cw_rows w')" "codecs_ok (ck_json K)"
      using that by (simp_all add: checkout_ok_def)
    show ?thesis
      by (rule runs_mono [OF runs_write [OF that(1) settle_write [OF led]]])
        (use a that in \<open>auto simp: in_state_def intro: order_step.pay_invoice [simplified]\<close>)
  qed
  have asked: "runs K w (\<lambda>(paid, s) w'. acct K w' = acct K w \<and> CE_Check h (Some (paid, s)) \<in> set (cw_log w'))
      (call_check_invoice E h w)" if "ac_hash a = Some h" for h
  proof -
    have "may_ask K (acct K w) (CE_Check h v)" for v using a that by auto
    then show ?thesis
      unfolding call_check_invoice_def Let_def
      by (rule runs_mono [OF runs_asked [OF ok]]) (auto simp: ok_or_def split: option.splits)
  qed
  show ?thesis
    unfolding check_awaiting_def account_record_simps
    apply (rule runs_then [OF runs_value [OF ok]], elim conjE)
    apply (rule runs_if, simp add: reaches_refl)
    apply (simp only: ok_or_Inr)
    apply (rule runs_then [OF asked], assumption)
    apply (clarsimp split del: if_split)
    apply (rule runs_if, simp add: reaches_refl)
    apply (rule runs_then [OF runs_value], assumption, elim conjE)
    apply (rule runs_if, simp add: reaches_refl)
    apply (rule runs_then [OF settle], assumption)
       apply (auto simp: paid_evidence_def reaches_refl)
    done
qed

lemma runs_finish_order:
  assumes "checkout_ok K w" "in_state K w i Settled"
  shows "runs K w (stored K p i) (finish_order K E p i w)"
  unfolding finish_order_def
  by (rule runs_then [OF runs_fulfil [OF assms]], rule runs_mono [OF runs_order_of]) auto

lemma runs_check_pending_note:
  assumes ok: "checkout_ok K w" and a: "acct K w i = Some a" "ac_state a = LnurlPending"
  shows "runs K w (\<lambda>_ w'. in_state K w' i Settled) (check_pending_note K E i (account_record a) w)"
  unfolding check_pending_note_def account_record_simps
  apply (rule runs_then [OF runs_value [OF ok]], elim conjE)
  apply (rule runs_then [OF runs_recover_rotation], assumption)
   apply (use a in \<open>auto simp: rotating_def\<close>)[1]
  apply (rule runs_if)
   apply (auto simp: recovered_def reaches_refl intro: runs_rotate_note)
  done

lemma runs_check_order:
  assumes ok: "checkout_ok K w"
  shows "runs K w (stored K p i) (check_order K E p i commitment w)"
  unfolding check_order_def
proof (rule runs_then [OF runs_receiving [OF ok]], rule runs_then [OF runs_consent], assumption, elim exE conjE, goal_cases)
  case (1 u w1 rc w2 a)
  have a: "acct K w2 i = Some a" using 1 by (simp add: still_def)
  have same: "reaches K w2 w2" by (rule reaches_refl) fact
  have st: "stored K p i (rec_order (account_record a)) w2" using 1 a by (auto simp: stored_def)
  have later: "stored K p i (rec_order (account_record a)) w3" if "acct K w3 = acct K w2" for w3
    using st that by (simp add: stored_def)
  have await: "runs K w2 (stored K p i) (st_then (check_awaiting K E i (account_record a) w2) (\<lambda>paid w.
      if paid then finish_order K E p i w else (w, Inr (rec_order (account_record a)))))" if "ac_state a = AwaitingPayment"
    by (rule runs_then [OF runs_check_awaiting [OF _ a that]])
      (use 1 later in \<open>auto intro: runs_finish_order simp: reaches_refl\<close>)
  have nt: "runs K w2 (stored K p i) (st_then (check_pending_note K E i (account_record a) w2) (\<lambda>_ w. finish_order K E p i w))"
    if "ac_state a = LnurlPending"
    by (rule runs_then [OF runs_check_pending_note [OF _ a that]]) (use 1 in \<open>auto intro: runs_finish_order\<close>)
  have settled: "runs K w2 (stored K p i) (finish_order K E p i w2)" if "ac_state a = Settled"
    using 1 a that by (auto intro!: runs_finish_order simp: in_state_def)
  have res: "runs K w2 (stored K p i) (reserve_order K E (account_record a) w2)" if "ac_state a = Reserving"
    by (rule runs_mono [OF runs_reserve_order [OF _ a]]) (use 1 in \<open>auto simp: stored_def\<close>)
  show ?case
    unfolding \<open>rc = account_record a\<close> account_record_simps
    using await nt settled res same st by (cases "ac_state a") simp_all
qed

lemma runs_reconcile_order:
  assumes ok: "checkout_ok K w"
  shows "runs K w (\<lambda>od w'. \<exists>a. acct K w' i = Some a \<and> od = rec_order (account_record a)) (reconcile_order K E i w)"
  unfolding reconcile_order_def
  by (rule runs_then [OF runs_must_get [OF ok]], rule runs_mono [OF runs_check_order]) (auto simp: stored_def)

section \<open>Refunds\<close>

definition refundable :: "checkout \<Rightarrow> cworld \<Rightarrow> string \<Rightarrow> account \<Rightarrow> bool" where
  "refundable K w i a \<longleftrightarrow> acct K w i = Some a \<and> ac_state a = RefundRequired \<and> q_rail (ac_quote a) = Lnurlcash"

lemma refundableD:
  "refundable K w i a \<Longrightarrow> acct K w i = Some a" "refundable K w i a \<Longrightarrow> ac_state a = RefundRequired"
  "refundable K w i a \<Longrightarrow> q_rail (ac_quote a) = Lnurlcash"
  by (simp_all add: refundable_def)

lemma refundable_cong: "refundable K w i a \<Longrightarrow> acct K w' = acct K w \<Longrightarrow> refundable K w' i a"
  by (simp add: refundable_def)

lemma runs_refund_fetch:
  assumes "checkout_ok K w" "refundable K w i a"
  shows "runs K w (\<lambda>_ w'. acct K w' = acct K w \<and> refundable K w' i a) (refund_fetch K E u w)"
proof (cases "refund_fetch K E u w")
  case (Pair w' res)
  show ?thesis
    using refund_fetch_either(1,2) [OF assms(1) refundableD [OF assms(2)] Pair] refundable_cong [OF assms(2)]
    by (cases res) (simp_all add: Pair runs_def)
qed

lemma runs_settled_by:
  assumes "checkout_ok K w" "refundable K w i a" "set us \<subseteq> set (verify_urls j)"
  shows "runs K w (\<lambda>b w'. acct K w' = acct K w \<and> (b \<longrightarrow> refund_evidence K (cw_log w') j)) (settled_by K E j us w)"
  using assms
proof (induction us arbitrary: w)
  case Nil
  then show ?case by (simp add: reaches_refl)
next
  case (Cons u us)
  let ?Q = "\<lambda>w b w'. acct K w' = acct K w \<and> (b \<longrightarrow> refund_evidence K (cw_log w') j)"
  obtain w' res where f: "refund_fetch K E u w = (w', res)" by (cases "refund_fetch K E u w")
  note w' = refund_fetch_either [OF Cons.prems(1) refundableD [OF Cons.prems(2)] f]
  have ok': "checkout_ok K w'" by (rule reaches_ok [OF w'(1)])
  have "runs K w' (?Q w') (settled_by K E j us w')"
    by (rule Cons.IH [OF ok' refundable_cong [OF Cons.prems(2) w'(2)]]) (use Cons.prems(3) in simp)
  then have rest: "runs K w' (?Q w) (settled_by K E j us w')" by (rule runs_mono) (simp add: w'(2))
  have yes: "refund_evidence K (cw_log w') j"
    if "res = Inr body" "parse_verify (ck_ln K) body = Some vr" "same_invoice (vr_pr vr) (rj_invoice j)" "vr_settled vr"
      "\<forall>h. vr_preimage vr = Some h \<longrightarrow>
         (\<exists>bs. c_unhex (ck_lib K) h = Some bs \<and> length bs = 32 \<and> c_sha256 (ck_lib K) bs = rj_payment_hash j)" for body vr
    using w'(4) [OF that(1)] that Cons.prems(3) unfolding refund_evidence_def
    by (elim exE conjE, intro exI [of _ u] exI conjI) auto
  have same: "reaches K w' w'" by (rule reaches_refl [OF ok'])
  show ?case
    unfolding settled_by.simps f
    by (rule runs_either [OF w'(1)])
      (auto simp: same rest w'(2) yes ok_or_def split: sum.split option.split)
qed

lemma runs_refund_settled:
  assumes "checkout_ok K w" "refundable K w i a"
  shows "runs K w (\<lambda>b w'. acct K w' = acct K w \<and> (b \<longrightarrow> refund_evidence K (cw_log w') j)) (refund_settled K E j w)"
  unfolding refund_settled_def by (rule runs_settled_by [OF assms]) simp

lemma runs_complete_now:
  assumes ok: "checkout_ok K w" and a: "refundable K w i a" "ac_refund a = Some j" "refund_evidence K (cw_log w) j"
  shows "runs K w (\<lambda>od w'. \<exists>a. acct K w' i = Some a \<and> od = rec_order (account_record a)) (complete_now K E i j w)"
proof -
  have fin: "runs K w' (\<lambda>_ _. True) (complete_refund (ck_json K) (db_up E) i (j\<lparr>refunded_at := Some t\<rparr>) w')"
    if "checkout_ok K w'" "still K w w'" for w' t
  proof -
    have led: "ledger_ok (ck_lib K) (ck_json K) (cw_rows w')" "codecs_ok (ck_json K)"
      using that by (simp_all add: checkout_ok_def)
    show ?thesis
      by (rule runs_mono [OF runs_write [OF that(1) complete_refund_write [OF led]]])
        (use a that in \<open>auto simp: refundable_def still_def intro: order_step.close_refund\<close>)
  qed
  show ?thesis
    unfolding complete_now_def
    apply (rule runs_then [OF runs_now [OF ok]])
    apply (rule runs_then [OF fin], assumption, assumption)
    apply (rule runs_then [OF runs_must_get], assumption)
    apply (auto simp: reaches_refl still_def)
    done
qed

lemma runs_validate_refund_invoice:
  assumes ok: "checkout_ok K w"
  shows "runs K w (\<lambda>h w'. acct K w' = acct K w
      \<and> (\<exists>parsed. parse_bolt11 (ck_ln K) invoice = Some parsed \<and> b_currency parsed = currency_of (q_network q)
           \<and> b_amount_msat parsed = Some (price_msat (q_offer q)) \<and> b_payment_hash parsed = h))
    (validate_refund_invoice K E q invoice w)"
proof -
  have st: "reaches K w (step_on w)" "acct K (step_on w) = acct K w" "reaches K w w"
    by (rule still_reaches [OF ok]; simp) (simp add: acct_def, rule reaches_refl [OF ok])
  show ?thesis
    unfolding validate_refund_invoice_def
    by (auto simp: runs_def st ok_or_def split: option.split)
qed

lemma runs_prepare_refund:
  assumes ok: "checkout_ok K w" and a: "refundable K w i a"
  shows "runs K w (\<lambda>j w'. acct K w' = acct K w \<and> refund_invoice_valid (ck_ln K) (ac_quote a) j
      \<and> rj_destination j = destination \<and> refunded_at j = None) (prepare_refund K E (ac_quote a) destination ro w)"
  unfolding prepare_refund_def Let_def
  apply (rule runs_then [OF runs_value [OF ok]], elim conjE)
  apply (rule runs_then [OF runs_refund_fetch [where a = a and i = i]], assumption, simp add: a, elim conjE)
  apply (rule runs_then [OF runs_value], assumption, elim conjE)
  apply (rule runs_then [OF runs_value], assumption, elim conjE)
  apply (rule runs_if, simp add: reaches_refl)
  apply (rule runs_then [OF runs_value], assumption, elim conjE)
  apply (rule runs_then [OF runs_refund_fetch [where a = a and i = i]], assumption, simp, elim conjE)
  apply (rule runs_then [OF runs_value], assumption, elim conjE)
  apply (clarsimp split del: if_split)
  apply (rule runs_then [OF runs_validate_refund_invoice], assumption, elim conjE)
  apply (rule runs_then [OF runs_value], assumption, elim conjE)
  apply (rule runs_then [OF runs_value], assumption, elim conjE)
  apply (rule runs_then [OF runs_value], assumption, elim conjE)
  apply (auto simp: reaches_refl refund_invoice_valid_def)
  done

lemma runs_update_refund:
  assumes ok: "checkout_ok K w" and a: "refundable K w i a" "ac_refund a = Some j"
  shows "runs K w (\<lambda>_ w'. refundable K w' i (a\<lparr>ac_refund := Some (j\<lparr>issuer_verify := Some v\<rparr>)\<rparr>))
    (update_refund (ck_json K) (db_up E) i (j\<lparr>issuer_verify := Some v\<rparr>) w)"
proof -
  have led: "ledger_ok (ck_lib K) (ck_json K) (cw_rows w)" "codecs_ok (ck_json K)"
    using ok by (simp_all add: checkout_ok_def)
  show ?thesis
    by (rule runs_mono [OF runs_write [OF ok update_refund_write [OF led]]])
      (use a in \<open>auto simp: refundable_def intro: order_step.watch_refund\<close>)
qed

text \<open>An order with its refund journalled.\<close>

definition refunding :: "checkout \<Rightarrow> cworld \<Rightarrow> string \<Rightarrow> refund_journal \<Rightarrow> bool" where
  "refunding K w i j \<longleftrightarrow> (\<exists>a. refundable K w i a \<and> ac_refund a = Some j)"

lemma refunding_cong: "refunding K w i j \<Longrightarrow> acct K w' = acct K w \<Longrightarrow> refunding K w' i j"
  unfolding refunding_def refundable_def by simp

lemma refundingE:
  assumes "refunding K w i j"
  obtains a where "refundable K w i a" "ac_refund a = Some j"
  using assms by (auto simp: refunding_def)

lemma runs_close:
  assumes ok: "checkout_ok K w" and a: "refunding K w i j"
  shows "runs K w (\<lambda>od w'. \<exists>a. acct K w' i = Some a \<and> od = rec_order (account_record a))
    (st_then (refund_settled K E j w) (\<lambda>settled w. if \<not> settled then (w, Inl C_Pending) else complete_now K E i j w))"
proof -
  obtain a where r: "refundable K w i a" "ac_refund a = Some j" using a by (rule refundingE)
  show ?thesis
    by (rule runs_then [OF runs_refund_settled [OF ok r(1)]], rule runs_if)
      (use r in \<open>auto simp: reaches_refl intro!: runs_complete_now intro: refundable_cong\<close>)
qed

lemma runs_melt_note:
  assumes ok: "checkout_ok K w" and a: "refunding K w i j"
  shows "runs K w (\<lambda>od w'. \<exists>a. acct K w' i = Some a \<and> od = rec_order (account_record a)) (melt_note K E i q j w)"
proof -
  obtain a where r: "refundable K w i a" "ac_refund a = Some j" using a by (rule refundingE)
  then have fetch: "acct K w i = Some a" "note_reason (ck_ln K) a (rj_request_url j)"
    by (auto simp: refundable_def note_reason_def)
  have watch: "runs K w' (\<lambda>_ w''. refunding K w'' i (j\<lparr>issuer_verify := Some v\<rparr>))
      (update_refund (ck_json K) (db_up E) i (j\<lparr>issuer_verify := Some v\<rparr>) w')"
    if "checkout_ok K w'" "acct K w' = acct K w" for w' v
    by (rule runs_mono [OF runs_update_refund [OF that(1) refundable_cong [OF r(1) that(2)] r(2)]])
      (auto simp: refunding_def)
  have set_verify: "runs K w' (\<lambda>j' w''. refunding K w'' i j')
      (case verify of
         None \<Rightarrow> (w', Inr j)
       | Some verify \<Rightarrow>
           st_then (w', ok_or C_Unavailable (q_issuer q)) (\<lambda>x w.
           st_then (w, same_origin (ck_lib K) (is_callback x) verify) (\<lambda>_ w.
           st_then (update_refund (ck_json K) (db_up E) i (j\<lparr>issuer_verify := Some verify\<rparr>) w) (\<lambda>_ w.
             (w, Inr (j\<lparr>issuer_verify := Some verify\<rparr>))))))"
    if w': "checkout_ok K w'" "acct K w' = acct K w" for w' verify
  proof (cases verify)
    case None
    then show ?thesis using w' refunding_cong [OF a w'(2)] by (simp add: reaches_refl)
  next
    case (Some v)
    show ?thesis
      unfolding Some option.case
      apply (rule runs_then [OF runs_value [OF w'(1)]], elim conjE)
      apply (rule runs_then [OF runs_value], assumption, elim conjE)
      apply (rule runs_then [OF watch], assumption)
       apply (auto simp: reaches_refl w'(2))
      done
  qed
  show ?thesis
    unfolding melt_note_def
    apply (rule runs_then [OF runs_note_fetch [OF ok fetch]])
    apply (rule runs_then [OF runs_value], assumption, elim conjE)
    apply (rule runs_if, simp add: reaches_refl)
    apply (rule runs_then [OF set_verify], assumption, simp)
    apply (rule runs_close, assumption, assumption)
    done
qed

lemma runs_start_refund:
  assumes ok: "checkout_ok K w" and a: "refundable K w i a" "ac_refund a = None"
    and j: "refund_invoice_valid (ck_ln K) (ac_quote a) j" "q_refund_to (ac_quote a) = Some (rj_destination j)"
      "refunded_at j = None"
  shows "runs K w (\<lambda>_ w'. refunding K w' i j) (start_refund (ck_json K) (db_up E) i j w)"
proof -
  have led: "ledger_ok (ck_lib K) (ck_json K) (cw_rows w)" "codecs_ok (ck_json K)"
    using ok by (simp_all add: checkout_ok_def)
  show ?thesis
    by (rule runs_mono [OF runs_write [OF ok start_refund_write [OF led]]])
      (use a j in \<open>auto simp: refundable_def refunding_def intro: order_step.open_refund\<close>)
qed

lemma runs_refund_order:
  assumes ok: "checkout_ok K w"
  shows "runs K w (\<lambda>od w'. \<exists>a. acct K w' i = Some a \<and> od = rec_order (account_record a)) (refund_order K E i w)"
  unfolding refund_order_def Let_def
proof (rule runs_then [OF runs_receiving [OF ok]], rule runs_then [OF runs_must_get], assumption, elim exE conjE, goal_cases)
  case (1 u w1 rc w2 a)
  let ?Q = "\<lambda>od w'. \<exists>a. acct K w' i = Some a \<and> od = rec_order (account_record a)"
  have a: "acct K w2 i = Some a" using 1 by (simp add: still_def)
  have resume: "runs K w2 ?Q (st_then (refund_settled K E j w2) (\<lambda>settled w.
      if settled then complete_now K E i j w else melt_note K E i (ac_quote a) j w))"
    if "refundable K w2 i a" "ac_refund a = Some j" for j
  proof -
    have "refunding K w2 i j" using that by (auto simp: refunding_def)
    then show ?thesis
      by (intro runs_then [OF runs_refund_settled [OF _ that(1)]] runs_if)
        (use 1 that in \<open>auto intro!: runs_complete_now runs_melt_note intro: refundable_cong refunding_cong\<close>)
  qed
  have start: "runs K w2 ?Q
      (st_then (prepare_refund K E (ac_quote a) destination ro w2) (\<lambda>journal w.
       st_then (start_refund (ck_json K) (db_up E) i journal w) (\<lambda>_ w.
       st_then (must_get K E C_Internal i w) (\<lambda>rc w.
       st_then (w, ok_or C_Internal (rec_refund rc)) (\<lambda>j w. melt_note K E i (o_quote (rec_order rc)) j w)))))"
    if "refundable K w2 i a" "ac_refund a = None" "q_refund_to (ac_quote a) = Some destination" for destination ro
    apply (rule runs_then [OF runs_prepare_refund [OF _ that(1)]], rule 1, elim conjE)
    apply (rule runs_then [OF runs_start_refund [where a = a]], assumption)
         apply (use that in \<open>auto intro: refundable_cong\<close>)[5]
    apply (rule runs_then [OF runs_must_get], assumption, elim exE conjE)
    apply (rule runs_then [OF runs_value], assumption, elim conjE)
    apply (rule runs_melt_note, assumption)
    apply (auto simp: refunding_def refundable_def still_def)
    done
  show ?case
    unfolding \<open>rc = account_record a\<close> account_record_simps
    apply (rule runs_if, simp add: a reaches_refl 1)
    apply (rule runs_if, simp add: reaches_refl 1)
    apply (rule runs_then [OF runs_value], rule 1, elim conjE)
    apply (rule runs_then [OF runs_value], assumption, elim conjE)
    apply (use a resume start in \<open>auto simp: refundable_def split: option.splits if_splits\<close>)
    done
qed

end
