(* ===== verification/Checkout_Http.thy ===== *)
theory Checkout_Http
  imports Checkout_Refinement
begin

text \<open>
  The HTTP face of the checkout, \<open>crates/wildbloom-checkout/src/http.rs\<close>: admission, the dispatch of
  an authenticated request to the service, and the status of an error. A request reaches \<open>execute\<close>
  with its headers and body as the web framework hands them over; the JSON of the bodies is a
  parameter. The whole interface of the checkout is then \<open>checkout_call\<close>: requests, and the
  operator's local actions.
\<close>

section \<open>Admission\<close>

text \<open>
  Time is in nanoseconds. \<open>ad_free\<close> counts the free permits; a permit returns when its request is
  done, and at once when the window refuses the request.
\<close>

record admission =
  ad_free :: nat
  ad_since :: nat
  ad_count :: nat

definition WINDOW :: nat where
  "WINDOW = 60 * 10 ^ 9"

definition admission_new :: "nat \<Rightarrow> admission" where
  "admission_new now = \<lparr>ad_free = 4, ad_since = now, ad_count = 0\<rparr>"

definition admit :: "nat \<Rightarrow> admission \<Rightarrow> admission \<times> (cerror + unit)" where
  "admit now s =
     (if ad_free s = 0 then (s, Inl C_Busy)
      else let s = (if now - ad_since s \<ge> WINDOW then s\<lparr>ad_since := now, ad_count := 0\<rparr> else s)
           in if ad_count s \<ge> 120 then (s, Inl C_Busy)
              else (s\<lparr>ad_count := ad_count s + 1, ad_free := ad_free s - 1\<rparr>, Inr ()))"

definition admission_done :: "admission \<Rightarrow> admission" where
  "admission_done s = s\<lparr>ad_free := ad_free s + 1\<rparr>"

section \<open>Requests\<close>

text \<open>\<open>None\<close> stands for a header that is not text, and for a body that is too long or late.\<close>

record checkout_request =
  hq_method :: string
  hq_path :: string
  hq_query :: "string option"
  hq_authorization :: "string option list"
  hq_body :: "string option"

record body_parsers =
  parse_quote_request :: "string \<Rightarrow> quote_request option"
  parse_consent :: "string \<Rightarrow> string option"
  parse_note :: "string \<Rightarrow> (string \<times> string) option"

definition trim_slashes :: "string \<Rightarrow> string" where
  "trim_slashes s = rev (dropWhile (\<lambda>c. c = CHR ''/'') (rev s))"

definition ORDERS :: string where
  "ORDERS = ''/checkout/v1/orders''"

definition single_header :: "string option list \<Rightarrow> cerror + string" where
  "single_header hs =
     (case hs of
        [] \<Rightarrow> Inl C_Unauthorised
      | None # rest \<Rightarrow> Inl C_Unauthorised
      | Some h # rest \<Rightarrow> if rest \<noteq> [] then Inl C_Unauthorised else Inr h)"

definition dispatch ::
  "checkout \<Rightarrow> cenv \<Rightarrow> body_parsers \<Rightarrow> principal \<Rightarrow> string \<Rightarrow> string \<Rightarrow> cworld \<Rightarrow> cworld \<times> (cerror + order)" where
  "dispatch K E P p path body w =
     (if path = ORDERS
      then st_then (w, ok_or C_Invalid (parse_quote_request P body)) (\<lambda>rq w. quote_order K E p rq w)
      else st_then (w, ok_or C_NotFound (strip_prefix (ORDERS @ ''/'') path)) (\<lambda>tail w.
        let (i, action) = (case split_once (CHR ''/'') tail of None \<Rightarrow> (tail, []) | Some x \<Rightarrow> x)
        in if action = [] then order_of K E p i w
           else if action = ''lightning''
           then st_then (w, ok_or C_Invalid (parse_consent P body)) (\<lambda>c w. lightning_order K E p i c w)
           else if action = ''lnurlcash''
           then st_then (w, ok_or C_Invalid (parse_note P body)) (\<lambda>(c, note) w. lnurlcash_order K E p i c note w)
           else if action = ''check''
           then st_then (w, ok_or C_Invalid (parse_consent P body)) (\<lambda>c w. check_order K E p i c w)
           else (w, Inl C_NotFound)))"

definition execute ::
  "checkout \<Rightarrow> cenv \<Rightarrow> body_parsers \<Rightarrow> checkout_request \<Rightarrow> cworld \<Rightarrow> cworld \<times> (cerror + order)" where
  "execute K E P rq w =
     (if hq_query rq \<noteq> None then (w, Inl C_Invalid)
      else st_then (w, single_header (hq_authorization rq)) (\<lambda>header w.
           st_then (w, case hq_body rq of None \<Rightarrow> Inl C_Invalid
                       | Some b \<Rightarrow> if length b > 16384 then Inl C_Invalid else Inr b) (\<lambda>body w.
           st_then (sys_now E w) (\<lambda>now w.
           st_then (w, authenticate (ck_lib K) header (trim_slashes (cf_origin (ck_config K)) @ hq_path rq)
                         (hq_method rq) body now) (\<lambda>p w.
             dispatch K E P p (hq_path rq) body w)))))"

fun error_status :: "cerror \<Rightarrow> nat" where
  "error_status C_Busy = 429"
| "error_status C_Invalid = 400"
| "error_status C_Unauthorised = 401"
| "error_status C_NotFound = 404"
| "error_status C_Expired = 410"
| "error_status C_Conflict = 409"
| "error_status C_Pending = 409"
| "error_status C_Capacity = 503"
| "error_status C_Unavailable = 502"
| "error_status C_Locked = 500"
| "error_status C_Internal = 500"

definition handle ::
  "checkout \<Rightarrow> cenv \<Rightarrow> body_parsers \<Rightarrow> checkout_request \<Rightarrow> cworld \<Rightarrow> cworld \<times> nat \<times> order option" where
  "handle K E P rq w =
     (case execute K E P rq w of
        (w, Inr od) \<Rightarrow> (w, 200, Some od)
      | (w, Inl e) \<Rightarrow> (w, error_status e, None))"

section \<open>The interface\<close>

datatype checkout_call =
    Call_Http body_parsers checkout_request
  | Call_Recover string ln_invoice
  | Call_Reconcile string
  | Call_Refund string

definition run_call :: "checkout \<Rightarrow> cenv \<Rightarrow> checkout_call \<Rightarrow> cworld \<Rightarrow> cworld" where
  "run_call K E c w =
     (case c of
        Call_Http P rq \<Rightarrow> fst (handle K E P rq w)
      | Call_Recover i iv \<Rightarrow> fst (recover_invoice K E i iv w)
      | Call_Reconcile i \<Rightarrow> fst (reconcile_order K E i w)
      | Call_Refund i \<Rightarrow> fst (refund_order K E i w))"

fun run_calls :: "checkout \<Rightarrow> (cenv \<times> checkout_call) list \<Rightarrow> cworld \<Rightarrow> cworld" where
  "run_calls K [] w = w"
| "run_calls K ((E, c) # cs) w = run_calls K cs (run_call K E c w)"

section \<open>Runs\<close>

lemma stored_signer: "stored K p i od w \<Longrightarrow> q_signer_pubkey (o_quote od) = p_pubkey p"
  by (auto simp: stored_def)

lemma runs_dispatch:
  assumes ok: "checkout_ok K w"
  shows "runs K w (\<lambda>od _. path \<noteq> ORDERS \<longrightarrow> q_signer_pubkey (o_quote od) = p_pubkey p) (dispatch K E P p path body w)"
  unfolding dispatch_def
  apply (rule runs_if)
   apply (rule runs_then [OF runs_value [OF ok]], rule runs_mono [OF runs_quote_order], assumption, simp)
  apply (rule runs_then [OF runs_value [OF ok]], elim conjE)
  apply (simp only: Let_def split_def)
  apply (rule runs_if, rule runs_mono [OF runs_order_of], assumption, blast intro: stored_signer)
  apply (rule runs_if, rule runs_then [OF runs_value], assumption, rule runs_mono [OF runs_lightning_order], assumption,
      blast intro: stored_signer)
  apply (rule runs_if, rule runs_then [OF runs_value], assumption, rule runs_mono [OF runs_lnurlcash_order], assumption,
      blast intro: stored_signer)
  apply (rule runs_if, rule runs_then [OF runs_value], assumption, rule runs_mono [OF runs_check_order], assumption,
      blast intro: stored_signer)
  apply (simp add: reaches_refl)
  done

lemma runs_execute:
  assumes ok: "checkout_ok K w"
  shows "runs K w (\<lambda>_ _. True) (execute K E P rq w)"
  unfolding execute_def
  apply (rule runs_if, simp add: ok reaches_refl)
  apply (rule runs_then [OF runs_value [OF ok]])
  apply (rule runs_then [OF runs_value], assumption)
  apply (rule runs_then [OF runs_now], assumption)
  apply (rule runs_then [OF runs_value], assumption)
  apply (rule runs_mono [OF runs_dispatch], assumption, simp)
  done

lemma runs_fst: "runs K w Q r \<Longrightarrow> reaches K w (fst r)"
  unfolding runs_def by (cases r; cases "snd r") auto

lemma run_call_reaches:
  assumes "checkout_ok K w"
  shows "reaches K w (run_call K E c w)"
proof (cases c)
  case (Call_Http P rq)
  have "fst (handle K E P rq w) = fst (execute K E P rq w)"
    by (simp add: handle_def split: prod.split sum.split)
  then show ?thesis using runs_fst [OF runs_execute [OF assms]] by (simp add: run_call_def Call_Http)
qed (use assms in \<open>auto simp: run_call_def intro: runs_fst [OF runs_recover_invoice] runs_fst [OF runs_reconcile_order]
        runs_fst [OF runs_refund_order]\<close>)

lemma run_calls_reaches: "checkout_ok K w \<Longrightarrow> reaches K w (run_calls K cs w)"
proof (induction cs arbitrary: w)
  case (Cons c cs)
  obtain E k where c: "c = (E, k)" by (cases c)
  have "reaches K w (run_call K E k w)" using Cons.prems by (rule run_call_reaches)
  with Cons.IH [OF reaches_ok [OF this]] show ?case by (auto simp: c intro: reaches_trans)
qed (simp add: reaches_refl)

section \<open>Authentication\<close>

definition named_tags :: "event \<Rightarrow> string \<Rightarrow> string list list" where
  "named_tags ev name = filter (\<lambda>t. t \<noteq> [] \<and> hd t = name) (ev_tags ev)"

text \<open>What the checkout asks of a signed authorisation event.\<close>

definition authorises :: "clibs \<Rightarrow> event \<Rightarrow> string \<Rightarrow> string \<Rightarrow> string \<Rightarrow> nat \<Rightarrow> bool" where
  "authorises L ev url meth body now \<longleftrightarrow>
     c_verify L ev \<and> ev_kind ev = HTTP_AUTH_KIND \<and> ev_content ev = []
     \<and> ev_created_at ev \<le> now + 30 \<and> now \<le> ev_created_at ev + 60
     \<and> named_tags ev ''u'' = [[''u'', url]] \<and> named_tags ev ''method'' = [[''method'', meth]]
     \<and> (meth = ''POST'' \<and> named_tags ev ''payload'' = [[''payload'', c_sha256 L body]]
        \<or> meth = ''GET'' \<and> body = [] \<and> named_tags ev ''payload'' = [])"

definition header_event :: "clibs \<Rightarrow> string \<Rightarrow> event option" where
  "header_event L header = Option.bind (strip_prefix ''Nostr '' header) (\<lambda>e. Option.bind (c_base64 L e) (c_event L))"

lemma auth_tag_Some: "auth_tag ev name = Inr (Some v) \<Longrightarrow> named_tags ev name = [[name, v]]"
proof -
  assume t: "auth_tag ev name = Inr (Some v)"
  then obtain x where x: "named_tags ev name = [x]" "length x = 2" "x ! 1 = v"
    unfolding auth_tag_def named_tags_def [symmetric] by (auto split: list.splits if_splits)
  then have "x \<in> set (named_tags ev name)" by simp
  then have "hd x = name" by (simp add: named_tags_def)
  then show ?thesis using x by (auto simp: length_Suc_conv numeral_2_eq_2)
qed

lemma auth_tag_None: "auth_tag ev name = Inr None \<Longrightarrow> named_tags ev name = []"
  unfolding auth_tag_def named_tags_def [symmetric] by (auto split: list.splits if_splits)

lemma sat_add_upper: "sat_add a b \<le> a + b"
  by (simp add: sat_add_def)

lemma if_Inr: "(if c then Inl e else r) = Inr x \<longleftrightarrow> \<not> c \<and> r = Inr x"
  by simp

lemma authenticate_Inr:
  assumes "authenticate L header url meth body now = Inr p"
  shows "\<exists>ev. header_event L header = Some ev \<and> authorises L ev url meth body now \<and> p_pubkey p = ev_pubkey ev"
proof -
  from assms [unfolded authenticate_def if_Inr try_then_Inr ok_or_Inr]
  obtain e d ev pl where
    h: "strip_prefix ''Nostr '' header = Some e" "c_base64 L e = Some d" "c_event L d = Some ev"
    and m: "meth = ''GET'' \<or> meth = ''POST''"
    and k: "ev_kind ev = HTTP_AUTH_KIND" "ev_content ev = []" "\<not> ev_created_at ev > sat_add now 30"
      "\<not> now > sat_add (ev_created_at ev) 60" "c_verify L ev" "Inr p = (Inr \<lparr>p_pubkey = ev_pubkey ev, p_event_id = ev_id ev\<rparr> :: cerror + principal)"
    and t: "auth_tag ev ''u'' = Inr (Some url)" "auth_tag ev ''method'' = Inr (Some meth)" "auth_tag ev ''payload'' = Inr pl"
    and b: "meth = ''POST'' \<longrightarrow> pl = Some (c_sha256 L body)" "meth = ''GET'' \<longrightarrow> body = [] \<and> pl = None"
    by (metis (no_types, lifting))
  have "ev_created_at ev \<le> now + 30" "now \<le> ev_created_at ev + 60"
    using k(3,4) sat_add_upper [of now 30] sat_add_upper [of "ev_created_at ev" 60] by linarith+
  then have "authorises L ev url meth body now"
    using m k t b auth_tag_Some [OF t(1)] auth_tag_Some [OF t(2)] auth_tag_Some [of ev "''payload''"]
      auth_tag_None [of ev "''payload''"]
    by (auto simp: authorises_def)
  then show ?thesis using h k by (auto simp: header_event_def)
qed

end
