(* ===== verification/Checkout_Guarantees.thy ===== *)
theory Checkout_Guarantees
  imports Checkout_Http
begin

text \<open>
  What the checkout guarantees. Invariants of the market are proved once against \<open>market_step\<close> and
  carried to every sequence of calls of the service by the refinement.
\<close>

section \<open>Invariants\<close>

locale market_invariant =
  fixes K :: checkout and I :: "market \<times> ceffect list \<Rightarrow> bool"
  assumes step: "I s \<Longrightarrow> market_step K s s' \<Longrightarrow> I s'"
begin

lemma steps: "(market_step K)\<^sup>*\<^sup>* s s' \<Longrightarrow> I s \<Longrightarrow> I s'"
  by (induction rule: rtranclp_induct) (auto intro: step)

lemma kept: "reaches K w w' \<Longrightarrow> I (book K w) \<Longrightarrow> I (book K w')"
  unfolding reaches_def by (elim conjE, rule steps)

lemma calls: "checkout_ok K w \<Longrightarrow> I (book K w) \<Longrightarrow> I (book K (run_calls K cs w))"
  by (rule kept [OF run_calls_reaches])

end

text \<open>Most invariants speak of each account and the log alone.\<close>

locale account_invariant =
  fixes K :: checkout and P :: "ceffect list \<Rightarrow> string \<Rightarrow> account \<Rightarrow> bool"
  assumes open_acct: "opens K i a \<Longrightarrow> P log i a"
    and move_acct: "P log i a \<Longrightarrow> order_step K log i a a' \<Longrightarrow> P log i a'"
    and ask_acct: "P log i a \<Longrightarrow> P (log @ [e]) i a"
    and invoice_acct: "P log i a \<Longrightarrow> ac_state a = Quoted \<Longrightarrow> q_rail (ac_quote a) = Lightning \<Longrightarrow> P log i (a\<lparr>ac_state := InvoicePending\<rparr>)"
begin

lemma invoiced_acct:
  "P log i a \<Longrightarrow> ac_state a = Quoted \<Longrightarrow> q_rail (ac_quote a) = Lightning \<Longrightarrow> P (log @ [e]) i (a\<lparr>ac_state := InvoicePending\<rparr>)"
  by (intro ask_acct invoice_acct)

lemma each_step:
  assumes "\<forall>i a. fst s i = Some a \<longrightarrow> P (snd s) i a" "market_step K s s'"
  shows "\<forall>i a. fst s' i = Some a \<longrightarrow> P (snd s') i a"
  using assms(2,1)
  by cases (auto split: if_splits intro: open_acct move_acct ask_acct invoiced_acct)

end

sublocale account_invariant \<subseteq> market_invariant K "\<lambda>s. \<forall>i a. fst s i = Some a \<longrightarrow> P (snd s) i a"
  by unfold_locales (rule each_step)

text \<open>A fresh ledger: no order and nothing asked.\<close>

definition fresh_world :: "cworld" where
  "fresh_world = \<lparr>cw_rows = [], cw_tick = 0, cw_log = []\<rparr>"

lemma fresh_ok: "codecs_ok (ck_json K) \<Longrightarrow> checkout_ok K fresh_world"
  by (simp add: checkout_ok_def ledger_ok_def unique_ok_def fresh_world_def column_def List.map_filter_def)

lemma fresh_book [simp]: "book K fresh_world = (Map.empty, [])"
  by (auto simp: book_def acct_def accounts_def fresh_world_def find_row_def)

context account_invariant
begin

lemma from_fresh:
  assumes "codecs_ok (ck_json K)" "acct K (run_calls K cs fresh_world) i = Some a"
  shows "P (cw_log (run_calls K cs fresh_world)) i a"
  using calls [OF fresh_ok [OF assms(1)], of cs] assms(2) by (simp add: book_def [of K "run_calls K cs fresh_world"])

end

section \<open>Payment evidence\<close>

definition PAID :: "order_state set" where
  "PAID = {Settled, Active, RefundRequired, Refunded}"

text \<open>Paid over Lightning: a valid invoice for the quoted terms, reported paid with its preimage.\<close>

definition paid_invoice :: "checkout \<Rightarrow> ceffect list \<Rightarrow> account \<Rightarrow> bool" where
  "paid_invoice K log a \<longleftrightarrow>
     (\<exists>iv. invoice_valid (ck_ln K) (ac_quote a) iv \<and> ac_hash a = Some (ln_payment_hash iv)
        \<and> paid_evidence (ck_lib K) log (ln_payment_hash iv)
        \<and> ac_settlement a = Some (''lightning:'' @ ln_payment_hash iv))"

text \<open>Paid with a note: the quoted issuer signed the replacement note for the quoted price.\<close>

definition issued_by :: "rotation \<Rightarrow> issuer \<Rightarrow> bool" where
  "issued_by ro x \<longleftrightarrow> ro_issuer ro = is_id x \<and> ro_mint_pubkey ro = mint_pubkey x \<and> ro_endpoint ro = note_endpoint x"

definition paid_note :: "checkout \<Rightarrow> account \<Rightarrow> bool" where
  "paid_note K a \<longleftrightarrow>
     (\<exists>x ro signature. q_issuer (ac_quote a) = Some x \<and> ac_rotation a = Some ro \<and> issued_by ro x
        \<and> ro_certificate ro = Some signature \<and> certifies (ck_ln K) (ac_quote a) ro signature
        \<and> ac_settlement a = Some (''lnurlcash:'' @ c_sha256 (ck_lib K) (ro_request_url ro)))"

definition pending_note :: "account \<Rightarrow> bool" where
  "pending_note a \<longleftrightarrow> (\<exists>x ro. q_issuer (ac_quote a) = Some x \<and> ac_rotation a = Some ro \<and> issued_by ro x)"

definition refund_terms :: "checkout \<Rightarrow> account \<Rightarrow> refund_journal \<Rightarrow> bool" where
  "refund_terms K a j \<longleftrightarrow>
     refund_invoice_valid (ck_ln K) (ac_quote a) j \<and> q_refund_to (ac_quote a) = Some (rj_destination j)"

definition evident :: "checkout \<Rightarrow> ceffect list \<Rightarrow> string \<Rightarrow> account \<Rightarrow> bool" where
  "evident K log i a \<longleftrightarrow>
     (ac_state a \<in> PAID \<longrightarrow>
        (if q_rail (ac_quote a) = Lightning then paid_invoice K log a else paid_note K a))
     \<and> (ac_state a \<in> {InvoicePending, AwaitingPayment} \<longrightarrow> q_rail (ac_quote a) = Lightning)
     \<and> (ac_state a = AwaitingPayment \<longrightarrow>
          (\<exists>iv. invoice_valid (ck_ln K) (ac_quote a) iv \<and> ac_hash a = Some (ln_payment_hash iv)))
     \<and> (ac_state a = LnurlPending \<longrightarrow> q_rail (ac_quote a) = Lnurlcash \<and> pending_note a)
     \<and> (ac_state a = Active \<longrightarrow> (\<exists>r. ac_receipt a = Some r \<and> CE_Activate i (Inr r) \<in> set log))
     \<and> (ac_state a \<in> {RefundRequired, Refunded} \<longrightarrow> CE_Activate i (Inl PaidAllowanceUnavailable) \<in> set log)
     \<and> (\<forall>j. ac_refund a = Some j \<longrightarrow>
          ac_state a \<in> {RefundRequired, Refunded} \<and> q_rail (ac_quote a) = Lnurlcash \<and> refund_terms K a j)
     \<and> (ac_state a = Refunded \<longrightarrow> (\<exists>j. ac_refund a = Some j \<and> refund_evidence K log j \<and> refunded_at j \<noteq> None))"

lemma rail_cases: "(r \<noteq> Lightning) = (r = Lnurlcash)"
  by (cases r) auto

lemma refund_evidence_at [simp]: "refund_evidence K log (j\<lparr>refunded_at := t\<rparr>) = refund_evidence K log j"
  by (simp add: refund_evidence_def verify_urls_def)

lemma evident_opens: "opens K i a \<Longrightarrow> evident K log i a"
  by (auto simp: opens_def new_account_def evident_def PAID_def)

lemma refund_evidence_mono: "refund_evidence K log j \<Longrightarrow> refund_evidence K (log @ [e]) j"
  unfolding refund_evidence_def set_append by blast

lemma paid_invoice_mono: "paid_invoice K log a \<Longrightarrow> paid_invoice K (log @ [e]) a"
  unfolding paid_invoice_def paid_evidence_def set_append by blast

lemma evident_asked: "evident K log i a \<Longrightarrow> evident K (log @ [e]) i a"
  unfolding evident_def
  by (auto intro: paid_invoice_mono refund_evidence_mono split: if_splits)

lemma evident_moved:
  assumes "evident K log i a" "order_step K log i a a'"
  shows "evident K log i a'"
  using assms(2)
proof cases
  case (pay_invoice h)
  with assms(1) show ?thesis by (auto simp: evident_def PAID_def paid_invoice_def)
next
  case (pay_note ro signature)
  with assms(1) show ?thesis by (auto simp: evident_def PAID_def paid_note_def pending_note_def issued_by_def certifies_def)
next
  case (take_note x n secret req)
  with assms(1) show ?thesis by (auto simp: evident_def PAID_def pending_note_def issued_by_def rotation_for_def)
next
  case (invoice iv)
  with assms(1) show ?thesis by (auto simp: evident_def PAID_def)
next
  case (activate receipt)
  with assms(1) show ?thesis by (auto simp: evident_def PAID_def paid_invoice_def paid_note_def)
next
  case undeliverable
  with assms(1) show ?thesis by (auto simp: evident_def PAID_def paid_invoice_def paid_note_def)
next
  case (open_refund j)
  with assms(1) show ?thesis by (auto simp: evident_def PAID_def paid_invoice_def paid_note_def refund_terms_def refund_invoice_valid_def)
next
  case (watch_refund j v)
  with assms(1) show ?thesis by (auto simp: evident_def PAID_def paid_invoice_def paid_note_def refund_terms_def refund_invoice_valid_def)
next
  case (close_refund j t)
  with assms(1) show ?thesis by (auto simp: evident_def PAID_def paid_invoice_def paid_note_def refund_terms_def refund_invoice_valid_def)
qed (use assms(1) in \<open>auto simp: evident_def PAID_def\<close>)

lemma evident_invoice:
  "evident K log i a \<Longrightarrow> ac_state a = Quoted \<Longrightarrow> q_rail (ac_quote a) = Lightning \<Longrightarrow>
   evident K log i (a\<lparr>ac_state := InvoicePending\<rparr>)"
  by (auto simp: evident_def PAID_def)

interpretation paid: account_invariant K "evident K" for K
  by unfold_locales (rule evident_opens evident_moved evident_asked evident_invoice; assumption)+

section \<open>Terms\<close>

lemma order_step_terms:
  assumes "order_step K log i a a'"
  shows "ac_quote a' = ac_quote a \<and> ac_request a' = ac_request a \<and> ac_digest a' = ac_digest a"
  using assms by cases auto

text \<open>Every order carries terms the operator configured, and its last date fits SQLite's integers.\<close>

definition terms_ok :: "checkout \<Rightarrow> string \<Rightarrow> quote \<Rightarrow> bool" where
  "terms_ok K i q \<longleftrightarrow>
     q_order_id q = i \<and> q_offer q \<in> set (offers (ck_config K)) \<and> q_network q = cf_network (ck_config K)
     \<and> q_expires_at q = q_created_at q + quote_seconds (ck_config K)
     \<and> q_expires_at q + duration_seconds (q_offer q) + grace_seconds (q_offer q) \<le> i64_max
     \<and> (case q_rail q of
          Lightning \<Rightarrow> q_issuer_id q = None
        | Lnurlcash \<Rightarrow> q_network q = Bitcoin
            \<and> (\<exists>x \<in> set (issuers (ck_config K)). q_issuer q = Some x \<and> q_issuer_id q = Some (is_id x)))"

lemma quote_deadlines_Inr:
  "quote_deadlines created seconds f = Inr expires \<Longrightarrow>
   expires = created + seconds \<and> expires + duration_seconds f + grace_seconds f \<le> i64_max"
  by (auto simp: quote_deadlines_def res_simps checked_add_Some Option.bind_eq_Some_conv split: if_splits)

lemma find_issuer:
  "list_ex (\<lambda>x. Some (is_id x) = v) xs \<Longrightarrow> \<exists>x \<in> set xs. List.find (\<lambda>x. Some (is_id x) = v) xs = Some x \<and> v = Some (is_id x)"
  by (induction xs) auto

lemma opens_terms:
  assumes "opens K i a"
  shows "terms_ok K i (ac_quote a)"
proof -
  from assms obtain p rq f created expires json request where
    o: "rail_served K rq" "f \<in> set (offers (ck_config K))"
      "quote_deadlines created (quote_seconds (ck_config K)) f = Inr expires"
    and a: "a = new_account (ck_lib K) (make_quote (ck_config K) p rq i f created expires) json request"
    unfolding opens_def by blast
  have q: "ac_quote a = make_quote (ck_config K) p rq i f created expires" by (simp add: a new_account_def)
  show ?thesis
    using o quote_deadlines_Inr [OF o(3)] find_issuer
    unfolding q terms_ok_def rail_served_def
    by (cases "rq_rail rq") (fastforce simp: make_quote_def)+
qed

interpretation terms: account_invariant K "\<lambda>log i a. terms_ok K i (ac_quote a)" for K
  by unfold_locales (auto simp: opens_terms dest: order_step_terms)

section \<open>Invoices\<close>

fun invoice_of :: "string \<Rightarrow> ceffect \<Rightarrow> bool" where
  "invoice_of i (CE_Invoice j sats answer) = (j = i)"
| "invoice_of i e = False"

definition invoices_for :: "string \<Rightarrow> ceffect list \<Rightarrow> ceffect list" where
  "invoices_for i log = filter (invoice_of i) log"

text \<open>No invoice before an order leaves \<open>Quoted\<close>, and at most one ever, for the quoted price.\<close>

definition invoice_once :: "account option \<Rightarrow> ceffect list \<Rightarrow> bool" where
  "invoice_once v es =
     (case v of
        None \<Rightarrow> es = []
      | Some a \<Rightarrow>
          (ac_state a \<in> {Reserving, Quoted, Expired} \<longrightarrow> es = []) \<and> length es \<le> 1
          \<and> (\<forall>i sats answer. CE_Invoice i sats answer \<in> set es \<longrightarrow>
               q_rail (ac_quote a) = Lightning \<and> sats = price_msat (q_offer (ac_quote a)) div 1000))"

definition invoiced_once :: "market \<times> ceffect list \<Rightarrow> bool" where
  "invoiced_once s \<longleftrightarrow> (\<forall>i. invoice_once (fst s i) (invoices_for i (snd s)))"

lemma invoice_once_moved:
  assumes "invoice_once (Some a) es" "order_step K log i a a'"
  shows "invoice_once (Some a') es"
  using assms(2) assms(1) by cases (auto simp: invoice_once_def)

lemma may_ask_no_invoice: "may_ask K m e \<Longrightarrow> \<not> invoice_of i e"
  by (cases e) auto

lemma invoices_for_append: "invoices_for i (log @ [e]) = invoices_for i log @ (if invoice_of i e then [e] else [])"
  by (simp add: invoices_for_def)

lemma invoiced_once_step:
  assumes "invoiced_once s" "market_step K s s'"
  shows "invoiced_once s'"
  using assms(2)
proof cases
  case (opened m i a log)
  have old: "invoice_once (m j) (invoices_for j log)" for j using assms(1) opened by (simp add: invoiced_once_def)
  have "ac_state a = Reserving" using opened by (auto simp: opens_def new_account_def)
  moreover have "invoices_for i log = []" using old [of i] opened by (simp add: invoice_once_def)
  ultimately have "invoice_once (Some a) (invoices_for i log)" by (simp add: invoice_once_def)
  then show ?thesis using opened old by (simp add: invoiced_once_def)
next
  case (moved m i a log a')
  have old: "invoice_once (m j) (invoices_for j log)" for j using assms(1) moved by (simp add: invoiced_once_def)
  have "invoice_once (Some a') (invoices_for i log)"
    by (rule invoice_once_moved [OF _ moved(4)]) (use old [of i] moved in simp)
  then show ?thesis using moved old by (simp add: invoiced_once_def)
next
  case (invoiced m i a log answer)
  have old: "invoice_once (m j) (invoices_for j log)" for j using assms(1) invoiced by (simp add: invoiced_once_def)
  have "invoices_for i log = []" using old [of i] invoiced by (simp add: invoice_once_def)
  then show ?thesis
    using invoiced old by (simp add: invoiced_once_def invoices_for_append) (simp add: invoice_once_def)
next
  case (asked m e log)
  then show ?thesis using assms(1) may_ask_no_invoice by (simp add: invoiced_once_def invoices_for_append)
qed

interpretation once: market_invariant K invoiced_once for K
  by unfold_locales (rule invoiced_once_step)

section \<open>Life of an order\<close>

fun order_rank :: "order_state \<Rightarrow> nat" where
  "order_rank Reserving = 0"
| "order_rank Quoted = 1"
| "order_rank InvoicePending = 2"
| "order_rank AwaitingPayment = 3"
| "order_rank LnurlPending = 3"
| "order_rank Settled = 4"
| "order_rank RefundRequired = 5"
| "order_rank Active = 6"
| "order_rank Refunded = 6"
| "order_rank Expired = 6"

definition same_refund :: "refund_journal \<Rightarrow> refund_journal \<Rightarrow> bool" where
  "same_refund j k \<longleftrightarrow>
     rj_destination k = rj_destination j \<and> rj_invoice k = rj_invoice j \<and> rj_payment_hash k = rj_payment_hash j
     \<and> rj_request_url k = rj_request_url j \<and> receiver_verify k = receiver_verify j"

definition keeps :: "('a \<Rightarrow> 'a \<Rightarrow> bool) \<Rightarrow> 'a option \<Rightarrow> 'a option \<Rightarrow> bool" where
  "keeps r x y \<longleftrightarrow> (\<forall>v. x = Some v \<longrightarrow> (\<exists>u. y = Some u \<and> r v u))"

text \<open>
  What may become of an account: the terms stay, what was received or journalled stays, the state
  only advances, and an account in a final state is never touched again.
\<close>

definition follows :: "account \<Rightarrow> account \<Rightarrow> bool" where
  "follows a b \<longleftrightarrow>
     ac_quote b = ac_quote a \<and> ac_request b = ac_request a \<and> ac_digest b = ac_digest a
     \<and> (ac_state b = ac_state a \<or> order_rank (ac_state a) < order_rank (ac_state b))
     \<and> (order_rank (ac_state a) = 6 \<longrightarrow> b = a)
     \<and> (order_rank (ac_state a) \<ge> 3 \<longrightarrow> ac_invoice b = ac_invoice a \<and> ac_hash b = ac_hash a \<and> ac_note b = ac_note a)
     \<and> (order_rank (ac_state a) \<ge> 4 \<longrightarrow> ac_rotation b = ac_rotation a \<and> ac_settlement b = ac_settlement a)
     \<and> keeps same_refund (ac_refund a) (ac_refund b)"

lemma follows_refl: "follows a a"
  by (simp add: follows_def keeps_def same_refund_def)

lemma keeps_trans:
  "keeps same_refund x y \<Longrightarrow> keeps same_refund y z \<Longrightarrow> keeps same_refund x z"
  unfolding keeps_def same_refund_def by fastforce

lemma follows_state: "follows a b \<Longrightarrow> ac_state b = ac_state a \<or> order_rank (ac_state a) < order_rank (ac_state b)"
  by (simp add: follows_def)

lemma follows_rank: "follows a b \<Longrightarrow> order_rank (ac_state a) \<le> order_rank (ac_state b)"
  by (auto dest: follows_state)

lemma follows_trans:
  assumes ab: "follows a b" and bc: "follows b c"
  shows "follows a c"
proof -
  note r = follows_rank [OF ab]
  have "ac_state c = ac_state a \<or> order_rank (ac_state a) < order_rank (ac_state c)"
    using follows_state [OF ab] follows_state [OF bc] by auto
  moreover have "order_rank (ac_state a) = 6 \<Longrightarrow> c = a" using ab bc by (simp add: follows_def)
  moreover have "keeps same_refund (ac_refund a) (ac_refund c)"
    using ab bc keeps_trans unfolding follows_def by blast
  ultimately show ?thesis using ab bc r by (simp add: follows_def)
qed

lemma step_follows:
  assumes "order_step K log i a b"
  shows "follows a b"
  using assms by cases (simp_all add: follows_def keeps_def same_refund_def)

lemma follows_step: "follows a b \<Longrightarrow> order_step K log i b c \<Longrightarrow> follows a c"
  by (rule follows_trans [OF _ step_follows])

lemma follows_market:
  assumes "\<exists>b. fst s i = Some b \<and> follows a b" "market_step K s s'"
  shows "\<exists>b. fst s' i = Some b \<and> follows a b"
  using assms(2)
proof cases
  case (moved m j b log b')
  then show ?thesis using assms(1) follows_step by (cases "i = j") auto
next
  case (invoiced m j b log answer)
  then show ?thesis using assms(1) by (cases "i = j") (auto simp: follows_def keeps_def)
qed (use assms(1) in \<open>auto\<close>)

interpretation life: market_invariant K "\<lambda>s. \<exists>b. fst s i = Some b \<and> follows a b" for K i a
  by unfold_locales (rule follows_market)

section \<open>Validated configurations\<close>

lemma validate_offers_sound: "validate_offers ids fs = Inr () \<Longrightarrow> f \<in> set fs \<Longrightarrow> \<not> offer_bad f"
  by (induction ids fs rule: validate_offers.induct) (auto split: if_splits)

lemma config_offers: "config_validate L c = Inr () \<Longrightarrow> f \<in> set (offers c) \<Longrightarrow> \<not> offer_bad f"
  unfolding config_validate_def if_Inr try_then_Inr by (auto dest: validate_offers_sound)

lemma whole_sats: "\<not> offer_bad f \<Longrightarrow> price_msat f div 1000 * 1000 = price_msat f"
  unfolding offer_bad_def by (metis div_mult_mod_eq add.right_neutral)

section \<open>Guarantees\<close>

text \<open>C2: The checkout refines the market. Whatever sequence of requests and operator actions it serves,
  with a database, clock, backends and transports that may answer anything or fail at every call, it keeps
  its ledger readable and consistent, and all it does, to its orders and to the outside, is a sequence of
  steps of the abstract market: orders open on configured terms, move one guarded step at a time, never
  share a payment, and nothing is asked of the outside that the orders give no reason for.\<close>

theorem checkout_refines_market:
  assumes "checkout_ok K w"
  shows "checkout_ok K (run_calls K cs w) \<and> (market_step K)\<^sup>*\<^sup>* (book K w) (book K (run_calls K cs w))"
  using run_calls_reaches [OF assms] by (simp add: reaches_def)

text \<open>C7: A settled order was paid. Starting from an empty ledger, an order that is settled, active or due
  a refund has the evidence of its payment: over Lightning, a valid invoice for exactly the quoted terms
  that the backend reported paid together with the preimage of its hash; with a note, the quoted issuer's
  signature over a replacement note of exactly the quoted price. An active order has the receipt the storage
  answered to its activation.\<close>

theorem settled_orders_paid:
  assumes "codecs_ok (ck_json K)" "acct K (run_calls K cs fresh_world) i = Some a" "ac_state a \<in> PAID"
  shows "(if q_rail (ac_quote a) = Lightning then paid_invoice K (cw_log (run_calls K cs fresh_world)) a else paid_note K a)
    \<and> (ac_state a = Active \<longrightarrow>
         (\<exists>r. ac_receipt a = Some r \<and> CE_Activate i (Inr r) \<in> set (cw_log (run_calls K cs fresh_world))))"
  using paid.from_fresh [OF assms(1,2)] assms(3) unfolding evident_def by blast


text \<open>C10: At most one invoice per order. Under a validated configuration, every invoice the backend was
  ever asked for belongs to one Lightning order, is the only one asked for that order, also after
  failures and retries, and asks for exactly the price of a configured offer.\<close>

theorem invoices_exact:
  assumes "config_validate (ck_lib K) (ck_config K) = Inr ()" "codecs_ok (ck_json K)"
    "CE_Invoice i sats answer \<in> set (cw_log (run_calls K cs fresh_world))"
  shows "\<exists>a. acct K (run_calls K cs fresh_world) i = Some a \<and> q_rail (ac_quote a) = Lightning
    \<and> q_offer (ac_quote a) \<in> set (offers (ck_config K)) \<and> sats * 1000 = price_msat (q_offer (ac_quote a))
    \<and> invoices_for i (cw_log (run_calls K cs fresh_world)) = [CE_Invoice i sats answer]"
proof -
  let ?w = "run_calls K cs fresh_world"
  let ?es = "invoices_for i (cw_log ?w)"
  have "invoiced_once (book K ?w)"
    by (rule once.calls [OF fresh_ok [OF assms(2)]]) (simp add: invoiced_once_def invoice_once_def invoices_for_def)
  then have once: "invoice_once (acct K ?w i) ?es" by (simp add: invoiced_once_def book_def)
  have e: "CE_Invoice i sats answer \<in> set ?es" using assms(3) by (simp add: invoices_for_def)
  then obtain a where a: "acct K ?w i = Some a"
    using once by (cases "acct K ?w i") (auto simp: invoice_once_def)
  then have o: "q_rail (ac_quote a) = Lightning" "sats = price_msat (q_offer (ac_quote a)) div 1000" "length ?es \<le> 1"
    using once e by (auto simp: invoice_once_def)
  have one: "?es = [CE_Invoice i sats answer]" using o(3) e by (cases ?es) auto
  have offer: "q_offer (ac_quote a) \<in> set (offers (ck_config K))"
    using terms.from_fresh [OF assms(2) a] by (simp add: terms_ok_def)
  then show ?thesis using a o one whole_sats [OF config_offers [OF assms(1)]] by blast
qed


text \<open>C37: Quoted terms are the operator's and fit. Every order in the ledger carries an offer of the
  configuration, an issuer of the configuration exactly on the note rail, an expiry of the configured
  length, and dates whose sum stays within a signed 64-bit integer, so no later addition can overflow.\<close>

theorem quotes_fit:
  assumes "codecs_ok (ck_json K)" "acct K (run_calls K cs fresh_world) i = Some a"
  shows "terms_ok K i (ac_quote a)"
  by (rule terms.from_fresh [OF assms])



section \<open>Admission\<close>

datatype ad_event = Arrive nat | Finish

text \<open>Requests arriving and finishing: the limiter, how many are being served, and how many were admitted.\<close>

fun serve :: "ad_event list \<Rightarrow> admission \<times> nat \<times> nat \<Rightarrow> admission \<times> nat \<times> nat" where
  "serve [] s = s"
| "serve (Arrive t # es) (s, running, admitted) =
     (case admit t s of
        (s, Inl e) \<Rightarrow> serve es (s, running, admitted)
      | (s, Inr u) \<Rightarrow> serve es (s, running + 1, admitted + 1))"
| "serve (Finish # es) (s, running, admitted) =
     (if running = 0 then serve es (s, running, admitted) else serve es (admission_done s, running - 1, admitted))"

definition serving_ok :: "nat \<Rightarrow> nat \<Rightarrow> admission \<times> nat \<times> nat \<Rightarrow> bool" where
  "serving_ok t0 T = (\<lambda>(s, running, admitted).
     ad_free s + running = 4 \<and> t0 \<le> ad_since s \<and> ad_since s \<le> T \<and> ad_count s \<le> 120
     \<and> admitted \<le> 120 * ((ad_since s - t0) div WINDOW) + ad_count s)"

lemma window_passed:
  assumes "t0 \<le> since" "since + WINDOW \<le> now"
  shows "(since - t0) div WINDOW + 1 \<le> (now - t0) div WINDOW"
proof -
  have "(since - t0) div WINDOW + 1 = (since - t0 + WINDOW) div WINDOW" by (simp add: WINDOW_def)
  also have "\<dots> \<le> (now - t0) div WINDOW" by (rule div_le_mono) (use assms in linarith)
  finally show ?thesis .
qed

lemma admit_ok:
  assumes ok: "serving_ok t0 T (s, running, admitted)" and t: "t \<le> T" and ad: "admit t s = (s', r)"
  shows "serving_ok t0 T (s', if is_ok r then running + 1 else running, if is_ok r then admitted + 1 else admitted)"
proof (cases "ad_free s \<noteq> 0 \<and> WINDOW \<le> t - ad_since s")
  case True
  then have late: "ad_since s + WINDOW \<le> t" by (auto simp: WINDOW_def)
  have "120 * ((ad_since s - t0) div WINDOW + 1) \<le> 120 * ((t - t0) div WINDOW)"
    by (intro mult_le_mono order_refl window_passed late) (use ok in \<open>simp add: serving_ok_def\<close>)
  then have "admitted \<le> 120 * ((t - t0) div WINDOW)" using ok by (simp add: serving_ok_def)
  moreover have "t0 \<le> t" using ok late by (simp add: serving_ok_def)
  ultimately show ?thesis using True ad ok t by (auto simp: admit_def serving_ok_def Let_def)
next
  case False
  then show ?thesis using ad ok by (auto simp: admit_def serving_ok_def Let_def split: if_splits)
qed

lemma serve_ok:
  "serving_ok t0 T s \<Longrightarrow> (\<forall>t. Arrive t \<in> set es \<longrightarrow> t \<le> T) \<Longrightarrow> serving_ok t0 T (serve es s)"
proof (induction es s rule: serve.induct)
  case (2 t es s running admitted)
  obtain s' r where ad: "admit t s = (s', r)" by (cases "admit t s")
  note ok = admit_ok [OF "2.prems"(1) _ ad]
  show ?case using 2 ad ok by (cases r) auto
next
  case (3 es s running admitted)
  then show ?case by (auto simp: serving_ok_def admission_done_def)
qed simp


end
