(* ===== verification/Checkout_Sample.thy ===== *)
theory Checkout_Sample
  imports Checkout_Guarantees "HOL-Library.Code_Target_Nat"
begin

text \<open>
  A concrete checkout, with small stand-ins for its libraries and backends, and two orders taken
  through it by requests: one paid over Lightning and delivered, one paid with a note that cannot be
  delivered and is refunded.
\<close>

section \<open>Libraries\<close>

definition sample_url :: "string \<Rightarrow> url option" where
  "sample_url s =
     (if s \<in> {''o'', ''n'', ''cb'', ''pay'', ''vf''}
      then Some \<lparr>u_str = s, u_scheme = ''https'', u_host = Some ''h'', u_path = ''/'', u_query = None, u_fragment = None,
                 u_username = [], u_password = None, u_port = None\<rparr>
      else None)"

definition sample_hash :: string where
  "sample_hash = replicate 64 (CHR ''0'')"

definition sample_sha :: "string \<Rightarrow> string" where
  "sample_sha s = (if length s = 32 then sample_hash else filter (\<lambda>c. c \<noteq> CHR '':'') s)"

definition sample_event :: "string \<Rightarrow> event option" where
  "sample_event s =
     (case s of
        c # path \<Rightarrow> Some \<lparr>ev_id = ''e'', ev_pubkey = ''p'', ev_created_at = 10, ev_kind = 27235,
          ev_tags = [[''u'', ''o'' @ path], [''method'', ''POST''], [''payload'', [c]]], ev_content = []\<rparr>
      | [] \<Rightarrow> None)"

definition sample_clibs :: clibs where
  "sample_clibs =
     \<lparr>c_url = sample_url, c_same_origin = (\<lambda>a b. True), c_query_pairs = (\<lambda>u. []), c_drop_query = (\<lambda>u. u),
      c_parse_ip = (\<lambda>s. None), c_sha256 = sample_sha, c_unhex = (\<lambda>s. Some (take 32 s)), c_base64 = Some,
      c_event = sample_event, c_verify = (\<lambda>ev. ev_pubkey ev = ''p''), c_compressed_pubkey = (\<lambda>s. s = ''mk''),
      c_config_json = (\<lambda>c. Some ''{}''), c_lightning_address = (\<lambda>s. s = ''a'')\<rparr>"

definition sample_offer :: offer where
  "sample_offer =
     \<lparr>of_id = ''f'', of_revision = 1, capacity_bytes = 5, duration_seconds = 100, grace_seconds = 7, price_msat = 2000,
      delivery_bytes = 9, delivery_policy = ''d'', retention_policy = ''t'', refund_policy = ''u''\<rparr>"

definition sample_issuer :: issuer where
  "sample_issuer = \<lparr>is_id = ''x'', note_endpoint = ''n'', is_callback = ''cb'', mint_pubkey = ''mk''\<rparr>"

definition sample_config :: config where
  "sample_config =
     \<lparr>cf_origin = ''o'', cf_seller_id = ''s'', cf_seller_name = ''S'', cf_network = Bitcoin, quote_seconds = 60,
      offers = [sample_offer], issuers = [sample_issuer], cf_allow_loopback_http = False, tor_only = False\<rparr>"

definition sample_request :: "bool \<Rightarrow> quote_request" where
  "sample_request ln =
     \<lparr>request_id = (if ln then ''r'' else ''s''), rq_offer_id = ''f'', rq_rail = (if ln then Lightning else Lnurlcash),
      rq_issuer_id = (if ln then None else Some ''x''), rq_renews = None, rq_refund_to = (if ln then None else Some ''a'')\<rparr>"

definition sample_principal :: principal where
  "sample_principal = \<lparr>p_pubkey = ''p'', p_event_id = ''e''\<rparr>"

definition sample_quote :: "bool \<Rightarrow> quote" where
  "sample_quote ln =
     make_quote sample_config sample_principal (sample_request ln) (if ln then ''pr'' else ''ps'') sample_offer 10 70"

definition sample_rotation :: "string option \<Rightarrow> rotation" where
  "sample_rotation certificate = (rotation_for sample_issuer ''secret'' (''cb?k'', []))\<lparr>ro_certificate := certificate\<rparr>"

definition sample_receipt :: paid_receipt where
  "sample_receipt =
     \<lparr>allowance_id = ''al'', pr_capacity_bytes = 5, starts_at = 10, writes_until = 110, retains_until = 117\<rparr>"

definition sample_journal :: "nat option \<Rightarrow> refund_journal" where
  "sample_journal t =
     \<lparr>rj_destination = ''a'', rj_invoice = ''iv'', rj_payment_hash = sample_hash, receiver_verify = Some ''vf'',
      rj_request_url = ''melt'', issuer_verify = None, refunded_at = t\<rparr>"

definition write_one :: "('a \<times> string) list \<Rightarrow> 'a \<Rightarrow> string option" where
  "write_one tab x = map_of tab x"

definition read_one :: "('a \<times> string) list \<Rightarrow> string \<Rightarrow> 'a option" where
  "read_one tab s = map_of (map (\<lambda>(x, s). (s, x)) tab) s"

definition sample_codecs :: codecs where
  "sample_codecs =
     (let qs = [(sample_quote True, ''1''), (sample_quote False, ''2'')];
          rs = [(sample_rotation None, ''a''), (sample_rotation (Some ''sig''), ''b'')];
          ps = [(sample_receipt, ''c'')];
          js = [(sample_journal None, ''d''), (sample_journal (Some 10), ''e'')]
      in \<lparr>quote_to = write_one qs, quote_from = read_one qs, rotation_to = write_one rs, rotation_from = read_one rs,
          receipt_to = write_one ps, receipt_from = read_one ps, refund_to = write_one js, refund_from = read_one js\<rparr>)"

definition sample_lnlibs :: lnlibs where
  "sample_lnlibs =
     \<lparr>json_value = Some, resolve_note_input = Some, note_k1 = Some, note_id_of = Some, note_info_request = Some,
      parse_note_info = (\<lambda>body note pol. Some \<lparr>ni_callback = ''cb'', ni_k1 = ''k'', ni_mint_pubkey = Some ''mk'',
        max_withdrawable = 2000, ni_signature = None\<rparr>),
      rotate_request = (\<lambda>cb k secret. Some (cb @ ''?'' @ k, [])),
      parse_mutation = (\<lambda>body kind outs pol. Some \<lparr>mu_signature = Some ''sig'', mu_pr = None, mu_verify = None\<rparr>),
      verify_note_signature = (\<lambda>secret e price signature key. signature = ''sig'' \<and> price = 2000 \<and> key = ''mk''),
      build_note_url = (\<lambda>e secret. Some e), resolve_mint_input = Some,
      parse_pay_request = (\<lambda>body. Some \<lparr>pay_callback = ''pay'', min_sendable = 1, max_sendable = 5000\<rparr>),
      invoice_request = (\<lambda>cb amount. Some cb), parse_invoice = (\<lambda>body amount. Some (''iv'', Some ''vf'')),
      melt_request = (\<lambda>cb secret iv. Some ''melt''),
      parse_verify = (\<lambda>body. Some \<lparr>vr_pr = ''IV'', vr_settled = True, vr_preimage = None\<rparr>),
      parse_bolt11 = (\<lambda>s. Some \<lparr>b_currency = CurBitcoin, b_amount_msat = Some 2000, b_expires_at = Some 50,
        b_payment_hash = sample_hash, b_description = Some ''pr'', b_timestamp = 10\<rparr>),
      request_json = (\<lambda>rq. Some (request_id rq))\<rparr>"

section \<open>The checkout and its environment\<close>

definition sample_checkout :: checkout where
  "sample_checkout =
     \<lparr>ck_lib = sample_clibs, ck_json = sample_codecs, ck_ln = sample_lnlibs, ck_config = sample_config,
      ck_lightning = True, ck_notes = True, ck_refunds = True\<rparr>"

definition sample_cenv :: cenv where
  "sample_cenv =
     \<lparr>db_up = (\<lambda>n. True), receiving_free = (\<lambda>n. True), unix_now = (\<lambda>n. Some 10),
      create_invoice = (\<lambda>n sats i. Some \<lparr>bolt11 = ''lnbc'', ln_payment_hash = sample_hash\<rparr>),
      check_invoice = (\<lambda>n h. Some (True, Some sample_hash)), note_get = (\<lambda>n u. Some u), refund_get = (\<lambda>n u. Some u),
      reserve_paid_sale = (\<lambda>n sale. Inr ()),
      activate_paid_sale = (\<lambda>n i. if i = ''pr'' then Inr sample_receipt else Inl PaidAllowanceUnavailable),
      note_secret = (\<lambda>n. ''secret'')\<rparr>"

definition sample_parsers :: body_parsers where
  "sample_parsers =
     \<lparr>parse_quote_request = (\<lambda>s. Some (sample_request (s = ''1''))), parse_consent = (\<lambda>s. Some ''1''),
      parse_note = (\<lambda>s. Some (''2'', ''n''))\<rparr>"

definition sample_post :: "string \<Rightarrow> string \<Rightarrow> cenv \<times> checkout_call" where
  "sample_post path body =
     (sample_cenv, Call_Http sample_parsers
        \<lparr>hq_method = ''POST'', hq_path = path, hq_query = None,
         hq_authorization = [Some (''Nostr '' @ body @ path)], hq_body = Some body\<rparr>)"

definition sample_calls :: "(cenv \<times> checkout_call) list" where
  "sample_calls =
     [sample_post ''/checkout/v1/orders'' ''1'', sample_post ''/checkout/v1/orders/pr/lightning'' ''1'',
      sample_post ''/checkout/v1/orders/pr/check'' ''1'', sample_post ''/checkout/v1/orders'' ''2'',
      sample_post ''/checkout/v1/orders/ps/lnurlcash'' ''2'', (sample_cenv, Call_Refund ''ps'')]"

definition sample_final :: cworld where
  "sample_final = run_calls sample_checkout sample_calls fresh_world"

section \<open>What the run leaves\<close>

definition sample_rows :: "order_row list" where
  "sample_rows =
     [\<lparr>row_id = ''pr'', row_signer = ''p'', row_request = ''r'', row_quote = ''1'', row_digest = ''1'',
       row_state = ''active'', row_invoice = Some ''lnbc'', row_payment_hash = Some sample_hash, row_rotation = None,
       row_note_id = None, row_settlement = Some (''lightning:'' @ sample_hash), row_receipt = Some ''c'',
       row_refund = None\<rparr>,
      \<lparr>row_id = ''ps'', row_signer = ''p'', row_request = ''s'', row_quote = ''2'', row_digest = ''2'',
       row_state = ''refunded'', row_invoice = None, row_payment_hash = None, row_rotation = Some ''b'',
       row_note_id = Some ''nmkn'', row_settlement = Some ''lnurlcash:cb?k'', row_receipt = None,
       row_refund = Some ''e''\<rparr>]"

definition sample_invoice :: ln_invoice where
  "sample_invoice = \<lparr>bolt11 = ''lnbc'', ln_payment_hash = sample_hash\<rparr>"

definition sample_log :: "ceffect list" where
  "sample_log =
     [CE_Reserve (sale_of (sample_quote True)) (Inr ()), CE_Invoice ''pr'' 2 (Some sample_invoice),
      CE_Check sample_hash (Some (True, Some sample_hash)), CE_Activate ''pr'' (Inr sample_receipt),
      CE_Reserve (sale_of (sample_quote False)) (Inr ()), CE_Note ''n'' (Some ''n''), CE_Note ''cb?k'' (Some ''cb?k''),
      CE_Activate ''ps'' (Inl PaidAllowanceUnavailable), CE_Refund ''a'' (Some ''a''), CE_Refund ''pay'' (Some ''pay''),
      CE_Note ''melt'' (Some ''melt''), CE_Refund ''vf'' (Some ''vf'')]"

lemma sample_final_eq: "cw_rows sample_final = sample_rows" "cw_log sample_final = sample_log"
  by code_simp+

definition sample_account :: "bool \<Rightarrow> account" where
  "sample_account ln =
     \<lparr>ac_quote = sample_quote ln, ac_request = (if ln then ''r'' else ''s''), ac_digest = (if ln then ''1'' else ''2''),
      ac_state = (if ln then Active else Refunded), ac_invoice = (if ln then Some ''lnbc'' else None),
      ac_hash = (if ln then Some sample_hash else None),
      ac_rotation = (if ln then None else Some (sample_rotation (Some ''sig''))),
      ac_note = (if ln then None else Some ''nmkn''),
      ac_settlement = Some (if ln then ''lightning:'' @ sample_hash else ''lnurlcash:cb?k''),
      ac_receipt = (if ln then Some sample_receipt else None),
      ac_refund = (if ln then None else Some (sample_journal (Some 10)))\<rparr>"

lemma sample_rows_accounts:
  "accounts sample_codecs sample_rows ''pr'' = Some (sample_account True)"
  "accounts sample_codecs sample_rows ''ps'' = Some (sample_account False)"
  by code_simp+

lemma sample_json [simp]: "ck_json sample_checkout = sample_codecs"
  by (simp add: sample_checkout_def)

lemma sample_accounts:
  "acct sample_checkout (run_calls sample_checkout sample_calls fresh_world) ''pr'' = Some (sample_account True)"
  "acct sample_checkout (run_calls sample_checkout sample_calls fresh_world) ''ps'' = Some (sample_account False)"
  using sample_rows_accounts sample_final_eq by (simp_all add: acct_def sample_final_def)

lemma sample_codecs_ok: "codecs_ok (ck_json sample_checkout)"
  by (auto simp: codecs_ok_def sample_codecs_def write_one_def read_one_def Let_def split: if_splits)

lemma sample_config_ok: "config_validate (ck_lib sample_checkout) (ck_config sample_checkout) = Inr ()"
  by code_simp

section \<open>Witnesses\<close>

theorem checkout_refines_market_witness:
  "checkout_ok sample_checkout sample_final
   \<and> (market_step sample_checkout)\<^sup>*\<^sup>* (Map.empty, []) (book sample_checkout sample_final)
   \<and> map row_state (cw_rows sample_final) = [''active'', ''refunded'']"
  using checkout_refines_market [OF fresh_ok [OF sample_codecs_ok], of sample_calls]
  by (simp add: sample_final_def [symmetric] sample_final_eq) (simp add: sample_rows_def)

theorem settled_orders_paid_witness:
  "paid_invoice sample_checkout (cw_log sample_final) (sample_account True)
   \<and> CE_Activate ''pr'' (Inr sample_receipt) \<in> set (cw_log sample_final)"
  using settled_orders_paid [OF sample_codecs_ok sample_accounts(1)]
  by (simp add: sample_final_def [symmetric] sample_account_def PAID_def sample_quote_def make_quote_def sample_request_def)


theorem invoices_exact_witness:
  "2 * 1000 = price_msat (q_offer (sample_quote True))
   \<and> invoices_for ''pr'' (cw_log sample_final) = [CE_Invoice ''pr'' 2 (Some sample_invoice)]"
proof -
  have "CE_Invoice ''pr'' 2 (Some sample_invoice) \<in> set (cw_log (run_calls sample_checkout sample_calls fresh_world))"
    by (simp add: sample_final_def [symmetric] sample_final_eq sample_log_def)
  from invoices_exact [OF sample_config_ok sample_codecs_ok this] show ?thesis
    by (simp add: sample_accounts sample_final_def) (simp add: sample_account_def)
qed


theorem quotes_fit_witness: "terms_ok sample_checkout ''ps'' (sample_quote False)"
  using quotes_fit [OF sample_codecs_ok sample_accounts(2)] by (simp add: sample_account_def)


definition sample_http :: checkout_request where
  "sample_http =
     \<lparr>hq_method = ''POST'', hq_path = ORDERS, hq_query = None, hq_authorization = [Some (''Nostr 1'' @ ORDERS)],
      hq_body = Some ''1''\<rparr>"

lemma sample_execute:
  "cw_log (fst (execute sample_checkout sample_cenv sample_parsers sample_http fresh_world)) \<noteq> []"
  by code_simp



end
