(* ===== verification/Spec2Isabelle.thy ===== *)
theory Spec2Isabelle
  imports Regenerate Envelope_Files Pool_Guarantees Checkout_Sample
begin

text \<open>
  \<^bold>\<open>Verification of the Wildbloom node.\<close>

  \<^bold>\<open>The program.\<close> A Wildbloom node stores encrypted blobs by their SHA-256 digest and keeps them
  alive. Four parts of it decide something that must not go wrong, and they are modelled here:

  \<^item> \<^emph>\<open>Envelopes\<close> (\<open>src/crates/envelope\<close>). A file leaves its owner's machine only as an \<open>FSWNENC2\<close>
    envelope: a header, then one authenticated record per chunk of the padded plaintext, which starts
    with the file's name, type and size.
  \<^item> \<^emph>\<open>Replica maintenance\<close> (\<open>src/crates/wildbloomd/src/replicas\<close>: \<open>policy.rs\<close>, \<open>state.rs\<close>,
    \<open>engine.rs\<close>, \<open>transport.rs\<close>). The owner signs a policy of blobs and storage targets. A coordinator
    reads it, checks every target in bounded passes, mirrors missing blobs under the owner's
    signature, and keeps its observations in a private state directory.
  \<^item> \<^emph>\<open>Pools\<close> (\<open>coding.rs\<close>, \<open>pool.rs\<close>, \<open>signer.rs\<close>, \<open>pool_repair.rs\<close> of the same directory). An envelope
    is cut into parts by an erasure code over GF(256) and spread over nodes named in a signed receipt.
    Repair scans the nodes, downloads any sufficient set of parts, recomputes all of them, and uploads
    what is missing. It uses the transport and the policy rules of the coordinator.
  \<^item> \<^emph>\<open>Checkout\<close> (\<open>src/crates/wildbloom-checkout\<close>). An operator sells storage allowances. A signed
    request gets a quote, pays it over Lightning or with a note, and the order is activated or, for a
    note, refunded. Orders live in one SQLite table; Lightning, issuers and storage answer over HTTP.

  \<^bold>\<open>Style.\<close> Operations are functions with the control flow of the Rust code. Fallible code returns a
  sum whose left side is the error; code that changes state and may fail returns the changed state
  with such a sum, so that what an early return leaves behind is visible. Everything outside the
  sources is a parameter: libraries are fields of the records \<open>libs\<close>, \<open>rlibs\<close>, \<open>http\<close>, \<open>clibs\<close>,
  \<open>lnlibs\<close> and \<open>codecs\<close>; clocks, disks, networks, signers and databases are the environments \<open>renv\<close>,
  \<open>penv\<close> and \<open>cenv\<close>, functions of the number of calls made so far. Theorems quantify over all of
  them, so they hold when any call fails and when answers change between calls. Worlds carry a log of
  what was asked of the outside; safety theorems speak about its entries and their order.

  \<^bold>\<open>Theories.\<close>

  \<^item> \<open>Prelude\<close>: bytes, results and their sequencing, weakest preconditions of stateful results
    (\<open>wp\<close>), saturating and checked \<open>u64\<close> arithmetic, hexadecimal and identifier tests.
  \<^item> \<open>Gf256\<close>, \<open>Coding\<close>: \<open>multiply\<close>, \<open>inverse\<close>, \<open>invert\<close>, \<open>generator\<close> and \<open>combine\<close> of \<open>coding.rs\<close>.
    The byte operations form a field; Gauss-Jordan inversion returns the two-sided inverse and fails
    on singular matrices only; every \<open>k\<close> rows of the generator are invertible.
  \<^item> \<open>Disk\<close>, \<open>Regenerate\<close>: the function \<open>regenerate\<close> over files read and written in stripes. From any
    \<open>k\<close> intact parts all parts are rebuilt, and whatever it returns has the signed digests.
  \<^item> \<open>Envelope_Format\<close>, \<open>Envelope_Name\<close>, \<open>Envelope_Stream\<close>, \<open>Envelope_Roundtrip\<close>, \<open>Envelope_Files\<close>:
    \<open>lib.rs\<close>, \<open>name.rs\<close>, \<open>stream.rs\<close>, \<open>key.rs\<close> and \<open>temp.rs\<close>. Sealing succeeds within the limits and
    opens to the same file; what opens was sealed with the same key; nonces never repeat; names are
    canonical; key texts have one spelling; the sweep removes only its own files.
  \<^item> \<open>Replica_Types\<close>, \<open>Replica_Policy\<close>, \<open>Btree_Map\<close>, \<open>Replica_State\<close>: policies, ordered maps (the locale
    \<open>key_map\<close>, interpreted on association lists) and the state directory. Validation accepts exactly
    the well-formed policies, an accepted policy is what the owner signed and never rolls back, and a
    saved snapshot is what the next start reads.
  \<^item> \<open>Replica_Engine\<close>, \<open>Replica_Pass\<close>, \<open>Replica_Guarantees\<close>: one maintenance pass, its invariant, and
    the resulting theorems: authorised mirrors only, reports with evidence, limits, progress, and a
    loadable state also after a failure.
  \<^item> \<open>Http_Transport\<close>: origins, address filter, \<open>verify\<close>, \<open>download\<close>, \<open>upload\<close> and \<open>mirror\<close>. The locale
    \<open>part_transport\<close> is what repair needs of a transport; both transports of the code provide it.
  \<^item> \<open>Pool\<close>, \<open>Signer\<close>, \<open>Pool_Repair\<close>, \<open>Pool_Pass\<close>, \<open>Pool_Guarantees\<close>: receipts and their placement
    rules, the signer command, the repair pass and process. Uploads carry exactly the signed bytes
    under fresh authority, transfers stay within the budget, validated receipts never make the code
    panic, and the process ends with its authority.
  \<^item> \<open>Checkout_Contract\<close>, \<open>Checkout_Ledger\<close>, \<open>Checkout_Service\<close>, \<open>Checkout_Http\<close>: \<open>contract.rs\<close>,
    \<open>lib.rs\<close> and \<open>auth.rs\<close>; \<open>ledger.rs\<close> as statements on rows; \<open>service.rs\<close>; \<open>http.rs\<close>.
  \<^item> \<open>Checkout_Market\<close>, \<open>Checkout_Refinement\<close>: the specification, a market of accounts whose steps
    (\<open>order_step\<close>, \<open>market_step\<close>) state the guards under which an order may change, and the proof that
    every operation of the service makes steps of the market only, also when it fails half-way.
  \<^item> \<open>Checkout_Guarantees\<close>, \<open>Checkout_Sample\<close>: invariants of the market, carried to the service by the
    locales \<open>market_invariant\<close> and \<open>account_invariant\<close>: paid before delivered, one exact invoice, exact
    refunds, no payment used twice, final states final. The sample runs two orders to their end.

  \<^bold>\<open>Numbers and bounds.\<close> Bytes and \<open>u64\<close> fields that wrap are words; sizes, times and amounts that
  the code checks or saturates are natural numbers with the check written out. Constants are the
  code's. Loops over data are structural or have a measure; no fuel is used. The one loop that may
  run forever, the repair process, is a \<open>partial_function\<close> into \<open>option\<close>; that it returns is the
  theorem \<open>repair_run_ends\<close>.

  \<^bold>\<open>Hypotheses.\<close> \<open>libs_laws\<close> (authenticated encryption opens what it sealed and nothing else, JSON
  round-trips, Unicode normalisation is idempotent), \<open>env_ok\<close> (a policy that validated, and a
  coordinator that is not panicking), \<open>codecs_ok\<close> (order records survive JSON), and the base64 laws
  of \<open>wbk1_canonical\<close> are documented properties of the libraries. Each theorem that uses one has a
  witness with concrete functions that satisfy it.

  \<^bold>\<open>Not modelled.\<close> The storage core \<open>wildbloom_core\<close> is a dependency outside the repository, and the
  grants, storage proofs and the HTTP surface of the daemon are compositions of its operations.
  Opening and migrating the checkout database, the HTTP clients of \<open>phoenixd.rs\<close> and \<open>transport.rs\<close>,
  enrolment and directory queries, service discovery and the Tor process consist of input and output
  whose outcome the modelled code takes as an answer. Command lines, signals, logging and the desktop
  application, which is a separate program over a window framework, are left out. Threads appear
  where the code races: as changes of the environment between two calls and as the ways in which the
  repair loop may be interrupted.
\<close>

end
